(* ===== verification/RpcPrelude.thy ===== *)
theory RpcPrelude
  imports Main "HOL-Library.Word"
begin

text \<open>
  Shared vocabulary of the development: bytes and C++ strings, the faults that stand for
  undefined behaviour and uncaught exceptions of the C++ code, the two's complement ranges of
  \<open>int\<close>, block copies (\<open>memcpy\<close>, \<open>memmove\<close>), the generic lemmas on lists the components
  use, and the locale that lifts a one-step invariant to whole runs.
\<close>

section \<open>Types\<close>

type_synonym byte = "8 word"
type_synonym cstring = "byte list"

definition ascii :: "string \<Rightarrow> cstring" where
  "ascii s = map of_char s"

text \<open>What the C++ code can run into besides a result: a read or write outside an array, a
  negative length handed to a standard container (which throws \<open>std::length_error\<close>), signed integer
  overflow, the use of a null pointer, and a division by zero.\<close>

datatype fault = OutOfRange | LengthError | IntOverflow | NullPointer | DivisionByZero

abbreviation int32_max :: int where "int32_max \<equiv> 2147483647"
abbreviation int32_min :: int where "int32_min \<equiv> - 2147483648"

definition fits_int32 :: "int \<Rightarrow> bool" where
  "fits_int32 i \<longleftrightarrow> int32_min \<le> i \<and> i \<le> int32_max"

named_theorems wf_intros "every operation keeps its component's well-formedness"
named_theorems content_simps "how each operation changes a component's abstract content"

section \<open>Lists\<close>

lemma length_ascii [simp]: "length (ascii s) = length s"
  by (simp add: ascii_def)

lemma ascii_eq_Nil_iff [simp]: "ascii s = [] \<longleftrightarrow> s = []"
  by (simp add: ascii_def)

text \<open>A block copy out of and into a byte array, as \<open>memcpy\<close> and \<open>memmove\<close> do it when both
  ranges are inside their arrays.\<close>

definition mem_read :: "'a list \<Rightarrow> nat \<Rightarrow> nat \<Rightarrow> 'a list" where
  "mem_read mem off len = take len (drop off mem)"

definition mem_write :: "'a list \<Rightarrow> nat \<Rightarrow> 'a list \<Rightarrow> 'a list" where
  "mem_write mem off data = take off mem @ data @ drop (off + length data) mem"

lemma length_mem_write [simp]:
  "off + length data \<le> length mem \<Longrightarrow> length (mem_write mem off data) = length mem"
  by (simp add: mem_write_def)

lemma length_mem_read [simp]:
  "off + len \<le> length mem \<Longrightarrow> length (mem_read mem off len) = len"
  by (simp add: mem_read_def)

lemma mem_read_zero [simp]: "mem_read mem off 0 = []"
  by (simp add: mem_read_def)

lemma mem_read_prefix: "mem_read (xs @ ys) 0 (length xs) = xs"
  by (simp add: mem_read_def)

lemma mem_read_write_join:
  assumes "off + len \<le> length mem"
  shows "mem_read (mem_write mem (off + len) data) off (len + length data)
           = mem_read mem off len @ data"
proof -
  have "min (length mem) (off + len) = off + len"
    using assms by simp
  then show ?thesis
    using assms by (simp add: mem_read_def mem_write_def take_drop add.commute)
qed

lemma mem_read_drop:
  "n \<le> len \<Longrightarrow> mem_read mem (off + n) (len - n) = drop n (mem_read mem off len)"
  by (simp add: mem_read_def drop_take add.commute)

lemma mem_read_take:
  "n \<le> len \<Longrightarrow> mem_read mem off n = take n (mem_read mem off len)"
  by (simp add: mem_read_def min_def)

lemma mem_read_write_start:
  "length data \<le> length mem \<Longrightarrow> mem_read (mem_write mem 0 data) 0 (length data) = data"
  by (simp add: mem_read_def mem_write_def)

lemma mem_read_nth:
  "i < len \<Longrightarrow> off + len \<le> length mem \<Longrightarrow> mem_read mem off len ! i = mem ! (off + i)"
  by (simp add: mem_read_def)

lemma drop_eq_Cons_nth:
  "i < length xs \<Longrightarrow> drop i xs = xs ! i # drop (Suc i) xs"
  by (rule Cons_nth_drop_Suc [symmetric])

section \<open>Invariants over runs\<close>

text \<open>A component driven by a sequence of events: when each step keeps \<open>inv\<close> for every event
  that is allowed in the state it meets, every state of the run satisfies it.\<close>

fun run_steps :: "('s \<Rightarrow> 'e \<Rightarrow> 's) \<Rightarrow> 's \<Rightarrow> 'e list \<Rightarrow> 's" where
  "run_steps f s [] = s"
| "run_steps f s (e # es) = run_steps f (f s e) es"

fun run_allowed :: "('s \<Rightarrow> 'e \<Rightarrow> 's) \<Rightarrow> ('s \<Rightarrow> 'e \<Rightarrow> bool) \<Rightarrow> 's \<Rightarrow> 'e list \<Rightarrow> bool" where
  "run_allowed f ok s [] \<longleftrightarrow> True"
| "run_allowed f ok s (e # es) \<longleftrightarrow> ok s e \<and> run_allowed f ok (f s e) es"

lemma run_steps_append: "run_steps f s (xs @ ys) = run_steps f (run_steps f s xs) ys"
  by (induction xs arbitrary: s) auto

lemma run_allowed_append:
  "run_allowed f ok s (xs @ ys) \<longleftrightarrow> run_allowed f ok s xs \<and> run_allowed f ok (run_steps f s xs) ys"
  by (induction xs arbitrary: s) auto

lemma run_allowed_True [simp]: "run_allowed f (\<lambda>_ _. True) s es"
  by (induction es arbitrary: s) auto

locale stepwise_invariant =
  fixes step :: "'s \<Rightarrow> 'e \<Rightarrow> 's"
    and allowed :: "'s \<Rightarrow> 'e \<Rightarrow> bool"
    and inv :: "'s \<Rightarrow> bool"
  assumes inv_step: "inv s \<Longrightarrow> allowed s e \<Longrightarrow> inv (step s e)"
begin

lemma inv_run: "inv s \<Longrightarrow> run_allowed step allowed s es \<Longrightarrow> inv (run_steps step s es)"
  by (induction es arbitrary: s) (auto intro: inv_step)

lemma inv_prefix:
  "inv s \<Longrightarrow> run_allowed step allowed s (xs @ ys) \<Longrightarrow> inv (run_steps step s xs)"
  by (simp add: run_allowed_append inv_run)

end

end
