(* ===== verification/TcpBuffer.thy ===== *)
theory TcpBuffer
  imports RpcPrelude
begin

text \<open>
  The byte buffer of a connection (\<open>include/rapidrpc/net/tcp/tcp_buffer.h\<close>,
  \<open>src/net/tcp/tcp_buffer.cc\<close>): a read index, a write index, a nominal size and the storage of
  a \<open>std::vector<char>\<close>.  The contract \<open>byte_fifo\<close> says what its clients (the coders and the
  connection) rely on: the buffer is a first-in first-out queue of bytes, wherever its indices
  stand and whenever it compacts or grows.
\<close>

section \<open>State\<close>

text \<open>The fields are those of the class.  \<open>m_buffer\<close> is the heap block the vector owns
  (\<open>m_size\<close> bytes of it are in use by the class), \<open>m_vec_size\<close> is \<open>m_buffer.size()\<close>: the
  constructor only reserves capacity, so it starts at 0 and follows \<open>m_size\<close> after the first
  \<open>resizeBuffer\<close>.\<close>

record tcp_buffer =
  m_read_index :: int
  m_write_index :: int
  m_size :: int
  m_buffer :: "byte list"
  m_vec_size :: int

text \<open>\<open>reserve(size)\<close> obtains a block whose contents are arbitrary, so the block is the
  argument: its length is the size the constructor was given.\<close>

definition TcpBuffer_new :: "byte list \<Rightarrow> tcp_buffer" where
  "TcpBuffer_new block =
     \<lparr>m_read_index = 0, m_write_index = 0, m_size = int (length block), m_buffer = block,
      m_vec_size = 0\<rparr>"

section \<open>Operations\<close>

definition readAvailable :: "tcp_buffer \<Rightarrow> int" where
  "readAvailable b = m_write_index b - m_read_index b"

definition writeAvailable :: "tcp_buffer \<Rightarrow> int" where
  "writeAvailable b = m_size b - m_write_index b"

definition readIndex :: "tcp_buffer \<Rightarrow> int" where
  "readIndex b = m_read_index b"

definition writeIndex :: "tcp_buffer \<Rightarrow> int" where
  "writeIndex b = m_write_index b"

definition resizeBuffer :: "tcp_buffer \<Rightarrow> int \<Rightarrow> tcp_buffer" where
  "resizeBuffer b sz =
     (let read_len = readAvailable b
      in if sz < read_len then b
         else let new_buffer = replicate (nat sz) 0;
                  new_buffer = mem_write new_buffer 0
                    (mem_read (m_buffer b) (nat (m_read_index b)) (nat read_len))
              in b\<lparr>m_buffer := new_buffer, m_vec_size := sz, m_write_index := read_len,
                   m_read_index := 0, m_size := sz\<rparr>)"

definition shiftBuffer :: "tcp_buffer \<Rightarrow> tcp_buffer" where
  "shiftBuffer b =
     (if m_read_index b \<ge> m_size b div 2
      then let read_len = readAvailable b
           in b\<lparr>m_buffer := mem_write (m_buffer b) 0
                  (mem_read (m_buffer b) (nat (m_read_index b)) (nat read_len)),
                m_write_index := read_len, m_read_index := 0\<rparr>
      else b)"

definition writeToBuffer :: "tcp_buffer \<Rightarrow> byte list \<Rightarrow> tcp_buffer \<times> int" where
  "writeToBuffer b data =
     (let len = int (length data);
          b = (if len > writeAvailable b then resizeBuffer b (2 * (readAvailable b + len)) else b)
      in (b\<lparr>m_buffer := mem_write (m_buffer b) (nat (m_write_index b)) data,
            m_write_index := m_write_index b + len\<rparr>,
          len))"

text \<open>The out parameter \<open>data\<close> is passed in and returned: an early return leaves it alone.\<close>

definition readFromBuffer :: "tcp_buffer \<Rightarrow> byte list \<Rightarrow> int \<Rightarrow> byte list \<times> tcp_buffer \<times> int" where
  "readFromBuffer b data len =
     (if readAvailable b \<le> 0 \<or> len \<le> 0 then (data, b, 0)
      else let read_len = min len (readAvailable b);
               data = mem_read (m_buffer b) (nat (m_read_index b)) (nat read_len)
           in (data, shiftBuffer (b\<lparr>m_read_index := m_read_index b + read_len\<rparr>), read_len))"

definition moveReadIndex :: "tcp_buffer \<Rightarrow> int \<Rightarrow> tcp_buffer" where
  "moveReadIndex b sz =
     (let new_read_index = m_read_index b + sz
      in if new_read_index \<ge> m_write_index b
         then b\<lparr>m_read_index := 0, m_write_index := 0\<rparr>
         else shiftBuffer (b\<lparr>m_read_index := new_read_index\<rparr>))"

definition moveWriteIndex :: "tcp_buffer \<Rightarrow> int \<Rightarrow> tcp_buffer" where
  "moveWriteIndex b sz =
     (let new_write_index = m_write_index b + sz
      in if new_write_index \<ge> m_size b then b
         else b\<lparr>m_write_index := new_write_index\<rparr>)"

section \<open>Well-formedness and abstract content\<close>

definition wf_buffer :: "tcp_buffer \<Rightarrow> bool" where
  "wf_buffer b \<longleftrightarrow>
     0 \<le> m_read_index b \<and> m_read_index b \<le> m_write_index b \<and> m_write_index b \<le> m_size b
     \<and> int (length (m_buffer b)) = m_size b
     \<and> (m_vec_size b = 0 \<or> m_vec_size b = m_size b)"

definition content :: "tcp_buffer \<Rightarrow> byte list" where
  "content b = mem_read (m_buffer b) (nat (m_read_index b)) (nat (readAvailable b))"

lemmas buffer_defs = readAvailable_def writeAvailable_def readIndex_def writeIndex_def

lemma wf_buffer_bounds:
  assumes "wf_buffer b"
  shows "nat (m_read_index b) + nat (readAvailable b) = nat (m_write_index b)"
    and "nat (m_write_index b) \<le> length (m_buffer b)"
    and "0 \<le> readAvailable b" and "0 \<le> writeAvailable b"
  using assms by (auto simp: wf_buffer_def buffer_defs)

lemma length_content: "wf_buffer b \<Longrightarrow> int (length (content b)) = readAvailable b"
  using wf_buffer_bounds [of b] by (simp add: content_def)

lemma content_Nil_iff: "wf_buffer b \<Longrightarrow> content b = [] \<longleftrightarrow> readAvailable b = 0"
  using length_content [of b] by auto

lemma content_nth:
  assumes "wf_buffer b" and "int i < readAvailable b"
  shows "content b ! i = m_buffer b ! nat (m_read_index b + int i)"
proof -
  have "nat (m_read_index b + int i) = nat (m_read_index b) + i"
    using assms(1) by (simp add: wf_buffer_def nat_add_distrib)
  moreover have "i < nat (readAvailable b)"
    using assms(2) by simp
  ultimately show ?thesis
    using wf_buffer_bounds [OF assms(1)] by (simp add: content_def mem_read_nth)
qed

lemma wf_TcpBuffer_new [wf_intros]: "wf_buffer (TcpBuffer_new block)"
  by (simp add: wf_buffer_def TcpBuffer_new_def)

lemma content_TcpBuffer_new [content_simps]: "content (TcpBuffer_new block) = []"
  by (simp add: content_def TcpBuffer_new_def readAvailable_def)

lemma wf_resizeBuffer [wf_intros]: "wf_buffer b \<Longrightarrow> wf_buffer (resizeBuffer b sz)"
  using wf_buffer_bounds [of b]
  by (auto simp: resizeBuffer_def Let_def wf_buffer_def buffer_defs)

lemma content_resizeBuffer [content_simps]:
  assumes "wf_buffer b"
  shows "content (resizeBuffer b sz) = content b"
proof (cases "sz < readAvailable b")
  case True
  then show ?thesis by (simp add: resizeBuffer_def)
next
  case False
  let ?old = "mem_read (m_buffer b) (nat (m_read_index b)) (nat (readAvailable b))"
  have len: "length ?old = nat (readAvailable b)"
    using wf_buffer_bounds [OF assms] by simp
  then have "mem_read (mem_write (replicate (nat sz) 0) 0 ?old) 0 (nat (readAvailable b)) = ?old"
    using False mem_read_write_start [of ?old "replicate (nat sz) 0"] by simp
  with False show ?thesis
    by (simp add: resizeBuffer_def Let_def content_def readAvailable_def)
qed

lemma resizeBuffer_room:
  assumes "wf_buffer b" and "0 \<le> n"
  shows "n \<le> writeAvailable (resizeBuffer b (2 * (readAvailable b + n)))"
proof -
  have "0 \<le> readAvailable b" using assms(1) by (rule wf_buffer_bounds)
  then show ?thesis using assms(2)
    by (simp add: resizeBuffer_def Let_def writeAvailable_def)
qed

lemma wf_shiftBuffer [wf_intros]: "wf_buffer b \<Longrightarrow> wf_buffer (shiftBuffer b)"
  using wf_buffer_bounds [of b]
  by (auto simp: shiftBuffer_def Let_def wf_buffer_def buffer_defs)

lemma content_shiftBuffer [content_simps]:
  assumes "wf_buffer b"
  shows "content (shiftBuffer b) = content b"
proof (cases "m_read_index b \<ge> m_size b div 2")
  case False
  then show ?thesis by (simp add: shiftBuffer_def)
next
  case True
  let ?old = "mem_read (m_buffer b) (nat (m_read_index b)) (nat (readAvailable b))"
  have len: "length ?old = nat (readAvailable b)"
    using wf_buffer_bounds [OF assms] by simp
  moreover have "length ?old \<le> length (m_buffer b)"
    using wf_buffer_bounds [OF assms] len by linarith
  ultimately have
    "mem_read (mem_write (m_buffer b) 0 ?old) 0 (nat (readAvailable b)) = ?old"
    using mem_read_write_start [of ?old "m_buffer b"] by simp
  with True show ?thesis
    by (simp add: shiftBuffer_def Let_def content_def readAvailable_def)
qed

lemma readAvailable_shiftBuffer [simp]: "readAvailable (shiftBuffer b) = readAvailable b"
  by (simp add: shiftBuffer_def Let_def readAvailable_def)

lemma m_size_shiftBuffer [simp]: "m_size (shiftBuffer b) = m_size b"
  by (simp add: shiftBuffer_def Let_def)

lemma m_vec_size_shiftBuffer [simp]: "m_vec_size (shiftBuffer b) = m_vec_size b"
  by (simp add: shiftBuffer_def Let_def)

text \<open>Bytes stored behind the write index become readable when the index moves past them:
  the step shared by \<open>writeToBuffer\<close> and a \<open>read(2)\<close> into the buffer.\<close>

lemma append_at_write_index:
  fixes data :: "byte list"
  assumes "wf_buffer b" and "int (length data) \<le> writeAvailable b"
  defines "b' \<equiv> b\<lparr>m_buffer := mem_write (m_buffer b) (nat (m_write_index b)) data,
                  m_write_index := m_write_index b + int (length data)\<rparr>"
  shows "wf_buffer b'" and "content b' = content b @ data"
proof -
  have le: "nat (m_write_index b) + length data \<le> length (m_buffer b)"
    using assms(1,2) by (auto simp: wf_buffer_def writeAvailable_def)
  show "wf_buffer b'"
    using assms(1,2) le by (auto simp: b'_def wf_buffer_def writeAvailable_def)
  note bounds = wf_buffer_bounds [OF assms(1)]
  have "nat (readAvailable b') = nat (readAvailable b) + length data"
    using bounds(3) by (simp add: b'_def readAvailable_def nat_add_distrib)
  moreover have "nat (m_write_index b) = nat (m_read_index b) + nat (readAvailable b)"
    using bounds(1) by simp
  ultimately show "content b' = content b @ data"
    using bounds(2) mem_read_write_join
      [of "nat (m_read_index b)" "nat (readAvailable b)" "m_buffer b" data]
    by (simp add: content_def b'_def)
qed

definition write_room :: "tcp_buffer \<Rightarrow> int \<Rightarrow> tcp_buffer" where
  "write_room b len =
     (if len > writeAvailable b then resizeBuffer b (2 * (readAvailable b + len)) else b)"

lemma write_room_facts:
  assumes "wf_buffer b" and "0 \<le> len"
  shows "wf_buffer (write_room b len)" and "content (write_room b len) = content b"
    and "len \<le> writeAvailable (write_room b len)"
proof -
  show "len \<le> writeAvailable (write_room b len)"
    using resizeBuffer_room [OF assms] by (simp add: write_room_def)
qed (use assms(1) in \<open>simp_all add: write_room_def wf_resizeBuffer content_resizeBuffer\<close>)

lemma writeToBuffer_room:
  "fst (writeToBuffer b data) =
     (let b1 = write_room b (int (length data))
      in b1\<lparr>m_buffer := mem_write (m_buffer b1) (nat (m_write_index b1)) data,
            m_write_index := m_write_index b1 + int (length data)\<rparr>)"
  by (simp add: writeToBuffer_def write_room_def Let_def)

lemma wf_writeToBuffer [wf_intros]: "wf_buffer b \<Longrightarrow> wf_buffer (fst (writeToBuffer b data))"
  using append_at_write_index(1) [OF write_room_facts(1,3)]
  by (simp add: writeToBuffer_room Let_def)

lemma content_writeToBuffer [content_simps]:
  "wf_buffer b \<Longrightarrow> content (fst (writeToBuffer b data)) = content b @ data"
  using append_at_write_index(2) [OF write_room_facts(1,3)]
  by (simp add: writeToBuffer_room Let_def write_room_facts)

lemma snd_writeToBuffer [simp]: "snd (writeToBuffer b data) = int (length data)"
  by (simp add: writeToBuffer_def Let_def)

text \<open>Advancing the read index drops bytes from the front.\<close>

lemma advance_read_index:
  assumes "wf_buffer b" and "0 \<le> n" and "n \<le> readAvailable b"
  shows "wf_buffer (b\<lparr>m_read_index := m_read_index b + n\<rparr>)"
    and "content (b\<lparr>m_read_index := m_read_index b + n\<rparr>) = drop (nat n) (content b)"
proof -
  show "wf_buffer (b\<lparr>m_read_index := m_read_index b + n\<rparr>)"
    using assms by (auto simp: wf_buffer_def readAvailable_def)
  have "0 \<le> m_read_index b" using assms(1) by (simp add: wf_buffer_def)
  then show "content (b\<lparr>m_read_index := m_read_index b + n\<rparr>) = drop (nat n) (content b)"
    using assms mem_read_drop
      [of "nat n" "nat (readAvailable b)" "m_buffer b" "nat (m_read_index b)"]
    by (simp add: content_def readAvailable_def nat_add_distrib nat_diff_distrib' algebra_simps)
qed

lemma wf_moveReadIndex [wf_intros]:
  assumes "wf_buffer b" and "0 \<le> m_read_index b + n"
  shows "wf_buffer (moveReadIndex b n)"
proof (cases "m_read_index b + n \<ge> m_write_index b")
  case True
  then show ?thesis using assms by (auto simp: moveReadIndex_def wf_buffer_def)
next
  case False
  then have "wf_buffer (b\<lparr>m_read_index := m_read_index b + n\<rparr>)"
    using assms by (auto simp: wf_buffer_def)
  with False show ?thesis by (simp add: moveReadIndex_def Let_def wf_shiftBuffer)
qed

lemma content_moveReadIndex [content_simps]:
  assumes "wf_buffer b" and "0 \<le> n"
  shows "content (moveReadIndex b n) = drop (nat n) (content b)"
proof (cases "m_read_index b + n \<ge> m_write_index b")
  case True
  then have "length (content b) \<le> nat n"
    using length_content [OF assms(1)] by (simp add: readAvailable_def)
  with True show ?thesis
    by (simp add: moveReadIndex_def content_def readAvailable_def)
next
  case False
  then have "n \<le> readAvailable b" by (simp add: readAvailable_def)
  from advance_read_index [OF assms this] False show ?thesis
    by (simp add: moveReadIndex_def Let_def content_shiftBuffer)
qed

lemma m_size_moveReadIndex [simp]: "m_size (moveReadIndex b n) = m_size b"
  by (simp add: moveReadIndex_def Let_def)

lemma m_vec_size_moveReadIndex [simp]: "m_vec_size (moveReadIndex b n) = m_vec_size b"
  by (simp add: moveReadIndex_def Let_def)

lemma readAvailable_moveReadIndex:
  "readAvailable (moveReadIndex b n) =
     (if n \<ge> readAvailable b then 0 else readAvailable b - n)"
  by (simp add: moveReadIndex_def Let_def) (simp add: readAvailable_def)

lemma readFromBuffer_empty:
  "readAvailable b \<le> 0 \<or> len \<le> 0 \<Longrightarrow> readFromBuffer b data len = (data, b, 0)"
  by (simp add: readFromBuffer_def)

lemma readFromBuffer_some:
  assumes "wf_buffer b" and "0 < readAvailable b" and "0 < len"
  shows "fst (readFromBuffer b data len) = take (nat len) (content b)"
    and "wf_buffer (fst (snd (readFromBuffer b data len)))"
    and "content (fst (snd (readFromBuffer b data len))) = drop (nat len) (content b)"
    and "snd (snd (readFromBuffer b data len)) = min len (readAvailable b)"
proof -
  let ?n = "min len (readAvailable b)"
  have eq: "readFromBuffer b data len =
      (mem_read (m_buffer b) (nat (m_read_index b)) (nat ?n),
       shiftBuffer (b\<lparr>m_read_index := m_read_index b + ?n\<rparr>), ?n)"
    using assms by (simp add: readFromBuffer_def Let_def)
  have len: "length (content b) = nat (readAvailable b)"
    using length_content [OF assms(1)] by simp
  have "0 \<le> ?n" and "?n \<le> readAvailable b" using assms by auto
  note adv = advance_read_index [OF assms(1) this]
  have "mem_read (m_buffer b) (nat (m_read_index b)) (nat ?n) = take (nat ?n) (content b)"
    unfolding content_def by (rule mem_read_take) auto
  also have "\<dots> = take (nat len) (content b)"
    using len by (cases "len \<le> readAvailable b") (auto simp: min_def)
  finally show "fst (readFromBuffer b data len) = take (nat len) (content b)"
    by (simp add: eq)
  show "wf_buffer (fst (snd (readFromBuffer b data len)))"
    using adv(1) by (simp add: eq wf_shiftBuffer)
  have "drop (nat ?n) (content b) = drop (nat len) (content b)"
    using len by (cases "len \<le> readAvailable b") (auto simp: min_def)
  then show "content (fst (snd (readFromBuffer b data len))) = drop (nat len) (content b)"
    using adv by (simp add: eq content_shiftBuffer)
  show "snd (snd (readFromBuffer b data len)) = min len (readAvailable b)"
    by (simp add: eq)
qed

lemma moveWriteIndex_accepts:
  fixes data :: "byte list"
  assumes "wf_buffer b" and "int (length data) < writeAvailable b"
  defines "b' \<equiv> moveWriteIndex
      (b\<lparr>m_buffer := mem_write (m_buffer b) (nat (m_write_index b)) data\<rparr>) (int (length data))"
  shows "wf_buffer b'" and "content b' = content b @ data"
  using append_at_write_index [of b data] assms(1,2)
  by (simp_all add: b'_def moveWriteIndex_def Let_def writeAvailable_def)

text \<open>A block of exactly the free size is refused: the index stays, the bytes stay unread.\<close>

lemma moveWriteIndex_refuses:
  assumes "wf_buffer b" and "int (length data) = writeAvailable b"
  defines "b1 \<equiv> b\<lparr>m_buffer := mem_write (m_buffer b) (nat (m_write_index b)) data\<rparr>"
  shows "moveWriteIndex b1 (int (length data)) = b1" and "wf_buffer b1"
    and "content b1 = content b"
proof -
  show "moveWriteIndex b1 (int (length data)) = b1"
    using assms(2) by (simp add: b1_def moveWriteIndex_def writeAvailable_def)
  have le: "nat (m_write_index b) + length data \<le> length (m_buffer b)"
    using assms(1,2) by (auto simp: wf_buffer_def writeAvailable_def)
  then show "wf_buffer b1"
    using assms(1) by (auto simp: b1_def wf_buffer_def)
  have "nat (m_read_index b) + nat (readAvailable b) = nat (m_write_index b)"
    by (rule wf_buffer_bounds [OF assms(1)])
  then show "content b1 = content b"
    using le by (simp add: b1_def content_def readAvailable_def mem_read_def mem_write_def take_drop add.commute)
qed

section \<open>The contract: a first-in first-out byte queue\<close>

text \<open>What the coders and the connection use of a buffer: append a block, take up to \<open>n\<close> bytes,
  drop \<open>n\<close> bytes.\<close>

datatype buffer_op = Put "byte list" | Get nat | Discard nat

fun queue_trace :: "byte list \<Rightarrow> buffer_op list \<Rightarrow> byte list list \<times> byte list" where
  "queue_trace q [] = ([], q)"
| "queue_trace q (Put bs # ops) = queue_trace (q @ bs) ops"
| "queue_trace q (Get n # ops) =
     (let (outs, q') = queue_trace (drop n q) ops in (take n q # outs, q'))"
| "queue_trace q (Discard n # ops) = queue_trace (drop n q) ops"

fun fifo_trace :: "('b \<Rightarrow> byte list \<Rightarrow> 'b) \<Rightarrow> ('b \<Rightarrow> nat \<Rightarrow> byte list \<times> 'b) \<Rightarrow> ('b \<Rightarrow> nat \<Rightarrow> 'b)
    \<Rightarrow> 'b \<Rightarrow> buffer_op list \<Rightarrow> byte list list \<times> 'b" where
  "fifo_trace put get discard b [] = ([], b)"
| "fifo_trace put get discard b (Put bs # ops) = fifo_trace put get discard (put b bs) ops"
| "fifo_trace put get discard b (Get n # ops) =
     (let (outs, b') = fifo_trace put get discard (snd (get b n)) ops in (fst (get b n) # outs, b'))"
| "fifo_trace put get discard b (Discard n # ops) = fifo_trace put get discard (discard b n) ops"

locale byte_fifo =
  fixes put :: "'b \<Rightarrow> byte list \<Rightarrow> 'b"
    and get :: "'b \<Rightarrow> nat \<Rightarrow> byte list \<times> 'b"
    and discard :: "'b \<Rightarrow> nat \<Rightarrow> 'b"
    and unread :: "'b \<Rightarrow> byte list"
    and good :: "'b \<Rightarrow> bool"
  assumes good_put: "good b \<Longrightarrow> good (put b bs)"
    and good_get: "good b \<Longrightarrow> good (snd (get b n))"
    and good_discard: "good b \<Longrightarrow> good (discard b n)"
    and unread_put: "good b \<Longrightarrow> unread (put b bs) = unread b @ bs"
    and bytes_get: "good b \<Longrightarrow> fst (get b n) = take n (unread b)"
    and unread_get: "good b \<Longrightarrow> unread (snd (get b n)) = drop n (unread b)"
    and unread_discard: "good b \<Longrightarrow> unread (discard b n) = drop n (unread b)"
begin

lemmas fifo_laws = good_put good_get good_discard unread_put bytes_get unread_get unread_discard

lemma trace_refines:
  "good b \<Longrightarrow> fst (fifo_trace put get discard b ops) = fst (queue_trace (unread b) ops)
     \<and> unread (snd (fifo_trace put get discard b ops)) = snd (queue_trace (unread b) ops)
     \<and> good (snd (fifo_trace put get discard b ops))"
proof (induction ops arbitrary: b)
  case Nil
  then show ?case by simp
next
  case (Cons x ops)
  show ?case
  proof (cases x)
    case (Get n)
    from Cons.IH [of "snd (get b n)"] Cons.prems show ?thesis
      by (simp add: Get fifo_laws split_def Let_def)
  qed (use Cons in \<open>simp_all add: fifo_laws\<close>)
qed

lemma unread_put_all:
  "good b \<Longrightarrow> good (foldl put b xss) \<and> unread (foldl put b xss) = unread b @ concat xss"
  by (induction xss arbitrary: b) (simp_all add: fifo_laws)

lemma put_then_get_all:
  "good b \<Longrightarrow> fst (get (foldl put b xss) (length (unread b) + length (concat xss)))
     = unread b @ concat xss"
  by (simp add: fifo_laws unread_put_all)

end

text \<open>The buffer's own operations in the shape of the contract.\<close>

definition buf_put :: "tcp_buffer \<Rightarrow> byte list \<Rightarrow> tcp_buffer" where
  "buf_put b bs = fst (writeToBuffer b bs)"

definition buf_get :: "tcp_buffer \<Rightarrow> nat \<Rightarrow> byte list \<times> tcp_buffer" where
  "buf_get b n = (let (bs, b', _) = readFromBuffer b [] (int n) in (bs, b'))"

definition buf_discard :: "tcp_buffer \<Rightarrow> nat \<Rightarrow> tcp_buffer" where
  "buf_discard b n = moveReadIndex b (int n)"

lemma buf_get_facts:
  assumes "wf_buffer b"
  shows "wf_buffer (snd (buf_get b n))" and "fst (buf_get b n) = take n (content b)"
    and "content (snd (buf_get b n)) = drop n (content b)"
proof -
  have "wf_buffer (snd (buf_get b n)) \<and> fst (buf_get b n) = take n (content b)
      \<and> content (snd (buf_get b n)) = drop n (content b)"
  proof (cases "0 < readAvailable b \<and> 0 < n")
    case True
    then have "0 < readAvailable b" and "0 < int n" by auto
    from readFromBuffer_some [OF assms this, of "[]"] show ?thesis
      by (simp add: buf_get_def split_def)
  next
    case False
    then have "n = 0 \<or> content b = []"
      using wf_buffer_bounds(3) [OF assms] by (auto simp: content_Nil_iff [OF assms])
    with False assms show ?thesis by (auto simp: buf_get_def readFromBuffer_empty)
  qed
  then show "wf_buffer (snd (buf_get b n))" and "fst (buf_get b n) = take n (content b)"
    and "content (snd (buf_get b n)) = drop n (content b)" by auto
qed

lemma wf_buf_discard: "wf_buffer b \<Longrightarrow> wf_buffer (buf_discard b n)"
  unfolding buf_discard_def by (rule wf_moveReadIndex) (auto simp: wf_buffer_def)

interpretation tb: byte_fifo buf_put buf_get buf_discard content wf_buffer
  by unfold_locales
    (simp_all add: buf_put_def wf_writeToBuffer content_writeToBuffer buf_get_facts
      wf_buf_discard, simp add: buf_discard_def content_moveReadIndex)

section \<open>Properties\<close>

text \<open>C16: under any interleaving of writes, reads and drops, a well-formed buffer gives back
  exactly the bytes a plain queue would: compaction (\<open>shiftBuffer\<close>), growth (\<open>resizeBuffer\<close>) and
  the index resets never lose, repeat or reorder a byte, and the indices stay within the
  storage.\<close>

theorem buffer_refines_queue:
  assumes "wf_buffer b"
  shows "fst (fifo_trace buf_put buf_get buf_discard b ops) = fst (queue_trace (content b) ops)
     \<and> content (snd (fifo_trace buf_put buf_get buf_discard b ops)) = snd (queue_trace (content b) ops)
     \<and> wf_buffer (snd (fifo_trace buf_put buf_get buf_discard b ops))"
  using assms by (rule tb.trace_refines)

theorem buffer_refines_queue_witness:
  "wf_buffer (TcpBuffer_new (replicate 4 0))
   \<and> fst (fifo_trace buf_put buf_get buf_discard (TcpBuffer_new (replicate 4 0))
       [Put [1, 2, 3], Get 2, Put [4, 5, 6], Discard 1, Get 9]) = [[1, 2], [4, 5, 6]]"
  using buffer_refines_queue [OF wf_TcpBuffer_new,
      of "replicate 4 0" "[Put [1, 2, 3], Get 2, Put [4, 5, 6], Discard 1, Get 9]"]
  by (simp add: wf_TcpBuffer_new content_TcpBuffer_new)

text \<open>sizes under \<open>writeToBuffer\<close>: a block that fits leaves the size alone, any other grows the
  buffer to exactly twice the unread bytes plus the block; and as long as that bound fits an
  \<open>int\<close>, no index or size the operation computes overflows.\<close>

theorem writeToBuffer_bounds:
  assumes "wf_buffer b" and "fits_int32 (m_size b)"
    and "2 * (readAvailable b + int (length data)) \<le> int32_max"
  shows "m_size (fst (writeToBuffer b data)) =
      (if int (length data) \<le> writeAvailable b then m_size b
       else 2 * (readAvailable b + int (length data)))
    \<and> fits_int32 (m_size (fst (writeToBuffer b data)))
    \<and> fits_int32 (m_write_index (fst (writeToBuffer b data)))
    \<and> m_write_index (fst (writeToBuffer b data)) \<le> m_size (fst (writeToBuffer b data))"
proof -
  have size: "m_size (fst (writeToBuffer b data)) =
      (if int (length data) \<le> writeAvailable b then m_size b
       else 2 * (readAvailable b + int (length data)))"
    using wf_buffer_bounds(3) [OF assms(1)]
    by (auto simp: writeToBuffer_def resizeBuffer_def Let_def)
  have wf: "wf_buffer (fst (writeToBuffer b data))"
    using assms(1) by (rule wf_writeToBuffer)
  have "0 \<le> readAvailable b" using assms(1) by (rule wf_buffer_bounds)
  then have "fits_int32 (m_size (fst (writeToBuffer b data)))"
    using assms(2,3) by (auto simp: size fits_int32_def)
  with wf show ?thesis
    by (auto simp: size wf_buffer_def fits_int32_def)
qed

theorem writeToBuffer_bounds_witness:
  "m_size (fst (writeToBuffer (TcpBuffer_new [0, 0]) [7, 8, 9])) = 6"
proof -
  have "fits_int32 (m_size (TcpBuffer_new [0, 0]))"
    and "2 * (readAvailable (TcpBuffer_new [0, 0]) + int (length [7 :: byte, 8, 9])) \<le> int32_max"
    by (simp_all add: TcpBuffer_new_def fits_int32_def buffer_defs)
  from writeToBuffer_bounds [OF wf_TcpBuffer_new this] show ?thesis
    by (simp add: TcpBuffer_new_def buffer_defs)
qed

end
