(* ===== verification/NetBytes.thy ===== *)
theory NetBytes
  imports RpcPrelude
begin

text \<open>
  32-bit integers as bytes: network byte order (\<open>htonl\<close> and \<open>ntohl\<close> around a copy of the
  integer's bytes) and host byte order (an \<open>int32_t\<close> read from or copied to memory on the
  little-endian machines the code is built for).
\<close>

unbundle bit_operations_syntax

type_synonym int32 = "32 word"

definition bytes4 :: "byte \<Rightarrow> byte \<Rightarrow> byte \<Rightarrow> byte \<Rightarrow> int32" where
  "bytes4 b3 b2 b1 b0 =
     push_bit 24 (ucast b3) OR push_bit 16 (ucast b2) OR push_bit 8 (ucast b1) OR ucast b0"

definition byte_of :: "nat \<Rightarrow> int32 \<Rightarrow> byte" where
  "byte_of k w = ucast (drop_bit (8 * k) w)"

text \<open>The bytes of \<open>htonl(w)\<close> in memory, lowest address first, and the integer
  \<open>ntohl\<close> gives back for four bytes at an address.\<close>

definition htonl_bytes :: "int32 \<Rightarrow> byte list" where
  "htonl_bytes w = [byte_of 3 w, byte_of 2 w, byte_of 1 w, byte_of 0 w]"

definition ntohl_at :: "byte list \<Rightarrow> nat \<Rightarrow> int32" where
  "ntohl_at mem i = bytes4 (mem ! i) (mem ! (i + 1)) (mem ! (i + 2)) (mem ! (i + 3))"

text \<open>An \<open>int32_t\<close> stored to and loaded from memory in host order.\<close>

definition host_bytes :: "int32 \<Rightarrow> byte list" where
  "host_bytes w = [byte_of 0 w, byte_of 1 w, byte_of 2 w, byte_of 3 w]"

definition host_at :: "byte list \<Rightarrow> nat \<Rightarrow> int32" where
  "host_at mem i = bytes4 (mem ! (i + 3)) (mem ! (i + 2)) (mem ! (i + 1)) (mem ! i)"

lemma length_htonl_bytes [simp]: "length (htonl_bytes w) = 4"
  by (simp add: htonl_bytes_def)

lemma length_host_bytes [simp]: "length (host_bytes w) = 4"
  by (simp add: host_bytes_def)

lemma bit_bytes4:
  "bit (bytes4 b3 b2 b1 b0) n \<longleftrightarrow>
     (if n < 8 then bit b0 n else if n < 16 then bit b1 (n - 8)
      else if n < 24 then bit b2 (n - 16) else n < 32 \<and> bit b3 (n - 24))"
  by (auto simp: bytes4_def bit_simps dest: bit_imp_le_length)

lemma bytes4_byte_of: "bytes4 (byte_of 3 w) (byte_of 2 w) (byte_of (Suc 0) w) (byte_of 0 w) = w"
  by (rule bit_eqI) (auto simp: bit_bytes4 byte_of_def bit_simps)

lemma byte_of_bytes4 [simp]:
  "byte_of 0 (bytes4 b3 b2 b1 b0) = b0" "byte_of (Suc 0) (bytes4 b3 b2 b1 b0) = b1"
  "byte_of 2 (bytes4 b3 b2 b1 b0) = b2" "byte_of 3 (bytes4 b3 b2 b1 b0) = b3"
  by (rule bit_eqI; simp add: bit_bytes4 byte_of_def bit_simps)+

lemma ntohl_at_append:
  "length xs = i \<Longrightarrow> ntohl_at (xs @ htonl_bytes w @ ys) i = w"
  by (auto simp: ntohl_at_def htonl_bytes_def nth_append bytes4_byte_of)

lemma host_at_append:
  "length xs = i \<Longrightarrow> host_at (xs @ host_bytes w @ ys) i = w"
  by (auto simp: host_at_def host_bytes_def nth_append bytes4_byte_of)

lemma ntohl_at_take:
  "i + 3 < n \<Longrightarrow> ntohl_at (take n xs) i = ntohl_at xs i"
  by (simp add: ntohl_at_def)

lemma ntohl_at_append_left:
  "i + 3 < length xs \<Longrightarrow> ntohl_at (xs @ ys) i = ntohl_at xs i"
  by (simp add: ntohl_at_def nth_append)

lemma bytes4_xor:
  "bytes4 a b c d XOR bytes4 a' b' c' d' = bytes4 (a XOR a') (b XOR b') (c XOR c') (d XOR d')"
  by (rule bit_eqI) (auto simp: bit_bytes4 bit_simps)

lemma bytes4_zero_iff: "bytes4 a b c d = 0 \<longleftrightarrow> a = 0 \<and> b = 0 \<and> c = 0 \<and> d = 0"
proof
  assume z: "bytes4 a b c d = 0"
  have "byte_of 3 (bytes4 a b c d) = a" "byte_of 2 (bytes4 a b c d) = b"
    "byte_of (Suc 0) (bytes4 a b c d) = c" "byte_of 0 (bytes4 a b c d) = d" by simp_all
  then show "a = 0 \<and> b = 0 \<and> c = 0 \<and> d = 0" unfolding z by (simp add: byte_of_def)
next
  assume "a = 0 \<and> b = 0 \<and> c = 0 \<and> d = 0"
  then show "bytes4 a b c d = 0" by (simp add: bytes4_def)
qed

text \<open>Round trips at the level of four-byte blocks.\<close>

lemma ntohl_htonl: "ntohl_at (htonl_bytes w) 0 = w"
  using ntohl_at_append [of "[]" 0 w "[]"] by simp

lemma mem_read_four:
  assumes "i + 4 \<le> length mem"
  shows "mem_read mem i 4 = [mem ! i, mem ! (i + 1), mem ! (i + 2), mem ! (i + 3)]"
proof (rule nth_equalityI)
  fix k assume "k < length (mem_read mem i 4)"
  then have "k = 0 \<or> k = 1 \<or> k = 2 \<or> k = 3" using assms by auto
  then show "mem_read mem i 4 ! k = [mem ! i, mem ! (i + 1), mem ! (i + 2), mem ! (i + 3)] ! k"
    using assms by (auto simp: mem_read_nth)
qed (use assms in simp)

lemma host_bytes_at:
  "i + 4 \<le> length mem \<Longrightarrow> host_bytes (host_at mem i) = mem_read mem i 4"
  by (simp add: mem_read_four host_bytes_def host_at_def)

lemma htonl_bytes_at:
  "i + 4 \<le> length mem \<Longrightarrow> htonl_bytes (ntohl_at mem i) = mem_read mem i 4"
  by (simp add: mem_read_four htonl_bytes_def ntohl_at_def)

end
