(* ===== verification/TinyPBProtocol.thy ===== *)
theory TinyPBProtocol
  imports NetBytes
begin

text \<open>
  Error codes and the TinyPB message (\<open>include/rapidrpc/common/error_code.h\<close>,
  \<open>include/rapidrpc/net/coder/tinypb_protocol.h\<close>, \<open>abstract_protocol.h\<close>): the record of a message,
  its setters, and the sum of the protocol classes a coder is handed.
\<close>

section \<open>Error codes\<close>

datatype Error =
    OK
  | SYS_PEER_CLOSED
  | SYS_FAILED_CONNECT
  | SYS_FAILED_GET_REPLY
  | SYS_FAILED_DESERIALIZE
  | SYS_FAILED_SERIALIZE
  | SYS_FAILED_ENCODE
  | SYS_FAILED_DECODE
  | SYS_RPC_CALL_TIMEOUT
  | SYS_SERVICE_NOT_FOUND
  | SYS_METHOD_NOT_FOUND
  | SYS_FAILED_PARSE_SERVICE_NAME
  | SYS_CHANNEL_NOT_INIT

text \<open>\<open>SYS_ERROR_PREFIX(xxx)\<close> pastes \<open>1000\<close> before its argument, so \<open>0010\<close> gives the decimal
  literal \<open>10000010\<close>.  The value is what \<open>static_cast<int32_t>(err)\<close> yields.\<close>

fun error_code :: "Error \<Rightarrow> int32" where
  "error_code OK = 0"
| "error_code SYS_PEER_CLOSED = 10000000"
| "error_code SYS_FAILED_CONNECT = 10000001"
| "error_code SYS_FAILED_GET_REPLY = 10000002"
| "error_code SYS_FAILED_DESERIALIZE = 10000003"
| "error_code SYS_FAILED_SERIALIZE = 10000004"
| "error_code SYS_FAILED_ENCODE = 10000005"
| "error_code SYS_FAILED_DECODE = 10000006"
| "error_code SYS_RPC_CALL_TIMEOUT = 10000007"
| "error_code SYS_SERVICE_NOT_FOUND = 10000008"
| "error_code SYS_METHOD_NOT_FOUND = 10000009"
| "error_code SYS_FAILED_PARSE_SERVICE_NAME = 10000010"
| "error_code SYS_CHANNEL_NOT_INIT = 10000011"

lemma error_code_inject [simp]: "error_code e = error_code e' \<longleftrightarrow> e = e'"
  by (cases e; cases e') simp_all

lemma error_code_zero_iff [simp]: "error_code e = 0 \<longleftrightarrow> e = OK"
  using error_code_inject [of e OK] by (simp del: error_code_inject)

section \<open>Messages\<close>

record tinypb_protocol =
  m_msg_id :: cstring
  m_pk_len :: int32
  m_msg_id_len :: int32
  m_method_name_len :: int32
  m_method_name :: cstring
  m_err_code :: int32
  m_err_info_len :: int32
  m_err_info :: cstring
  m_pb_data :: cstring
  m_checksum :: int32

definition TinyPBProtocol_new :: tinypb_protocol where
  "TinyPBProtocol_new =
     \<lparr>m_msg_id = [], m_pk_len = 0, m_msg_id_len = 0, m_method_name_len = 0, m_method_name = [],
      m_err_code = 0, m_err_info_len = 0, m_err_info = [], m_pb_data = [], m_checksum = 0\<rparr>"

definition PB_START :: byte where "PB_START = 2"
definition PB_END :: byte where "PB_END = 3"

text \<open>\<open>std::string::size()\<close> assigned to an \<open>int32_t\<close>.\<close>

definition size32 :: "'a list \<Rightarrow> int32" where
  "size32 xs = of_nat (length xs)"

definition setMsgId :: "cstring \<Rightarrow> tinypb_protocol \<Rightarrow> tinypb_protocol" where
  "setMsgId s m = m\<lparr>m_msg_id := s, m_msg_id_len := size32 s\<rparr>"

definition setMethodName :: "cstring \<Rightarrow> tinypb_protocol \<Rightarrow> tinypb_protocol" where
  "setMethodName s m = m\<lparr>m_method_name := s, m_method_name_len := size32 s\<rparr>"

definition setErrCodeAndInfo :: "Error \<Rightarrow> cstring \<Rightarrow> tinypb_protocol \<Rightarrow> tinypb_protocol" where
  "setErrCodeAndInfo err info m =
     m\<lparr>m_err_code := error_code err, m_err_info := info, m_err_info_len := size32 info\<rparr>"

definition setPbData :: "cstring \<Rightarrow> tinypb_protocol \<Rightarrow> tinypb_protocol" where
  "setPbData s m = m\<lparr>m_pb_data := s\<rparr>"

text \<open>The number of bytes of the encoded message: two \<open>char\<close>s, six \<open>int32_t\<close>s, four strings.\<close>

definition pk_size :: "tinypb_protocol \<Rightarrow> nat" where
  "pk_size m = 2 * 1 + 6 * 4 + length (m_msg_id m) + length (m_method_name m)
     + length (m_err_info m) + length (m_pb_data m)"

definition complete :: "tinypb_protocol \<Rightarrow> tinypb_protocol" where
  "complete m = m\<lparr>m_pk_len := of_nat (pk_size m)\<rparr>"

lemmas setter_defs = setMsgId_def setMethodName_def setErrCodeAndInfo_def setPbData_def
  complete_def

text \<open>The classes behind an \<open>AbstractProtocol::s_ptr\<close>; a \<open>dynamic_pointer_cast\<close> to the wrong class
  yields a null pointer.\<close>

datatype abstract_protocol =
    TinyPB tinypb_protocol
  | StringProtocol (sp_msg_id: cstring) (getStr: cstring)

fun cast_TinyPB :: "abstract_protocol \<Rightarrow> tinypb_protocol option" where
  "cast_TinyPB (TinyPB m) = Some m"
| "cast_TinyPB (StringProtocol _ _) = None"

fun abstract_msg_id :: "abstract_protocol \<Rightarrow> cstring" where
  "abstract_msg_id (TinyPB m) = m_msg_id m"
| "abstract_msg_id (StringProtocol i _) = i"

text \<open>The length fields agree with the strings, as every message that was encoded or decoded
  has them.\<close>

definition lengths_ok :: "tinypb_protocol \<Rightarrow> bool" where
  "lengths_ok m \<longleftrightarrow> m_msg_id_len m = size32 (m_msg_id m)
     \<and> m_method_name_len m = size32 (m_method_name m)
     \<and> m_err_info_len m = size32 (m_err_info m)
     \<and> m_pk_len m = of_nat (pk_size m)"

lemma sint_of_nat_small: "int n \<le> int32_max \<Longrightarrow> sint (of_nat n :: int32) = int n"
  by (simp add: signed_of_nat signed_take_bit_int_eq_self)

end
