(* ===== verification/TinyPBCoder.thy ===== *)
theory TinyPBCoder
  imports TcpBuffer TinyPBProtocol
begin

text \<open>
  The TinyPB wire format (\<open>src/net/coder/tinypb_coder.cc\<close>, \<open>tinypb_coder.h\<close>): encoding with its
  XOR checksum, and the decoding loop that resynchronises on the start byte, waits for a whole
  frame and reads its fields.  Everything the decoder reads from the peer is read as the C++ code
  reads it: lengths are signed 32-bit integers, so negative lengths, overflowing index sums and
  reads outside the storage are results of the model (\<open>fault\<close>), and a loop that does not return
  is \<open>None\<close>.
\<close>

section \<open>Checksum\<close>

text \<open>\<open>len / sizeof(int32_t)\<close> words are combined with XOR, then the remaining bytes, copied over
  a zero word.\<close>

definition checksum_xor :: "byte list \<Rightarrow> int32" where
  "checksum_xor data =
     (let len = length data;
          t = len div 4;
          ret = fold (\<lambda>i ret. ret XOR host_at data (i * 4)) [0..<t] 0;
          remain = len mod 4
      in if remain > 0
         then let tmp = mem_write [0, 0, 0, 0] 0 (mem_read data (t * 4) remain)
              in ret XOR host_at tmp 0
         else ret)"

definition checksum_validate :: "byte list \<Rightarrow> bool" where
  "checksum_validate data =
     (let off = length data - 1 - 4;
          checksum = host_at data off;
          data = mem_write data off (host_bytes 0);
          ret = checksum_xor data
      in ret = checksum)"

section \<open>Encoding\<close>

text \<open>\<open>encodeMessage\<close> fills in a default id and the length and checksum fields of the message it
  is given, so the updated message is part of its result.\<close>

definition encodeMessage :: "tinypb_protocol \<Rightarrow> byte list \<times> tinypb_protocol" where
  "encodeMessage msg =
     (let msg = (if m_msg_id msg = [] then msg\<lparr>m_msg_id := ascii ''123456''\<rparr> else msg);
          msg = msg\<lparr>m_pk_len := of_nat (pk_size msg)\<rparr>;
          ret = [PB_START] @ htonl_bytes (m_pk_len msg);
          msg = msg\<lparr>m_msg_id_len := size32 (m_msg_id msg)\<rparr>;
          ret = ret @ htonl_bytes (m_msg_id_len msg) @ m_msg_id msg;
          msg = msg\<lparr>m_method_name_len := size32 (m_method_name msg)\<rparr>;
          ret = ret @ htonl_bytes (m_method_name_len msg) @ m_method_name msg;
          ret = ret @ htonl_bytes (m_err_code msg);
          msg = msg\<lparr>m_err_info_len := size32 (m_err_info msg)\<rparr>;
          ret = ret @ htonl_bytes (m_err_info_len msg) @ m_err_info msg;
          ret = ret @ m_pb_data msg;
          ret = ret @ host_bytes 0;
          ret = ret @ [PB_END];
          checksum = checksum_xor ret;
          msg = msg\<lparr>m_checksum := checksum\<rparr>;
          ret = mem_write ret (length ret - 1 - 4) (host_bytes checksum)
      in (ret, msg))"

text \<open>\<open>encode\<close> walks over the messages, skips those that are not TinyPB and appends the bytes of
  the others to the buffer.\<close>

fun tinypb_encode :: "abstract_protocol list \<Rightarrow> tcp_buffer \<Rightarrow> abstract_protocol list \<times> tcp_buffer" where
  "tinypb_encode [] out_buffer = ([], out_buffer)"
| "tinypb_encode (message # messages) out_buffer =
     (case cast_TinyPB message of
        None \<Rightarrow>
          (let (rest, out_buffer) = tinypb_encode messages out_buffer
           in (message # rest, out_buffer))
      | Some msg \<Rightarrow>
          (let (data, msg) = encodeMessage msg;
               out_buffer = fst (writeToBuffer out_buffer data);
               (rest, out_buffer) = tinypb_encode messages out_buffer
           in (TinyPB msg # rest, out_buffer)))"

section \<open>Decoding one frame\<close>

text \<open>A field check either passes, rejects the frame (the loop goes on with the next one) or
  runs into a fault.\<close>

datatype 'a field = Field 'a | Reject | Fault fault

fun bind_field :: "'a field \<Rightarrow> ('a \<Rightarrow> 'b field) \<Rightarrow> 'b field" where
  "bind_field (Field x) f = f x"
| "bind_field Reject f = Reject"
| "bind_field (Fault e) f = Fault e"

text \<open>\<open>index + len >= end\<close> on \<open>int\<close>s: the sum must not overflow.\<close>

definition checkIndexValid :: "int \<Rightarrow> int \<Rightarrow> int \<Rightarrow> unit field" where
  "checkIndexValid index len package_end =
     (if \<not> fits_int32 (index + len) then Fault IntOverflow
      else if index + len \<ge> package_end then Reject
      else Field ())"

text \<open>The two shapes of field access in the frame: a checked integer, and a checked string
  whose length was read before.  \<open>std::string(first, last)\<close> with \<open>last\<close> before \<open>first\<close> throws.\<close>

definition read_int :: "byte list \<Rightarrow> int \<Rightarrow> int \<Rightarrow> int32 field" where
  "read_int tmp read_index pk_len =
     bind_field (checkIndexValid read_index 4 pk_len) (\<lambda>_. Field (ntohl_at tmp (nat read_index)))"

definition read_string :: "byte list \<Rightarrow> int \<Rightarrow> int \<Rightarrow> int \<Rightarrow> cstring field" where
  "read_string tmp read_index len pk_len =
     bind_field (checkIndexValid read_index len pk_len)
       (\<lambda>_. if len < 0 then Fault LengthError
            else Field (mem_read tmp (nat read_index) (nat len)))"

definition decode_frame :: "byte list \<Rightarrow> int32 \<Rightarrow> tinypb_protocol field" where
  "decode_frame tmp pk_len32 =
     (let pk_len = sint pk_len32;
          message = TinyPBProtocol_new\<lparr>m_pk_len := pk_len32\<rparr>;
          read_index = 5
      in
      bind_field (read_int tmp read_index pk_len) (\<lambda>msg_id_len.
      let read_index = read_index + 4 in
      bind_field (read_string tmp read_index (sint msg_id_len) pk_len) (\<lambda>msg_id.
      let message = message\<lparr>m_msg_id_len := msg_id_len, m_msg_id := msg_id\<rparr>;
          read_index = read_index + sint msg_id_len in
      bind_field (read_int tmp read_index pk_len) (\<lambda>method_name_len.
      let read_index = read_index + 4 in
      bind_field (read_string tmp read_index (sint method_name_len) pk_len) (\<lambda>method_name.
      let message = message\<lparr>m_method_name_len := method_name_len, m_method_name := method_name\<rparr>;
          read_index = read_index + sint method_name_len in
      bind_field (read_int tmp read_index pk_len) (\<lambda>err_code.
      let read_index = read_index + 4 in
      bind_field (read_int tmp read_index pk_len) (\<lambda>err_info_len.
      let read_index = read_index + 4 in
      bind_field (read_string tmp read_index (sint err_info_len) pk_len) (\<lambda>err_info.
      let message = message\<lparr>m_err_code := err_code, m_err_info_len := err_info_len,
                            m_err_info := err_info\<rparr>;
          read_index = read_index + sint err_info_len in
      if pk_len < read_index + 5 then Reject
      else
        let message = message\<lparr>m_pb_data :=
              mem_read tmp (nat read_index) (nat (pk_len - 5 - read_index))\<rparr> in
        if \<not> checksum_validate tmp then Reject else Field message))))))))"

section \<open>The decoding loop\<close>

text \<open>The inner loop moves to the first start byte.\<close>

function skip_to_start :: "tcp_buffer \<Rightarrow> tcp_buffer" where
  "skip_to_start b =
     (if readAvailable b > 0 \<and> m_buffer b ! nat (readIndex b) \<noteq> PB_START
      then skip_to_start (moveReadIndex b 1) else b)"
  by pat_completeness auto

termination
  by (relation "measure (\<lambda>b. nat (readAvailable b))") (auto simp: readAvailable_moveReadIndex)

declare skip_to_start.simps [simp del]

text \<open>One round of \<open>while (true)\<close>: it returns, or goes on with the buffer it left and at most one
  message, or faults.\<close>

datatype decode_round = Return tcp_buffer | Again tcp_buffer "tinypb_protocol option" | Crash fault

definition decode_iter :: "tcp_buffer \<Rightarrow> decode_round" where
  "decode_iter in_buffer =
     (let in_buffer = skip_to_start in_buffer in
      if 0 \<le> readAvailable in_buffer \<and> readAvailable in_buffer < 1 + 4 then Return in_buffer
      else
        let pk_len32 = ntohl_at (m_buffer in_buffer) (nat (readIndex in_buffer + 1));
            pk_len = sint pk_len32 in
        if readAvailable in_buffer < pk_len then Return in_buffer
        else
          let end_index = readIndex in_buffer + pk_len - 1 in
          if end_index < 0 \<or> m_size in_buffer \<le> end_index then Crash OutOfRange
          else if m_buffer in_buffer ! nat end_index \<noteq> PB_END
          then Again (moveReadIndex in_buffer pk_len) None
          else if pk_len < 0 then Crash LengthError
          else
            let (tmp, in_buffer, _) = readFromBuffer in_buffer (replicate (nat pk_len) 0) pk_len in
            (case decode_frame tmp pk_len32 of
               Field message \<Rightarrow> Again in_buffer (Some message)
             | Reject \<Rightarrow> Again in_buffer None
             | Fault e \<Rightarrow> Crash e))"

fun opt_list :: "'a option \<Rightarrow> 'a list" where
  "opt_list None = []"
| "opt_list (Some x) = [x]"

text \<open>\<open>decode\<close> appends to \<open>out_messages\<close>.  The result is \<open>None\<close> when the loop never returns.\<close>

partial_function (option) decode_loop ::
  "tinypb_protocol list \<Rightarrow> tcp_buffer \<Rightarrow> (fault + tinypb_protocol list \<times> tcp_buffer) option" where
  "decode_loop out_messages in_buffer =
     (case decode_iter in_buffer of
        Return in_buffer' \<Rightarrow> Some (Inr (out_messages, in_buffer'))
      | Crash e \<Rightarrow> Some (Inl e)
      | Again in_buffer' message \<Rightarrow> decode_loop (out_messages @ opt_list message) in_buffer')"

definition tinypb_decode :: "tcp_buffer \<Rightarrow> (fault + tinypb_protocol list \<times> tcp_buffer) option" where
  "tinypb_decode in_buffer = decode_loop [] in_buffer"

section \<open>The checksum as a sum over words\<close>

lemma fold_xor_start:
  fixes r :: int32
  shows "fold (\<lambda>i ret. ret XOR f i) is r = r XOR fold (\<lambda>i ret. ret XOR f i) is 0"
proof (induction "is" arbitrary: r)
  case (Cons i "is")
  from Cons.IH [of "r XOR f i"] Cons.IH [of "f i"] show ?case
    by (simp add: xor.assoc)
qed simp

lemma host_at_first: "host_at (a # b # c # d # xs) 0 = bytes4 d c b a"
  by (simp add: host_at_def)

lemma host_at_skip:
  "host_at (a # b # c # d # xs) (Suc i * 4) = host_at xs (i * 4)"
proof -
  have "(a # b # c # d # xs) ! (Suc i * 4 + k) = xs ! (i * 4 + k)" for k
    using nth_append [of "[a, b, c, d]" xs "Suc i * 4 + k"] by simp
  from this [of 0] this [of 1] this [of 2] this [of 3] show ?thesis
    by (simp add: host_at_def)
qed

lemma checksum_xor_Nil [simp]: "checksum_xor [] = 0"
  by (simp add: checksum_xor_def)

lemma checksum_xor_short:
  "checksum_xor [a] = bytes4 0 0 0 a"
  "checksum_xor [a, b] = bytes4 0 0 b a"
  "checksum_xor [a, b, c] = bytes4 0 c b a"
  by (simp_all add: checksum_xor_def mem_write_def mem_read_def host_at_first)

lemma checksum_xor_Cons4:
  "checksum_xor (a # b # c # d # xs) = bytes4 d c b a XOR checksum_xor xs"
proof -
  let ?ys = "a # b # c # d # xs"
  let ?t = "length xs div 4"
  have t: "length ?ys div 4 = Suc ?t" and m: "length ?ys mod 4 = length xs mod 4"
    by simp_all
  have "fold (\<lambda>i ret. ret XOR host_at ?ys (i * 4)) [0..<Suc ?t] 0
      = fold (\<lambda>i ret. ret XOR host_at ?ys (i * 4)) (map Suc [0..<?t]) (host_at ?ys 0)"
    by (simp add: upt_conv_Cons map_Suc_upt del: upt_Suc)
  also have "\<dots> = host_at ?ys 0 XOR fold (\<lambda>i ret. ret XOR host_at xs (i * 4)) [0..<?t] 0"
    by (subst fold_xor_start) (simp only: fold_map comp_def host_at_skip)
  finally have f: "fold (\<lambda>i ret. ret XOR host_at ?ys (i * 4)) [0..<Suc ?t] 0
      = bytes4 d c b a XOR fold (\<lambda>i ret. ret XOR host_at xs (i * 4)) [0..<?t] 0"
    by (simp add: host_at_first)
  have r: "mem_read ?ys (Suc ?t * 4) n = mem_read xs (?t * 4) n" for n
    using drop_drop [of "?t * 4" 4 ?ys] by (simp add: mem_read_def add.commute)
  show ?thesis
    unfolding checksum_xor_def Let_def t m f r by (simp add: xor.assoc)
qed

text \<open>The reference: four-byte groups, the last one padded with zeros.\<close>

fun checksum_ref :: "byte list \<Rightarrow> int32" where
  "checksum_ref [] = 0"
| "checksum_ref [a] = bytes4 0 0 0 a"
| "checksum_ref [a, b] = bytes4 0 0 b a"
| "checksum_ref [a, b, c] = bytes4 0 c b a"
| "checksum_ref (a # b # c # d # xs) = bytes4 d c b a XOR checksum_ref xs"

lemma checksum_xor_ref: "checksum_xor data = checksum_ref data"
  by (induction data rule: checksum_ref.induct)
    (simp_all add: checksum_xor_short checksum_xor_Cons4)

lemma bytes4_eq_iff: "bytes4 a b c d = bytes4 a' b' c' d' \<longleftrightarrow> a = a' \<and> b = b' \<and> c = c' \<and> d = d'"
  by (metis byte_of_bytes4)

lemma xor_left_eq_iff: "(x XOR y = x XOR z) \<longleftrightarrow> y = (z :: int32)"
  by (metis xor.assoc xor_self_eq xor.left_neutral)

lemma xor_right_eq_iff: "(y XOR x = z XOR x) \<longleftrightarrow> y = (z :: int32)"
  by (metis xor.commute xor_left_eq_iff)

text \<open>Changing one byte changes the checksum.\<close>

lemma checksum_ref_update:
  "i < length xs \<Longrightarrow> y \<noteq> xs ! i \<Longrightarrow> checksum_ref (xs[i := y]) \<noteq> checksum_ref xs"
proof (induction xs arbitrary: i rule: checksum_ref.induct)
  case (5 a b c d xs)
  show ?case
  proof (cases "i < 4")
    case True
    then have "i = 0 \<or> i = 1 \<or> i = 2 \<or> i = 3" by auto
    with 5 show ?thesis by (auto simp: xor_right_eq_iff bytes4_eq_iff numeral_nat)
  next
    case False
    define j where "j = i - 4"
    with False have j: "i = Suc (Suc (Suc (Suc j)))" by arith
    with 5 show ?thesis by (simp add: xor_left_eq_iff)
  qed
qed (auto simp: bytes4_eq_iff less_Suc_eq)


section \<open>The encoded message\<close>

text \<open>The layout of a frame, and the message as \<open>encodeMessage\<close> leaves it.\<close>

definition frame_body :: "tinypb_protocol \<Rightarrow> byte list" where
  "frame_body m = [PB_START] @ htonl_bytes (m_pk_len m)
     @ htonl_bytes (m_msg_id_len m) @ m_msg_id m
     @ htonl_bytes (m_method_name_len m) @ m_method_name m
     @ htonl_bytes (m_err_code m)
     @ htonl_bytes (m_err_info_len m) @ m_err_info m @ m_pb_data m"

definition frame :: "tinypb_protocol \<Rightarrow> byte list" where
  "frame m = frame_body m @ host_bytes (m_checksum m) @ [PB_END]"

definition with_id :: "tinypb_protocol \<Rightarrow> tinypb_protocol" where
  "with_id m = (if m_msg_id m = [] then m\<lparr>m_msg_id := ascii ''123456''\<rparr> else m)"

definition with_lengths :: "tinypb_protocol \<Rightarrow> tinypb_protocol" where
  "with_lengths m = m\<lparr>m_pk_len := of_nat (pk_size m), m_msg_id_len := size32 (m_msg_id m),
     m_method_name_len := size32 (m_method_name m), m_err_info_len := size32 (m_err_info m)\<rparr>"

definition with_checksum :: "tinypb_protocol \<Rightarrow> tinypb_protocol" where
  "with_checksum m = m\<lparr>m_checksum := checksum_xor (frame (m\<lparr>m_checksum := 0\<rparr>))\<rparr>"

lemma frame_body_checksum [simp]: "frame_body (m\<lparr>m_checksum := c\<rparr>) = frame_body m"
  by (simp add: frame_body_def)

lemma pk_size_updates [simp]:
  "pk_size (m\<lparr>m_pk_len := x\<rparr>) = pk_size m" "pk_size (m\<lparr>m_msg_id_len := x\<rparr>) = pk_size m"
  "pk_size (m\<lparr>m_method_name_len := x\<rparr>) = pk_size m"
  "pk_size (m\<lparr>m_err_info_len := x\<rparr>) = pk_size m" "pk_size (m\<lparr>m_checksum := x\<rparr>) = pk_size m"
  by (simp_all add: pk_size_def)

lemma pk_size_with_lengths [simp]: "pk_size (with_lengths m) = pk_size m"
  by (simp add: pk_size_def with_lengths_def)

lemma pk_size_with_checksum [simp]: "pk_size (with_checksum m) = pk_size m"
  by (simp add: pk_size_def with_checksum_def)

lemma length_frame_body: "length (frame_body m) + 5 = pk_size m"
  by (simp add: frame_body_def pk_size_def)

lemma length_frame [simp]: "length (frame m) = pk_size m"
  using length_frame_body [of m] by (simp add: frame_def)

lemma mem_write_field:
  "length new = length old \<Longrightarrow> off = length xs \<Longrightarrow> mem_write (xs @ old @ ys) off new = xs @ new @ ys"
  by (simp add: mem_write_def)

lemma frame_set_checksum:
  "mem_write (frame m) (length (frame m) - 1 - 4) (host_bytes c) = frame (m\<lparr>m_checksum := c\<rparr>)"
proof -
  have "length (frame m) - 1 - 4 = length (frame_body m)"
    using length_frame_body [of m] by simp
  then show ?thesis
    by (simp add: frame_def mem_write_field)
qed

lemma encodeMessage_eq:
  "encodeMessage m = (let m' = with_checksum (with_lengths (with_id m)) in (frame m', m'))"
proof -
  let ?m = "with_lengths (with_id m)"
  have "encodeMessage m =
      (let ret = frame (?m\<lparr>m_checksum := 0\<rparr>); c = checksum_xor ret
       in (mem_write ret (length ret - 1 - 4) (host_bytes c), ?m\<lparr>m_checksum := c\<rparr>))"
    by (simp add: encodeMessage_def Let_def frame_def frame_body_def with_id_def with_lengths_def
        del: length_append list.size length_htonl_bytes length_host_bytes)
  then show ?thesis
    by (simp only: Let_def frame_set_checksum) (simp add: with_checksum_def)
qed

lemma frame_checksum_at:
  "host_at (frame m) (length (frame m) - 1 - 4) = m_checksum m"
proof -
  have "length (frame m) - 1 - 4 = length (frame_body m)"
    using length_frame_body [of m] by simp
  then show ?thesis
    by (simp add: frame_def host_at_append)
qed

lemma checksum_validate_frame:
  "checksum_validate (frame m) \<longleftrightarrow> m_checksum m = checksum_xor (frame (m\<lparr>m_checksum := 0\<rparr>))"
  unfolding checksum_validate_def Let_def frame_checksum_at frame_set_checksum by auto

lemma checksum_validate_encoded: "checksum_validate (frame (with_checksum m))"
  by (simp add: checksum_validate_frame with_checksum_def)

lemma mem_read_middle: "mem_read (xs @ ys @ zs) (length xs) (length ys) = ys"
  by (simp add: mem_read_def)

section \<open>Reading the fields of a frame\<close>

lemma read_int_at:
  assumes "tmp = pre @ htonl_bytes w @ post" and "idx = int (length pre)"
    and "pk_len = int (length tmp)" and "post \<noteq> []" and "pk_len \<le> int32_max"
  shows "read_int tmp idx pk_len = Field w"
proof -
  have "0 < length post" using assms(4) by simp
  then have "fits_int32 (idx + 4)" and "idx + 4 < pk_len"
    using assms by (simp_all add: fits_int32_def)
  then show ?thesis
    using assms(1,2) by (simp add: read_int_def checkIndexValid_def ntohl_at_append)
qed

lemma read_string_at:
  assumes "tmp = pre @ s @ post" and "idx = int (length pre)"
    and "pk_len = int (length tmp)" and "post \<noteq> []" and "pk_len \<le> int32_max"
  shows "read_string tmp idx (sint (size32 s)) pk_len = Field s"
proof -
  have "0 < length post" using assms(4) by simp
  then have "fits_int32 (idx + int (length s))" and "idx + int (length s) < pk_len"
    and "int (length s) \<le> int32_max"
    using assms by (simp_all add: fits_int32_def)
  moreover have "sint (size32 s) = int (length s)"
    using calculation(3) by (simp add: size32_def sint_of_nat_small)
  ultimately show ?thesis
    using assms(1,2) by (simp add: read_string_def checkIndexValid_def mem_read_def)
qed


lemma decode_frame_frame:
  assumes "lengths_ok m" and "int (pk_size m) \<le> int32_max"
    and "m_checksum m = checksum_xor (frame (m\<lparr>m_checksum := 0\<rparr>))"
  shows "decode_frame (frame m) (m_pk_len m) = Field (m\<lparr>m_checksum := 0\<rparr>)"
proof -
  let ?tmp = "frame m" and ?id = "m_msg_id m" and ?meth = "m_method_name m"
  let ?info = "m_err_info m" and ?pb = "m_pb_data m"
  let ?pk = "int (length ?tmp)"
  let ?n1 = "int (length ?id)" and ?n2 = "int (length ?meth)" and ?n3 = "int (length ?info)"
  have pk: "sint (m_pk_len m) = ?pk"
    using assms(1,2) by (simp add: lengths_ok_def sint_of_nat_small)
  have lens: "m_msg_id_len m = size32 ?id" "m_method_name_len m = size32 ?meth"
    "m_err_info_len m = size32 ?info"
    using assms(1) by (simp_all add: lengths_ok_def)
  have small: "sint (size32 ?id) = ?n1" "sint (size32 ?meth) = ?n2" "sint (size32 ?info) = ?n3"
    using assms(2) by (simp_all add: size32_def sint_of_nat_small pk_size_def)
  let ?p1 = "[PB_START] @ htonl_bytes (m_pk_len m)"
  let ?p2 = "?p1 @ htonl_bytes (size32 ?id)"
  let ?p3 = "?p2 @ ?id"
  let ?p4 = "?p3 @ htonl_bytes (size32 ?meth)"
  let ?p5 = "?p4 @ ?meth"
  let ?p6 = "?p5 @ htonl_bytes (m_err_code m)"
  let ?p7 = "?p6 @ htonl_bytes (size32 ?info)"
  let ?tail = "?pb @ host_bytes (m_checksum m) @ [PB_END]"
  have tmp: "?tmp = ?p7 @ ?info @ ?tail"
    by (simp add: frame_def frame_body_def lens)
  note rd = read_int_at [OF _ _ refl _, of ?tmp] and rs = read_string_at [OF _ _ refl _, of ?tmp]
  have le: "pk_size m \<le> 2147483647" using assms(2) by simp
  have r1: "read_int ?tmp 5 ?pk = Field (size32 ?id)"
    by (rule rd [where pre = ?p1], simp add: tmp, simp_all add: le)
  have r2: "read_string ?tmp 9 ?n1 ?pk = Field ?id"
    unfolding small [symmetric]
    by (rule rs [where pre = ?p2], simp add: tmp, simp_all add: le)
  have r3: "read_int ?tmp (9 + ?n1) ?pk = Field (size32 ?meth)"
    by (rule rd [where pre = ?p3], simp add: tmp, simp_all add: le)
  have r4: "read_string ?tmp (13 + ?n1) ?n2 ?pk = Field ?meth"
    unfolding small(2) [symmetric]
    by (rule rs [where pre = ?p4], simp add: tmp, simp_all add: le)
  have r5: "read_int ?tmp (13 + ?n1 + ?n2) ?pk = Field (m_err_code m)"
    by (rule rd [where pre = ?p5], simp add: tmp, simp_all add: le)
  have r6: "read_int ?tmp (17 + ?n1 + ?n2) ?pk = Field (size32 ?info)"
    by (rule rd [where pre = ?p6], simp add: tmp, simp_all add: le)
  have r7: "read_string ?tmp (21 + ?n1 + ?n2) ?n3 ?pk = Field ?info"
    unfolding small(3) [symmetric]
    by (rule rs [where pre = ?p7], simp add: tmp, simp_all add: le)
  have r8: "mem_read ?tmp (nat (21 + ?n1 + ?n2 + ?n3)) (nat (?pk - 5 - (21 + ?n1 + ?n2 + ?n3))) = ?pb"
  proof -
    have "nat (21 + ?n1 + ?n2 + ?n3) = length (?p7 @ ?info)" by simp
    moreover have "nat (?pk - 5 - (21 + ?n1 + ?n2 + ?n3)) = length ?pb"
      by (simp add: pk_size_def)
    moreover have "?tmp = (?p7 @ ?info) @ ?pb @ host_bytes (m_checksum m) @ [PB_END]"
      by (simp only: tmp append_assoc)
    ultimately show ?thesis by (simp only: mem_read_middle)
  qed
  have ck: "checksum_validate ?tmp" using assms(3) by (simp add: checksum_validate_frame)
  have e: "9 + ?n1 + 4 = 13 + ?n1" "13 + ?n1 + ?n2 + 4 = 17 + ?n1 + ?n2"
    "17 + ?n1 + ?n2 + 4 = 21 + ?n1 + ?n2" "(5::int) + 4 = 9" by simp_all
  have "\<not> ?pk < 21 + ?n1 + ?n2 + ?n3 + 5"
    by (simp add: pk_size_def)
  then show ?thesis
    unfolding decode_frame_def Let_def pk
    by (simp only: bind_field.simps e r1 r2 r3 r4 r5 r6 r7 small r8 ck if_False not_True_eq_False)
      (simp add: TinyPBProtocol_new_def lens)
qed

section \<open>The decoder as a parser of the byte stream\<close>

datatype stream_round = Wait | Malformed | Consume nat "tinypb_protocol option"

definition next_frame :: "byte list \<Rightarrow> stream_round" where
  "next_frame ys =
     (if length ys < 5 then Wait
      else let pk = sint (ntohl_at ys 1) in
        if int (length ys) < pk then Wait
        else if pk \<le> 0 then Malformed
        else if ys ! (nat pk - 1) \<noteq> PB_END then Consume (nat pk) None
        else (case decode_frame (take (nat pk) ys) (ntohl_at ys 1) of
                Field m \<Rightarrow> Consume (nat pk) (Some m)
              | Reject \<Rightarrow> Consume (nat pk) None
              | Fault _ \<Rightarrow> Malformed))"

definition resync :: "byte list \<Rightarrow> byte list" where
  "resync xs = dropWhile (\<lambda>c. c \<noteq> PB_START) xs"

lemma next_frame_Consume:
  "next_frame ys = Consume n mo \<Longrightarrow> 0 < n \<and> n \<le> length ys \<and> 5 \<le> length ys"
  by (auto simp: next_frame_def Let_def split: if_splits field.splits)

lemma length_resync: "length (resync xs) \<le> length xs"
  by (simp add: resync_def length_dropWhile_le)

function parse_stream :: "byte list \<Rightarrow> (tinypb_protocol list \<times> byte list) option" where
  "parse_stream xs =
     (case next_frame (resync xs) of
        Wait \<Rightarrow> Some ([], resync xs)
      | Malformed \<Rightarrow> None
      | Consume n mo \<Rightarrow>
          map_option (\<lambda>(ms, r). (opt_list mo @ ms, r)) (parse_stream (drop n (resync xs))))"
  by pat_completeness auto

termination
proof (relation "measure length", simp)
  fix xs n mo assume "next_frame (resync xs) = Consume n mo"
  from next_frame_Consume [OF this] length_resync [of xs]
  show "(drop n (resync xs), xs) \<in> measure length" by auto
qed

declare parse_stream.simps [simp del]

text \<open>What the rounds do on a longer stream with the same beginning.\<close>

lemma next_frame_append:
  assumes "next_frame ys \<noteq> Wait"
  shows "next_frame (ys @ zs) = next_frame ys"
proof -
  have len: "5 \<le> length ys" and pk: "sint (ntohl_at ys 1) \<le> int (length ys)"
    using assms by (auto simp: next_frame_def Let_def split: if_splits)
  have hd: "ntohl_at (ys @ zs) 1 = ntohl_at ys 1"
    using len by (simp add: ntohl_at_append_left)
  show ?thesis
  proof (cases "0 < sint (ntohl_at ys 1)")
    case True
    then have i: "nat (sint (ntohl_at ys 1)) - 1 < length ys" using pk len by linarith
    have n: "(ys @ zs) ! (nat (sint (ntohl_at ys 1)) - 1) = ys ! (nat (sint (ntohl_at ys 1)) - 1)"
      using i by (simp add: nth_append)
    have t: "take (nat (sint (ntohl_at ys 1))) (ys @ zs) = take (nat (sint (ntohl_at ys 1))) ys"
      using pk by simp
    show ?thesis unfolding next_frame_def Let_def hd n t using len pk by simp
  next
    case False
    show ?thesis unfolding next_frame_def Let_def hd using len pk False by simp
  qed
qed

lemma resync_simps [simp]:
  "resync [] = []" "resync (a # xs) = (if a = PB_START then a # xs else resync xs)"
  by (simp_all add: resync_def)

lemma resync_append:
  "resync (xs @ ys) = (if resync xs = [] then resync ys else resync xs @ ys)"
  by (induction xs) simp_all

lemma resync_resync_append: "resync (resync xs @ ys) = resync (xs @ ys)"
  by (induction xs) simp_all

lemma parse_stream_resync: "parse_stream (resync xs @ ys) = parse_stream (xs @ ys)"
  unfolding parse_stream.simps [of "xs @ ys"] parse_stream.simps [of "resync xs @ ys"]
    resync_resync_append by (rule refl)

lemma parse_stream_Consume:
  assumes "next_frame (resync xs) = Consume n mo"
  shows "parse_stream (xs @ ys) =
     map_option (\<lambda>(ms, r). (opt_list mo @ ms, r)) (parse_stream (drop n (resync xs) @ ys))"
proof -
  from next_frame_Consume [OF assms] have n: "n \<le> length (resync xs)" and "resync xs \<noteq> []"
    by auto
  then have r: "resync (xs @ ys) = resync xs @ ys" by (simp add: resync_append)
  have "next_frame (resync (xs @ ys)) = Consume n mo"
    using assms by (simp add: r next_frame_append)
  then show ?thesis
    using n by (simp add: parse_stream.simps [of "xs @ ys"] r)
qed

lemma parse_stream_incremental:
  "parse_stream xs = Some (ms, r) \<Longrightarrow>
     parse_stream (xs @ ys) = map_option (\<lambda>(ms', r'). (ms @ ms', r')) (parse_stream (r @ ys))"
proof (induction xs arbitrary: ms r rule: parse_stream.induct)
  case (1 xs)
  show ?case
  proof (cases "next_frame (resync xs)")
    case Wait
    with "1.prems" have "ms = []" and "r = resync xs"
      by (simp_all add: parse_stream.simps [of xs])
    then show ?thesis by (simp add: parse_stream_resync option.map_ident_strong split_def)
  next
    case Malformed
    with "1.prems" show ?thesis by (simp add: parse_stream.simps [of xs])
  next
    case (Consume n mo)
    with "1.prems" obtain ms' where ms': "parse_stream (drop n (resync xs)) = Some (ms', r)"
      and ms: "ms = opt_list mo @ ms'"
      by (auto simp: parse_stream.simps [of xs])
    from "1.IH" [OF Consume ms'] show ?thesis
      by (simp add: parse_stream_Consume [OF Consume] ms option.map_comp comp_def split_def)
  qed
qed

lemma parse_stream_prefix:
  "parse_stream xs = None \<Longrightarrow> parse_stream (xs @ ys) = None"
proof (induction xs rule: parse_stream.induct)
  case (1 xs)
  show ?case
  proof (cases "next_frame (resync xs)")
    case Wait
    with "1.prems" show ?thesis by (simp add: parse_stream.simps [of xs])
  next
    case Malformed
    then have "resync xs \<noteq> []" by (auto simp: next_frame_def)
    then have "resync (xs @ ys) = resync xs @ ys" by (simp add: resync_append)
    then show ?thesis
      using Malformed by (simp add: parse_stream.simps [of "xs @ ys"] next_frame_append)
  next
    case (Consume n mo)
    with "1.prems" have "parse_stream (drop n (resync xs)) = None"
      by (simp add: parse_stream.simps [of xs])
    from "1.IH" [OF Consume this] show ?thesis
      by (simp add: parse_stream_Consume [OF Consume])
  qed
qed

section \<open>The buffer loop implements the stream parser\<close>

definition same_block :: "tcp_buffer \<Rightarrow> tcp_buffer \<Rightarrow> bool" where
  "same_block b b' \<longleftrightarrow> wf_buffer b' \<and> m_size b' = m_size b \<and> m_vec_size b' = m_vec_size b"

lemma same_block_refl: "wf_buffer b \<Longrightarrow> same_block b b"
  by (simp add: same_block_def)

lemma same_block_trans: "same_block a b \<Longrightarrow> same_block b c \<Longrightarrow> same_block a c"
  by (simp add: same_block_def)

lemma same_block_moveReadIndex:
  "wf_buffer b \<Longrightarrow> 0 \<le> m_read_index b + n \<Longrightarrow> same_block b (moveReadIndex b n)"
  by (simp add: same_block_def wf_moveReadIndex)

lemma content_Cons:
  assumes "wf_buffer b" and "0 < readAvailable b"
  shows "content b = m_buffer b ! nat (m_read_index b) # drop 1 (content b)"
proof -
  have "0 < length (content b)" using assms length_content [of b] by linarith
  then have "content b = content b ! 0 # drop 1 (content b)"
    using drop_eq_Cons_nth [of 0 "content b"] by simp
  moreover have "content b ! 0 = m_buffer b ! nat (m_read_index b)"
    using content_nth [of b 0] assms by simp
  ultimately show ?thesis by simp
qed

lemma skip_to_start_facts:
  "wf_buffer b \<Longrightarrow> same_block b (skip_to_start b)
     \<and> content (skip_to_start b) = resync (content b)"
proof (induction b rule: skip_to_start.induct)
  case (1 b)
  note wf = "1.prems"
  show ?case
  proof (cases "readAvailable b > 0 \<and> m_buffer b ! nat (readIndex b) \<noteq> PB_START")
    case True
    let ?b' = "moveReadIndex b 1"
    have ri: "0 \<le> m_read_index b + 1" using wf by (simp add: wf_buffer_def)
    have "same_block b ?b'" using wf ri by (rule same_block_moveReadIndex)
    moreover have "resync (content ?b') = resync (content b)"
      using content_Cons [OF wf] True
      by (simp add: content_moveReadIndex [OF wf] readIndex_def) (metis resync_simps(2))
    moreover have "skip_to_start b = skip_to_start ?b'"
      using True by (simp add: skip_to_start.simps [of b])
    ultimately show ?thesis
      using "1.IH" [OF True wf_moveReadIndex [OF wf ri]] same_block_trans by metis
  next
    case False
    then have "skip_to_start b = b" by (subst skip_to_start.simps) (rule if_not_P)
    moreover have "resync (content b) = content b"
    proof (cases "readAvailable b > 0")
      case True
      with False have "m_buffer b ! nat (m_read_index b) = PB_START" by (simp add: readIndex_def)
      then show ?thesis by (metis content_Cons [OF wf True] resync_simps(2))
    next
      case False
      then have "content b = []"
        using wf_buffer_bounds(3) [OF wf] by (simp add: content_Nil_iff [OF wf])
      then show ?thesis by simp
    qed
    ultimately show ?thesis using wf by (simp add: same_block_refl)
  qed
qed

lemma ntohl_at_one: "ntohl_at mem 1 = bytes4 (mem ! 1) (mem ! 2) (mem ! 3) (mem ! 4)"
  by (simp add: ntohl_at_def eval_nat_numeral)

lemma content_ntohl:
  assumes "wf_buffer b" and "5 \<le> readAvailable b"
  shows "ntohl_at (m_buffer b) (nat (m_read_index b + 1)) = ntohl_at (content b) 1"
proof -
  have "0 \<le> m_read_index b" using assms(1) by (simp add: wf_buffer_def)
  then have k: "nat (m_read_index b + 1) + k = nat (m_read_index b + int (Suc k))" for k
    by (simp add: nat_add_distrib)
  have c: "content b ! Suc k = m_buffer b ! nat (m_read_index b + int (Suc k))" if "k < 4" for k
    using content_nth [OF assms(1), of "Suc k"] assms(2) that by simp
  show ?thesis
    using c [of 0] c [of 1] c [of 2] c [of 3] k [of 0] k [of 1] k [of 2] k [of 3]
    unfolding ntohl_at_one by (simp add: ntohl_at_def eval_nat_numeral)
qed

text \<open>One round of the loop, for each outcome of the parser on the resynchronised content.\<close>

lemma decode_iter_Wait:
  assumes wf: "wf_buffer b" and nf: "next_frame (content (skip_to_start b)) = Wait"
  shows "decode_iter b = Return (skip_to_start b)"
proof -
  define b1 where "b1 = skip_to_start b"
  have wf1: "wf_buffer b1"
    using skip_to_start_facts [OF wf] by (simp add: b1_def same_block_def)
  have av: "readAvailable b1 = int (length (content b1))" using length_content [OF wf1] by simp
  have hd: "ntohl_at (m_buffer b1) (nat (readIndex b1 + 1)) = ntohl_at (content b1) 1"
    if "\<not> readAvailable b1 < 5"
    using content_ntohl [OF wf1] that by (simp add: readIndex_def)
  have "readAvailable b1 < 5 \<or> readAvailable b1 < sint (ntohl_at (content b1) 1)"
    using nf [folded b1_def] by (auto simp: next_frame_def Let_def av split: if_splits field.splits)
  then show ?thesis
    using hd wf_buffer_bounds(3) [OF wf1]
    by (auto simp: decode_iter_def Let_def simp flip: b1_def)
qed

text \<open>A complete frame with a positive length.\<close>

lemma decode_iter_complete:
  assumes wf: "wf_buffer b" and b1: "b1 = skip_to_start b" and pk_def: "pk = sint (ntohl_at (content b1) 1)"
    and pk: "0 < pk" "pk \<le> int (length (content b1))" "5 \<le> length (content b1)"
  shows "\<exists>b'. same_block b b' \<and> content b' = drop (nat pk) (content b1)
     \<and> decode_iter b =
        (if content b1 ! (nat pk - 1) \<noteq> PB_END then Again (moveReadIndex b1 pk) None
         else (case decode_frame (take (nat pk) (content b1)) (ntohl_at (content b1) 1) of
                 Field message \<Rightarrow> Again b' (Some message) | Reject \<Rightarrow> Again b' None | Fault e \<Rightarrow> Crash e))"
proof -
  have blk: "same_block b b1" and wf1: "wf_buffer b1"
    using skip_to_start_facts [OF wf] by (simp_all add: b1 same_block_def)
  have av: "readAvailable b1 = int (length (content b1))" using length_content [OF wf1] by simp
  have hd: "ntohl_at (m_buffer b1) (nat (readIndex b1 + 1)) = ntohl_at (content b1) 1"
    using content_ntohl [OF wf1] pk(3) av by (simp add: readIndex_def)
  have idx: "0 \<le> readIndex b1 + pk - 1" "readIndex b1 + pk - 1 < m_size b1"
    using pk wf1 av by (auto simp: wf_buffer_def readIndex_def readAvailable_def)
  have last: "m_buffer b1 ! nat (readIndex b1 + pk - 1) = content b1 ! (nat pk - 1)"
    using content_nth [OF wf1, of "nat pk - 1"] pk av by (simp add: readIndex_def of_nat_diff algebra_simps)
  obtain tmp b' c where rd: "readFromBuffer b1 (replicate (nat pk) 0) pk = (tmp, b', c)"
    by (cases "readFromBuffer b1 (replicate (nat pk) 0) pk") auto
  have read: "tmp = take (nat pk) (content b1)" "same_block b b'" "content b' = drop (nat pk) (content b1)"
    using readFromBuffer_some [OF wf1 _ pk(1), of "replicate (nat pk) 0"] rd pk blk av
    by (auto simp: same_block_def readFromBuffer_def Let_def split: if_splits)
  have "decode_iter b =
     (if content b1 ! (nat pk - 1) \<noteq> PB_END then Again (moveReadIndex b1 pk) None
      else (case decode_frame tmp (ntohl_at (content b1) 1) of
              Field message \<Rightarrow> Again b' (Some message) | Reject \<Rightarrow> Again b' None | Fault e \<Rightarrow> Crash e))"
    using pk idx av unfolding decode_iter_def Let_def b1 [symmetric] hd pk_def [symmetric] last
    by (simp add: rd)
  with read show ?thesis by blast
qed

lemma decode_iter_Consume:
  assumes wf: "wf_buffer b" and nf: "next_frame (content (skip_to_start b)) = Consume n mo"
  shows "\<exists>b'. decode_iter b = Again b' mo \<and> same_block b b'
     \<and> content b' = drop n (content (skip_to_start b))"
proof -
  define b1 where "b1 = skip_to_start b"
  define pk where "pk = sint (ntohl_at (content b1) 1)"
  have blk: "same_block b b1" and wf1: "wf_buffer b1"
    using skip_to_start_facts [OF wf] by (simp_all add: b1_def same_block_def)
  have nf1: "next_frame (content b1) = Consume n mo" using nf by (simp add: b1_def)
  have pk: "0 < pk" "pk \<le> int (length (content b1))" "5 \<le> length (content b1)" and n: "n = nat pk"
    using nf1 by (auto simp: next_frame_def Let_def pk_def split: if_splits field.splits)
  have move: "same_block b (moveReadIndex b1 pk)" "content (moveReadIndex b1 pk) = drop n (content b1)"
    using pk n wf1 same_block_moveReadIndex [OF wf1, of pk] same_block_trans [OF blk]
    by (auto simp: content_moveReadIndex wf_buffer_def)
  obtain b' where b': "same_block b b'" "content b' = drop (nat pk) (content b1)"
    "decode_iter b = (if content b1 ! (nat pk - 1) \<noteq> PB_END then Again (moveReadIndex b1 pk) None
       else (case decode_frame (take (nat pk) (content b1)) (ntohl_at (content b1) 1) of
               Field message \<Rightarrow> Again b' (Some message) | Reject \<Rightarrow> Again b' None | Fault e \<Rightarrow> Crash e))"
    using decode_iter_complete [OF wf b1_def pk_def pk] by blast
  show ?thesis
    using nf1 pk n move b'(1,2) unfolding b'(3) b1_def [symmetric]
    by (auto simp: next_frame_def Let_def pk_def [symmetric] split: if_splits field.splits)
qed

lemma decode_loop_parse:
  assumes "wf_buffer b" and "parse_stream (content b) = Some (ms, rest)"
  shows "\<exists>b'. decode_loop out b = Some (Inr (out @ ms, b')) \<and> same_block b b' \<and> content b' = rest"
  using assms
proof (induction "content b" arbitrary: b out ms rest rule: parse_stream.induct)
  case 1
  note skip = skip_to_start_facts [OF "1.prems"(1)]
  show ?case
  proof (cases "next_frame (resync (content b))")
    case Wait
    then have "decode_iter b = Return (skip_to_start b)"
      using decode_iter_Wait [OF "1.prems"(1)] skip by simp
    with Wait "1.prems"(2) skip show ?thesis
      by (simp add: decode_loop.simps [of out b] parse_stream.simps [of "content b"])
  next
    case Malformed
    with "1.prems"(2) show ?thesis by (simp add: parse_stream.simps [of "content b"])
  next
    case (Consume n mo)
    then obtain b' where b': "decode_iter b = Again b' mo" "same_block b b'"
      "content b' = drop n (resync (content b))"
      using decode_iter_Consume [OF "1.prems"(1)] skip by auto
    from Consume "1.prems"(2) obtain ms' where
      ms': "parse_stream (content b') = Some (ms', rest)" "ms = opt_list mo @ ms'"
      by (auto simp: parse_stream.simps [of "content b"] b'(3))
    have "wf_buffer b'" using b'(2) by (simp add: same_block_def)
    from "1.hyps" [OF Consume b'(3) [symmetric] this ms'(1), of "out @ opt_list mo"]
    obtain b2 where "decode_loop (out @ opt_list mo) b' = Some (Inr (out @ ms, b2))"
      and "same_block b' b2" and "content b2 = rest"
      by (auto simp: ms'(2))
    then show ?thesis
      using b'(1,2) by (auto simp: decode_loop.simps [of out b] intro: same_block_trans)
  qed
qed

end
