(* ===== verification/CoderContract.thy ===== *)
theory CoderContract
  imports TinyPBCoder
begin

text \<open>
  What the TinyPB coder promises: the contract of a frame codec over a byte stream (messages
  parse back in order, parsing stops and resumes at any byte), its interpretation on the encoder
  and the stream parser, and the properties of encoding and decoding through buffers, with the
  two frame headers that break the decoding loop.
\<close>

section \<open>The contract of a frame codec\<close>

text \<open>What a connection relies on when it puts a coder on top of a byte stream: encoded messages
  parse back in order, and parsing can stop at any byte and go on later.\<close>

fun feed :: "('c list \<Rightarrow> ('r list \<times> 'c list) option) \<Rightarrow> 'c list \<Rightarrow> 'c list list
    \<Rightarrow> ('r list \<times> 'c list) option" where
  "feed parse r [] = Some ([], r)"
| "feed parse r (c # cs) =
     (case parse (r @ c) of
        None \<Rightarrow> None
      | Some (ms, r') \<Rightarrow> map_option (\<lambda>(ms', r''). (ms @ ms', r'')) (feed parse r' cs))"

locale frame_codec =
  fixes enc :: "'m \<Rightarrow> 'c list"
    and parse :: "'c list \<Rightarrow> ('r list \<times> 'c list) option"
    and ok :: "'m \<Rightarrow> bool"
    and delivered :: "'m \<Rightarrow> 'r"
  assumes parse_Nil: "parse [] = Some ([], [])"
    and parse_enc: "ok m \<Longrightarrow>
      parse (enc m @ xs) = map_option (\<lambda>(ms, r). (delivered m # ms, r)) (parse xs)"
    and parse_more: "parse xs = Some (ms, r) \<Longrightarrow>
      parse (xs @ ys) = map_option (\<lambda>(ms', r'). (ms @ ms', r')) (parse (r @ ys))"
    and parse_fails: "parse xs = None \<Longrightarrow> parse (xs @ ys) = None"
begin

lemma parse_all:
  "list_all ok ms \<Longrightarrow> parse (concat (map enc ms) @ xs) =
     map_option (\<lambda>(ms', r). (map delivered ms @ ms', r)) (parse xs)"
  by (induction ms) (simp_all add: parse_enc option.map_comp comp_def split_def option.map_ident)

lemma parse_stable: "parse xs = Some (ms, r) \<Longrightarrow> parse r = Some ([], r)"
  using parse_more [of xs ms r "[]"] by (cases "parse r") auto

lemma feed_concat:
  "parse r = Some ([], r) \<Longrightarrow> parse (r @ concat cs) = Some (ms, r') \<Longrightarrow> feed parse r cs = Some (ms, r')"
proof (induction cs arbitrary: r ms)
  case Nil
  then show ?case by simp
next
  case (Cons c cs)
  show ?case
  proof (cases "parse (r @ c)")
    case None
    from parse_fails [OF this, of "concat cs"] Cons.prems(2) show ?thesis by simp
  next
    case (Some p)
    then obtain ms1 r1 where p: "parse (r @ c) = Some (ms1, r1)" by (cases p) auto
    from parse_more [OF p, of "concat cs"] Cons.prems(2) obtain ms2
      where "parse (r1 @ concat cs) = Some (ms2, r')" and "ms = ms1 @ ms2" by auto
    with Cons.IH [OF parse_stable [OF p]] p show ?thesis by simp
  qed
qed

lemma feed_encoded:
  "list_all ok ms \<Longrightarrow> concat cs = concat (map enc ms) \<Longrightarrow> feed parse [] cs = Some (map delivered ms, [])"
  using parse_all [of ms "[]"] by (intro feed_concat) (simp_all add: parse_Nil)

end

text \<open>The TinyPB coder is such a codec, for messages whose frame length fits an \<open>int\<close>.  The decoder
  does not set \<open>m_checksum\<close>, so a message arrives with the default in that field.\<close>

definition encodable :: "tinypb_protocol \<Rightarrow> bool" where
  "encodable m \<longleftrightarrow> int (pk_size (with_id m)) \<le> int32_max"

definition wire :: "tinypb_protocol \<Rightarrow> byte list" where
  "wire m = fst (encodeMessage m)"

definition received :: "tinypb_protocol \<Rightarrow> tinypb_protocol" where
  "received m = (snd (encodeMessage m))\<lparr>m_checksum := 0\<rparr>"

lemma next_frame_wire:
  assumes "encodable m"
  shows "next_frame (wire m) = Consume (length (wire m)) (Some (received m))"
proof -
  define m' where "m' = with_checksum (with_lengths (with_id m))"
  have w: "wire m = frame m'" and r: "received m = m'\<lparr>m_checksum := 0\<rparr>"
    by (simp_all add: wire_def received_def encodeMessage_eq Let_def m'_def)
  have ok: "lengths_ok m'"
    by (simp add: m'_def lengths_ok_def with_checksum_def with_lengths_def pk_size_def)
  have small: "int (pk_size m') \<le> int32_max" using assms by (simp add: encodable_def m'_def)
  have ck: "m_checksum m' = checksum_xor (frame (m'\<lparr>m_checksum := 0\<rparr>))"
    by (simp add: m'_def with_checksum_def)
  have hd: "ntohl_at (frame m') 1 = m_pk_len m'"
    using ntohl_at_append [of "[PB_START]" 1 "m_pk_len m'"] by (simp add: frame_def frame_body_def)
  have pk: "sint (m_pk_len m') = int (pk_size m')"
    using ok small by (simp add: lengths_ok_def sint_of_nat_small)
  have ge: "26 \<le> pk_size m'" by (simp add: pk_size_def)
  have "frame m' ! (length (frame m') - 1) = PB_END"
    by (simp add: frame_def nth_append)
  then have last: "frame m' ! (pk_size m' - 1) = PB_END" by simp
  show ?thesis
    using ge unfolding w r next_frame_def Let_def hd pk
    by (simp add: last [simplified] decode_frame_frame [OF ok small ck])
qed

lemma wire_starts: "resync (wire m @ xs) = wire m @ xs"
  by (simp add: wire_def encodeMessage_eq Let_def frame_def frame_body_def)

lemma parse_stream_wire:
  assumes "encodable m"
  shows "parse_stream (wire m @ xs) =
     map_option (\<lambda>(ms, r). (received m # ms, r)) (parse_stream xs)"
proof -
  have "next_frame (wire m @ xs) = Consume (length (wire m)) (Some (received m))"
    using next_frame_append [of "wire m" xs] next_frame_wire [OF assms] by simp
  then show ?thesis
    by (simp add: parse_stream.simps [of "wire m @ xs"] wire_starts)
qed

lemma parse_stream_Nil: "parse_stream [] = Some ([], [])"
  by (simp add: parse_stream.simps [of "[]"] next_frame_def)

interpretation tinypb: frame_codec wire parse_stream encodable received
  by unfold_locales
    (simp_all add: parse_stream_Nil parse_stream_wire parse_stream_incremental parse_stream_prefix)

section \<open>Encoding into a buffer, decoding out of one\<close>

lemma content_tinypb_encode:
  "wf_buffer b \<Longrightarrow> wf_buffer (snd (tinypb_encode (map TinyPB ms) b))
     \<and> content (snd (tinypb_encode (map TinyPB ms) b)) = content b @ concat (map wire ms)"
proof (induction ms arbitrary: b)
  case Nil
  then show ?case by simp
next
  case (Cons m ms)
  from Cons.IH [OF wf_writeToBuffer [OF Cons.prems, of "wire m"]] Cons.prems show ?case
    by (simp add: wire_def split_def Let_def content_writeToBuffer)
qed

text \<open>Bytes arriving in chunks: each chunk is appended to the buffer and the decoder is run on
  what is there.\<close>

fun decode_chunks :: "tcp_buffer \<Rightarrow> byte list list
    \<Rightarrow> (fault + tinypb_protocol list \<times> tcp_buffer) option" where
  "decode_chunks b [] = Some (Inr ([], b))"
| "decode_chunks b (c # cs) =
     (case tinypb_decode (fst (writeToBuffer b c)) of
        Some (Inr (ms, b')) \<Rightarrow>
          (case decode_chunks b' cs of
             Some (Inr (ms', b'')) \<Rightarrow> Some (Inr (ms @ ms', b''))
           | r \<Rightarrow> r)
      | r \<Rightarrow> r)"

lemma decode_chunks_feed:
  "wf_buffer b \<Longrightarrow> feed parse_stream (content b) cs = Some (ms, r) \<Longrightarrow>
     \<exists>b'. decode_chunks b cs = Some (Inr (ms, b')) \<and> wf_buffer b' \<and> content b' = r"
proof (induction cs arbitrary: b ms)
  case Nil
  then show ?case by simp
next
  case (Cons c cs)
  let ?b = "fst (writeToBuffer b c)"
  from Cons.prems(2) obtain ms1 r1 ms2 where
    p: "parse_stream (content b @ c) = Some (ms1, r1)" and
    f: "feed parse_stream r1 cs = Some (ms2, r)" and ms: "ms = ms1 @ ms2"
    by (auto split: option.splits)
  have wf: "wf_buffer ?b" and "parse_stream (content ?b) = Some (ms1, r1)"
    using Cons.prems(1) p by (simp_all add: wf_writeToBuffer content_writeToBuffer)
  from decode_loop_parse [OF this, of "[]"] obtain b1 where
    b1: "tinypb_decode ?b = Some (Inr (ms1, b1))" "wf_buffer b1" "content b1 = r1"
    by (auto simp: tinypb_decode_def same_block_def)
  from Cons.IH [OF b1(2), of ms2] f b1 ms show ?case by auto
qed


section \<open>Properties\<close>

text \<open>C1: encoding messages into an empty buffer and decoding the buffer gives the messages back, in
  order and complete, with the length fields filled in, and leaves nothing unread.\<close>

theorem encode_decode_roundtrip:
  assumes "wf_buffer b" and "content b = []" and "list_all encodable ms"
  shows "\<exists>b'. tinypb_decode (snd (tinypb_encode (map TinyPB ms) b)) = Some (Inr (map received ms, b'))
     \<and> wf_buffer b' \<and> content b' = []"
proof -
  let ?b = "snd (tinypb_encode (map TinyPB ms) b)"
  have b: "wf_buffer ?b" "content ?b = concat (map wire ms)"
    using content_tinypb_encode [OF assms(1)] assms(2) by simp_all
  then have "parse_stream (content ?b) = Some (map received ms, [])"
    using tinypb.parse_all [OF assms(3), of "[]"] by (simp add: parse_stream_Nil)
  from decode_loop_parse [OF b(1) this, of "[]"] show ?thesis
    by (auto simp: tinypb_decode_def same_block_def)
qed

definition sample_msg :: tinypb_protocol where
  "sample_msg = TinyPBProtocol_new\<lparr>m_method_name := ascii ''Order.makeOrder'', m_pb_data := [8, 100]\<rparr>"

lemma encodable_sample: "encodable sample_msg"
  by (simp add: encodable_def with_id_def pk_size_def sample_msg_def TinyPBProtocol_new_def)

theorem encode_decode_roundtrip_witness:
  "\<exists>b'. tinypb_decode (snd (tinypb_encode [TinyPB sample_msg] (TcpBuffer_new []))) =
      Some (Inr ([received sample_msg], b')) \<and> wf_buffer b' \<and> content b' = []"
  using encode_decode_roundtrip [OF wf_TcpBuffer_new content_TcpBuffer_new, of "[sample_msg]"]
    encodable_sample by simp

text \<open>C2: TCP segmentation does not matter.  However the encoded stream is cut into chunks, decoding
  after each chunk delivers exactly the messages that were sent, once each and in order.\<close>

theorem decode_segmentation:
  assumes "wf_buffer b" and "content b = []" and "list_all encodable ms"
    and "concat chunks = concat (map wire ms)"
  shows "\<exists>b'. decode_chunks b chunks = Some (Inr (map received ms, b')) \<and> wf_buffer b' \<and> content b' = []"
  using decode_chunks_feed [OF assms(1)] tinypb.feed_encoded [OF assms(3,4)] assms(2) by simp

theorem decode_segmentation_witness:
  "\<exists>b'. decode_chunks (TcpBuffer_new []) [take 7 (wire sample_msg), drop 7 (wire sample_msg)] =
      Some (Inr ([received sample_msg], b')) \<and> wf_buffer b' \<and> content b' = []"
  using decode_segmentation [OF wf_TcpBuffer_new content_TcpBuffer_new, of "[sample_msg]"
      "[take 7 (wire sample_msg), drop 7 (wire sample_msg)]"] encodable_sample by simp

lemma bind_field_Field:
  "bind_field r f = Field y \<longleftrightarrow> (\<exists>x. r = Field x \<and> f x = Field y)"
  by (cases r) auto

lemma decode_frame_valid: "decode_frame tmp p = Field m \<Longrightarrow> checksum_validate tmp"
  by (auto simp: decode_frame_def Let_def bind_field_Field split: if_splits)

lemma checksum_update:
  assumes "i < length xs" and "y \<noteq> xs ! i"
  shows "checksum_xor (xs[i := y]) \<noteq> checksum_xor xs"
  using checksum_ref_update [OF assms] by (simp add: checksum_xor_ref)

lemma host_at_update_outside:
  "i < off \<or> off + 4 \<le> i \<Longrightarrow> host_at (xs[i := y]) off = host_at xs off"
  by (auto simp: host_at_def)

lemma host_at_update_inside:
  assumes "off \<le> i" and "i < off + 4" and "off + 4 \<le> length xs" and "y \<noteq> xs ! i"
  shows "host_at (xs[i := y]) off \<noteq> host_at xs off"
proof -
  have "i = off \<or> i = off + 1 \<or> i = off + 2 \<or> i = off + 3" using assms(1,2) by auto
  with assms(3,4) show ?thesis by (auto simp: host_at_def bytes4_eq_iff)
qed

lemma nth_mem_write:
  "off + length d \<le> length xs \<Longrightarrow> k < length xs \<Longrightarrow>
     mem_write xs off d ! k = (if off \<le> k \<and> k < off + length d then d ! (k - off) else xs ! k)"
  by (auto simp: mem_write_def nth_append)

lemma mem_write_update_outside:
  assumes "i < off \<or> off + length d \<le> i" and "off + length d \<le> length xs"
  shows "mem_write (xs[i := y]) off d = (mem_write xs off d)[i := y]"
proof (cases "i < length xs")
  case True
  with assms show ?thesis
    by (intro nth_equalityI) (auto simp: nth_mem_write nth_list_update)
next
  case False
  with assms show ?thesis by (simp add: list_update_beyond)
qed

lemma mem_write_update_inside:
  assumes "off \<le> i" and "i < off + length d"
  shows "mem_write (xs[i := y]) off d = mem_write xs off d"
  using assms by (simp add: mem_write_def)

text \<open>C29: the optimised checksum loop computes the reference sum over zero-padded groups, and a frame
  whose checksum is right is rejected after any single byte of it was changed.\<close>

theorem checksum_detects_corruption:
  assumes "checksum_validate data" and "5 \<le> length data" and "i < length data" and "y \<noteq> data ! i"
  shows "checksum_xor data = checksum_ref data \<and> \<not> checksum_validate (data[i := y])
     \<and> decode_frame (data[i := y]) p \<noteq> Field m"
proof -
  define off where "off = length data - 1 - 4"
  have off: "off + 4 < length data" using assms(2) by (simp add: off_def)
  let ?zero = "\<lambda>xs. mem_write xs off (host_bytes 0)"
  have val: "checksum_xor (?zero data) = host_at data off"
    using assms(1) by (simp add: checksum_validate_def Let_def off_def)
  have "checksum_xor (?zero (data[i := y])) \<noteq> host_at (data[i := y]) off"
  proof (cases "off \<le> i \<and> i < off + 4")
    case True
    then show ?thesis
      using val off assms(4) host_at_update_inside [of off i data y]
      by (auto simp: mem_write_update_inside)
  next
    case False
    then have out: "i < off \<or> off + length (host_bytes 0) \<le> i" by auto
    have "(?zero data) ! i = data ! i"
      using out off by (auto simp: mem_write_def nth_append)
    then have "checksum_xor ((?zero data)[i := y]) \<noteq> checksum_xor (?zero data)"
      using assms(3,4) off by (intro checksum_update) simp_all
    then show ?thesis
      using out off val by (simp add: mem_write_update_outside host_at_update_outside)
  qed
  then have bad: "\<not> checksum_validate (data[i := y])"
    by (simp add: checksum_validate_def Let_def off_def)
  moreover have "decode_frame (data[i := y]) p \<noteq> Field m"
    using bad decode_frame_valid by blast
  ultimately show ?thesis by (simp add: checksum_xor_ref)
qed


theorem checksum_detects_corruption_witness:
  "\<not> checksum_validate ((wire sample_msg)[20 := wire sample_msg ! 20 + 1])"
proof -
  have "checksum_validate (wire sample_msg)"
    by (simp add: wire_def encodeMessage_eq Let_def checksum_validate_encoded)
  moreover have "5 \<le> length (wire sample_msg)" and "20 < length (wire sample_msg)"
    by (simp_all add: wire_def encodeMessage_eq Let_def pk_size_def with_id_def sample_msg_def
        TinyPBProtocol_new_def)
  ultimately show ?thesis by (intro checksum_detects_corruption [THEN conjunct2, THEN conjunct1]) simp_all
qed

lemma skip_to_start_at_start:
  assumes "wf_buffer b" and "content b = PB_START # ys"
  shows "skip_to_start b = b"
proof -
  have "0 < readAvailable b" using length_content [OF assms(1)] assms(2) by simp
  then have "m_buffer b ! nat (readIndex b) = PB_START"
    using content_Cons [OF assms(1)] assms(2) by (simp add: readIndex_def)
  then show ?thesis by (subst skip_to_start.simps) simp
qed

text \<open>The round that meets a frame header with the given length at the start of the content.\<close>

lemma decode_iter_header:
  assumes "wf_buffer b" and "content b = PB_START # htonl_bytes w @ ys" and "sint w \<le> 0"
  shows "decode_iter b =
     (let end_index = m_read_index b + sint w - 1 in
      if end_index < 0 \<or> m_size b \<le> end_index then Crash OutOfRange
      else if m_buffer b ! nat end_index \<noteq> PB_END then Again (moveReadIndex b (sint w)) None
      else if sint w < 0 then Crash LengthError
      else Again b None)"
proof -
  have av: "5 \<le> readAvailable b" using length_content [OF assms(1)] assms(2) by simp
  have "ntohl_at (content b) 1 = w"
    using ntohl_at_append [of "[PB_START]" 1 w ys] assms(2) by simp
  then have hd: "ntohl_at (m_buffer b) (nat (readIndex b + 1)) = w"
    using content_ntohl [OF assms(1) av] by (simp add: readIndex_def)
  have rej: "decode_frame [] w = Reject" if "sint w = 0"
    using that by (simp add: decode_frame_def Let_def read_int_def checkIndexValid_def fits_int32_def)
  show ?thesis
    using av assms(3) rej
    unfolding decode_iter_def Let_def skip_to_start_at_start [OF assms(1,2)] hd
    by (auto simp: readIndex_def readFromBuffer_empty)
qed

text \<open>a frame header that announces length 0 wedges the decoder: it never returns messages or
  control.  It reads outside the storage (at index -1), or the loop does not terminate.\<close>

theorem decode_zero_length:
  assumes "wf_buffer b" and "content b = PB_START # htonl_bytes 0 @ ys"
  shows "tinypb_decode b = None \<or> tinypb_decode b = Some (Inl OutOfRange)"
proof (cases "tinypb_decode b")
  case None
  then show ?thesis by simp
next
  case (Some r)
  let ?stuck = "\<lambda>b. wf_buffer b \<and> content b = PB_START # htonl_bytes 0 @ ys"
  have "?stuck b \<longrightarrow> r = Inl OutOfRange"
  proof (rule decode_loop.raw_induct [where P = "\<lambda>_ b r. ?stuck b \<longrightarrow> r = Inl OutOfRange",
        OF _ Some [unfolded tinypb_decode_def]], intro impI)
    fix f :: "tinypb_protocol list \<Rightarrow> tcp_buffer \<Rightarrow> (fault + tinypb_protocol list \<times> tcp_buffer) option"
      and out b r
    assume IH: "\<And>out b r. f out b = Some r \<Longrightarrow> ?stuck b \<longrightarrow> r = Inl OutOfRange"
      and eq: "(case decode_iter b of Return b' \<Rightarrow> Some (Inr (out, b')) | Again b' m \<Rightarrow> f (out @ opt_list m) b'
         | Crash e \<Rightarrow> Some (Inl e)) = Some r"
      and st: "?stuck b"
    have "0 \<le> m_read_index b" using st by (simp add: wf_buffer_def)
    then have "?stuck (moveReadIndex b 0)" using st by (simp add: wf_moveReadIndex content_moveReadIndex)
    moreover have "decode_iter b = Crash OutOfRange \<or> decode_iter b = Again (moveReadIndex b 0) None
        \<or> decode_iter b = Again b None"
      using decode_iter_header [of b 0 ys] st by (auto simp: Let_def)
    ultimately show "r = Inl OutOfRange" using eq IH st by (auto split: decode_round.splits)
  qed
  with assms Some show ?thesis by simp
qed

theorem decode_zero_length_witness:
  "tinypb_decode (fst (writeToBuffer (TcpBuffer_new []) (PB_START # htonl_bytes 0 @ []))) = None
   \<or> tinypb_decode (fst (writeToBuffer (TcpBuffer_new []) (PB_START # htonl_bytes 0 @ [])))
       = Some (Inl OutOfRange)"
  by (rule decode_zero_length)
    (simp_all add: wf_writeToBuffer wf_TcpBuffer_new content_writeToBuffer content_TcpBuffer_new)

text \<open>C33: a negative frame length is not rejected either.  Unless the index it points to is outside
  the storage or holds an end byte, the round moves the read index backwards, so bytes that were
  consumed before become readable again.\<close>

theorem decode_negative_length_rewinds:
  assumes "wf_buffer b" and "content b = PB_START # htonl_bytes w @ ys" and "sint w < 0"
    and "0 \<le> m_read_index b + sint w - 1"
    and "m_buffer b ! nat (m_read_index b + sint w - 1) \<noteq> PB_END"
  shows "decode_iter b = Again (moveReadIndex b (sint w)) None
     \<and> wf_buffer (moveReadIndex b (sint w))
     \<and> readAvailable (moveReadIndex b (sint w)) = readAvailable b - sint w
     \<and> drop (nat (- sint w)) (content (moveReadIndex b (sint w))) = content b"
proof -
  let ?w = "sint w" and ?b2 = "b\<lparr>m_read_index := m_read_index b + sint w\<rparr>"
  have wf2: "wf_buffer ?b2" using assms(1,3,4) by (auto simp: wf_buffer_def)
  have move: "moveReadIndex b ?w = shiftBuffer ?b2"
    using assms(1,3) by (auto simp: moveReadIndex_def wf_buffer_def)
  have av: "readAvailable ?b2 = readAvailable b - ?w" by (simp add: readAvailable_def)
  have n: "nat (m_read_index b + ?w) + nat (- ?w) = nat (m_read_index b)"
    "nat (readAvailable b - ?w) - nat (- ?w) = nat (readAvailable b)"
    using assms(3,4) wf_buffer_bounds(3) [OF assms(1)] by linarith+
  have "drop (nat (- ?w)) (content ?b2) = content b"
    using mem_read_drop [of "nat (- ?w)" "nat (readAvailable b - ?w)" "m_buffer b"
        "nat (m_read_index b + ?w)"] wf_buffer_bounds(3) [OF assms(1)] assms(3)
    by (simp add: content_def av n)
  moreover have "decode_iter b = Again (moveReadIndex b ?w) None"
    using assms wf2 by (simp add: decode_iter_header [OF assms(1,2)] wf_buffer_def)
  ultimately show ?thesis
    using wf2 by (simp add: move av wf_shiftBuffer content_shiftBuffer)
qed

theorem decode_negative_length_rewinds_witness:
  "readAvailable (moveReadIndex
     \<lparr>m_read_index = 4, m_write_index = 9, m_size = 12, m_buffer = [9, 9, 9, 9, 2] @ htonl_bytes (- 2) @ [0, 0, 0],
      m_vec_size = 0\<rparr> (- 2)) = 7"
proof -
  let ?b = "\<lparr>m_read_index = 4, m_write_index = 9, m_size = 12,
    m_buffer = [9, 9, 9, 9, 2] @ htonl_bytes (- 2) @ [0, 0, 0], m_vec_size = 0\<rparr> :: tcp_buffer"
  have wf: "wf_buffer ?b" by (simp add: wf_buffer_def)
  have c: "content ?b = PB_START # htonl_bytes (- 2) @ []"
    by (simp add: content_def readAvailable_def mem_read_def PB_START_def)
  have e: "m_buffer ?b ! nat (m_read_index ?b + sint (- 2 :: int32) - 1) \<noteq> PB_END"
    by (simp add: PB_END_def)
  have "sint (- 2 :: int32) < 0" and "0 \<le> m_read_index ?b + sint (- 2 :: int32) - 1" by simp_all
  from decode_negative_length_rewinds [OF wf c this e] show ?thesis
    by (simp add: readAvailable_def)
qed

section \<open>Termination of decoding\<close>

lemma bind_field_Fault:
  "bind_field x f = Fault e \<longleftrightarrow> x = Fault e \<or> (\<exists>a. x = Field a \<and> f a = Fault e)"
  by (cases x) auto

lemma field_faults:
  "read_int tmp i n = Fault e \<Longrightarrow> e = IntOverflow"
  "read_string tmp i l n = Fault e \<Longrightarrow> e \<in> {IntOverflow, LengthError}"
  by (auto simp: read_int_def read_string_def checkIndexValid_def bind_field_Fault split: if_splits)

lemma decode_frame_Fault: "decode_frame tmp w = Fault e \<Longrightarrow> e \<in> {IntOverflow, LengthError}"
  unfolding decode_frame_def Let_def bind_field_Fault
  by (elim disjE exE conjE) (use field_faults in \<open>(force split: if_splits)+\<close>)

definition positive_lengths :: "byte list \<Rightarrow> bool" where
  "positive_lengths s \<longleftrightarrow> (\<forall>i. i + 5 \<le> length s \<and> s ! i = PB_START \<longrightarrow> 0 < sint (ntohl_at s (i + 1)))"

lemma positive_lengths_drop:
  assumes "positive_lengths s"
  shows "positive_lengths (drop n s)"
  unfolding positive_lengths_def
proof (intro allI impI)
  fix i
  assume i: "i + 5 \<le> length (drop n s) \<and> drop n s ! i = PB_START"
  then have n: "n + i + 5 \<le> length s" by auto
  then have "s ! (n + i) = PB_START" using i by simp
  then have "0 < sint (ntohl_at s (n + i + 1))" using assms n by (simp add: positive_lengths_def)
  moreover have "ntohl_at (drop n s) (i + 1) = ntohl_at s (n + i + 1)"
    using n by (simp add: ntohl_at_def algebra_simps)
  ultimately show "0 < sint (ntohl_at (drop n s) (i + 1))" by simp
qed

lemma resync_drop: "\<exists>n. resync s = drop n s"
  by (metis dropWhile_eq_drop resync_def)

lemma resync_start: "resync s \<noteq> [] \<Longrightarrow> resync s ! 0 = PB_START"
  by (induction s) auto

lemma positive_first:
  assumes "positive_lengths s" and "5 \<le> length (resync s)"
  shows "0 < sint (ntohl_at (resync s) 1)"
proof -
  obtain n where n: "resync s = drop n s" using resync_drop by blast
  have "resync s ! 0 = PB_START"
    using assms(2) by (intro resync_start) auto
  with positive_lengths_drop [OF assms(1), of n] assms(2) n show ?thesis
    by (auto simp: positive_lengths_def dest: spec [of _ 0])
qed

lemma decode_loop_ends:
  "wf_buffer b \<Longrightarrow> positive_lengths (content b) \<Longrightarrow>
     \<exists>r. decode_loop out b = Some r
       \<and> (\<forall>e. r = Inl e \<longrightarrow> e \<in> {IntOverflow, LengthError})
       \<and> (\<forall>ms b'. r = Inr (ms, b') \<longrightarrow> wf_buffer b'
            \<and> (\<exists>n. content b' = drop n (content b) \<and> length ms \<le> length out + n))"
proof (induction "length (content b)" arbitrary: b out rule: less_induct)
  case less
  define s where "s = resync (content b)"
  have skip: "same_block b (skip_to_start b)" "content (skip_to_start b) = s"
    using skip_to_start_facts [OF less.prems(1)] by (simp_all add: s_def)
  obtain k where k: "s = drop k (content b)" using resync_drop s_def by blast
  show ?case
  proof (cases "next_frame s")
    case Wait
    then have "decode_loop out b = Some (Inr (out, skip_to_start b))"
      using decode_iter_Wait [OF less.prems(1)] skip by (simp add: decode_loop.simps [of out b])
    then show ?thesis using skip k by (auto simp: same_block_def)
  next
    case (Consume n mo)
    then obtain b' where b': "decode_iter b = Again b' mo" "same_block b b'" "content b' = drop n s"
      using decode_iter_Consume [OF less.prems(1)] skip by auto
    have n: "0 < n" "n \<le> length s" using next_frame_Consume [OF Consume] by simp_all
    have c: "content b' = drop (n + k) (content b)" using b'(3) k by simp
    have "length (content b') < length (content b)" using n b'(3) k by auto
    from less.hyps [OF this, of "out @ opt_list mo"] b'(2) positive_lengths_drop [OF less.prems(2), of "n + k"] c
    obtain r where r: "decode_loop (out @ opt_list mo) b' = Some r" "\<forall>e. r = Inl e \<longrightarrow> e \<in> {IntOverflow, LengthError}"
      "\<forall>ms b''. r = Inr (ms, b'') \<longrightarrow> wf_buffer b''
         \<and> (\<exists>m. content b'' = drop m (content b') \<and> length ms \<le> length (out @ opt_list mo) + m)"
      by (auto simp: same_block_def)
    have one: "length (opt_list mo) \<le> 1" by (cases mo) simp_all
    have "\<exists>l. content b'' = drop l (content b) \<and> length ms \<le> length out + l"
      if res: "r = Inr (ms, b'')" for ms b''
    proof -
      obtain m where m: "content b'' = drop m (content b')" "length ms \<le> length (out @ opt_list mo) + m"
        using r(3) res by auto
      have "content b'' = drop (m + (n + k)) (content b)" using m(1) c by simp
      moreover have "length ms \<le> length out + (m + (n + k))" using m(2) one n(1) by simp
      ultimately show ?thesis by blast
    qed
    with r b'(1) show ?thesis by (auto simp: decode_loop.simps [of out b])
  next
    case Malformed
    then have len: "5 \<le> length s" by (auto simp: next_frame_def split: if_splits)
    define pk where "pk = sint (ntohl_at s 1)"
    have pk: "0 < pk" using positive_first [OF less.prems(2)] len by (simp add: pk_def s_def)
    with Malformed len obtain e where le: "pk \<le> int (length s)" and last: "s ! (nat pk - 1) = PB_END"
      and e: "decode_frame (take (nat pk) s) (ntohl_at s 1) = Fault e"
      by (auto simp: next_frame_def Let_def pk_def split: if_splits field.splits)
    have "decode_iter b = Crash e"
      using decode_iter_complete [OF less.prems(1) refl, of pk] skip(2) pk le len last e by (auto simp: pk_def)
    with decode_frame_Fault [OF e] show ?thesis by (simp add: decode_loop.simps [of out b])
  qed
qed

text \<open>
  C19: Decoding ends on every input in which no start byte is followed by a length that is not
  positive, whatever else the bytes are: the loop returns after consuming a prefix of the content, at
  least one byte for each message, or the process is stopped by an overflowing index or a negative
  field length.
\<close>

theorem decode_terminates:
  assumes "wf_buffer b" and "positive_lengths (content b)"
  shows "\<exists>r. tinypb_decode b = Some r
     \<and> (case r of
          Inl e \<Rightarrow> e \<in> {IntOverflow, LengthError}
        | Inr (ms, b') \<Rightarrow> wf_buffer b' \<and> (\<exists>n. content b' = drop n (content b) \<and> length ms \<le> n))"
proof -
  obtain r where "tinypb_decode b = Some r" "\<forall>e. r = Inl e \<longrightarrow> e \<in> {IntOverflow, LengthError}"
    "\<forall>ms b'. r = Inr (ms, b') \<longrightarrow> wf_buffer b' \<and> (\<exists>n. content b' = drop n (content b) \<and> length ms \<le> n)"
    using decode_loop_ends [OF assms, of "[]"] by (auto simp: tinypb_decode_def)
  then show ?thesis by (cases r) auto
qed

theorem decode_terminates_witness:
  "tinypb_decode (fst (writeToBuffer (TcpBuffer_new []) ([9, PB_START] @ htonl_bytes 3 @ [7]))) \<noteq> None"
proof -
  let ?s = "[9, PB_START] @ htonl_bytes 3 @ [7 :: byte]"
  have s: "?s = [9, 2, 0, 0, 0, 3, 7]" 
    unfolding htonl_bytes_def byte_of_def PB_START_def by code_simp
  have len: "ntohl_at ?s 2 = 3" using ntohl_at_append [of "[9, PB_START]" 2 3 "[7]"] by simp
  have "positive_lengths ?s"
    unfolding positive_lengths_def
  proof (intro allI impI)
    fix i
    assume i: "i + 5 \<le> length ?s \<and> ?s ! i = PB_START"
    then consider "i = 0" | "i = 1" | "i = 2" by fastforce
    then show "0 < sint (ntohl_at ?s (i + 1))"
    proof cases
      case 2
      with len show ?thesis by (simp add: numeral_2_eq_2)
    next
      case 1
      with i have "[9, 2, 0, 0, 0, 3, 7] ! 0 = PB_START" by (metis s)
      then show ?thesis by (simp add: PB_START_def)
    next
      case 3
      with i have "[9, 2, 0, 0, 0, 3, 7] ! 2 = PB_START" by (metis s)
      then show ?thesis by (simp add: PB_START_def)
    qed
  qed
  then show ?thesis
    using decode_terminates [of "fst (writeToBuffer (TcpBuffer_new []) ?s)"]
    by (auto simp: wf_writeToBuffer wf_TcpBuffer_new content_writeToBuffer content_TcpBuffer_new)
qed

end
