(* ===== verification/MsgIdUtil.thy ===== *)
theory MsgIdUtil
  imports RpcPrelude
begin

text \<open>
  Message ids (\<open>src/common/msg_id_util.cc\<close>): per thread, a string of 20 decimal digits that starts
  at random and is incremented as a decimal number, until it is all nines and is drawn afresh.
\<close>

definition g_msg_id_length :: nat where "g_msg_id_length = 20"

definition t_max_msg_id_no :: cstring where
  "t_max_msg_id_no = replicate g_msg_id_length 57"

text \<open>\<open>random_str[i] = (uint8_t)random_str[i] % 10 + '0'\<close> for each byte.\<close>

definition to_digits :: "cstring \<Rightarrow> cstring" where
  "to_digits random_str = map (\<lambda>c. of_nat (unat c mod 10 + 48)) random_str"

text \<open>The increment loop, from index \<open>i - 1\<close> down to 0, leaving at the first digit that does not
  carry.\<close>

fun increment_loop :: "nat \<Rightarrow> int \<Rightarrow> cstring \<Rightarrow> cstring" where
  "increment_loop 0 carry s = s"
| "increment_loop (Suc i) carry s =
     (let num = sint (s ! i) - 48 + carry in
      if num \<ge> 10 then increment_loop i 1 (s[i := 48])
      else s[i := word_of_int (num + 48)])"

text \<open>The thread-local state is \<open>t_msg_id_no\<close>; \<open>random\<close> holds the bytes \<open>read(2)\<close> delivered from
  \<open>/dev/urandom\<close> (fewer than asked for when it fails).  The result is the returned string and
  the new state.\<close>

definition GenMsgId :: "byte list \<Rightarrow> cstring \<Rightarrow> cstring \<times> cstring" where
  "GenMsgId random t_msg_id_no =
     (if t_msg_id_no = [] \<or> t_msg_id_no = t_max_msg_id_no
      then if length random \<noteq> g_msg_id_length then ([], t_msg_id_no)
           else let t_msg_id_no = to_digits random in (t_msg_id_no, t_msg_id_no)
      else let t_msg_id_no = increment_loop g_msg_id_length 1 t_msg_id_no
           in (t_msg_id_no, t_msg_id_no))"

section \<open>The string as a decimal number\<close>

definition is_digit :: "byte \<Rightarrow> bool" where
  "is_digit c \<longleftrightarrow> 48 \<le> unat c \<and> unat c \<le> 57"

definition valid_id :: "cstring \<Rightarrow> bool" where
  "valid_id s \<longleftrightarrow> length s = g_msg_id_length \<and> (\<forall>c \<in> set s. is_digit c)"

fun decimal :: "cstring \<Rightarrow> nat" where
  "decimal [] = 0"
| "decimal (c # s) = (unat c - 48) * 10 ^ length s + decimal s"

lemma decimal_update:
  "i < length s \<Longrightarrow> decimal (s[i := c]) + (unat (s ! i) - 48) * 10 ^ (length s - 1 - i)
     = decimal s + (unat c - 48) * 10 ^ (length s - 1 - i)"
proof (induction s arbitrary: i)
  case Nil
  then show ?case by simp
next
  case (Cons a s)
  then show ?case by (cases i) auto
qed

lemma sint_of_nat_byte: "n < 128 \<Longrightarrow> sint (of_nat n :: byte) = int n"
  by (simp add: signed_of_nat signed_take_bit_int_eq_self)

lemma unat_of_nat_byte: "n < 256 \<Longrightarrow> unat (of_nat n :: byte) = n"
  by (simp add: unsigned_of_nat take_bit_nat_eq_self)

lemma sint_digit: "is_digit c \<Longrightarrow> sint c = int (unat c)"
  using sint_of_nat_byte [of "unat c"] by (simp add: is_digit_def)

lemma digit_step:
  assumes "is_digit c" and "unat c \<noteq> 57"
  shows "is_digit (word_of_int (int (unat c) - 48 + 1 + 48))"
    and "unat (word_of_int (int (unat c) - 48 + 1 + 48) :: byte) = Suc (unat c)"
proof -
  have eq: "word_of_int (int (unat c) - 48 + 1 + 48) = (of_nat (Suc (unat c)) :: byte)"
    by simp
  have "Suc (unat c) < 256" using assms by (simp add: is_digit_def)
  then have u: "unat (of_nat (Suc (unat c)) :: byte) = Suc (unat c)"
    by (rule unat_of_nat_byte)
  show "unat (word_of_int (int (unat c) - 48 + 1 + 48) :: byte) = Suc (unat c)"
    unfolding eq by (rule u)
  show "is_digit (word_of_int (int (unat c) - 48 + 1 + 48))"
    unfolding eq is_digit_def u using assms by (auto simp: is_digit_def)
qed

lemma increment_loop_correct:
  assumes "n \<le> length s" and "\<forall>c \<in> set s. is_digit c" and "\<exists>i < n. unat (s ! i) \<noteq> 57"
  shows "decimal (increment_loop n 1 s) = decimal s + 10 ^ (length s - n)
     \<and> length (increment_loop n 1 s) = length s
     \<and> (\<forall>c \<in> set (increment_loop n 1 s). is_digit c)"
  using assms
proof (induction n arbitrary: s)
  case 0
  then show ?case by simp
next
  case (Suc n)
  let ?c = "s ! n" and ?p = "(10::nat) ^ (length s - Suc n)"
  have n: "n < length s" and dig: "is_digit ?c" using Suc.prems by auto
  note sd = sint_digit [OF dig]
  note upd = decimal_update [OF n]
  show ?case
  proof (cases "unat ?c = 57")
    case True
    let ?s = "s[n := 48]"
    have loop: "increment_loop (Suc n) 1 s = increment_loop n 1 ?s"
      using True sd by simp
    have "\<exists>i < n. unat (?s ! i) \<noteq> 57"
      using Suc.prems(3) True by (auto simp: less_Suc_eq)
    moreover have "\<forall>c \<in> set ?s. is_digit c"
      using Suc.prems(2) set_update_subset_insert [of s n 48] by (auto simp: is_digit_def)
    ultimately have IH: "decimal (increment_loop n 1 ?s) = decimal ?s + 10 ^ (length s - n)
        \<and> length (increment_loop n 1 ?s) = length s
        \<and> (\<forall>c \<in> set (increment_loop n 1 ?s). is_digit c)"
      using Suc.IH [of ?s] Suc.prems(1) by simp
    have "decimal ?s + 9 * ?p = decimal s"
      using upd [of 48] True by simp
    moreover have "(10::nat) ^ (length s - n) = 10 * ?p"
      using n by (simp flip: power_Suc add: Suc_diff_Suc)
    ultimately show ?thesis using IH unfolding loop by simp
  next
    case False
    let ?d = "word_of_int (int (unat ?c) - 48 + 1 + 48) :: byte"
    have loop: "increment_loop (Suc n) 1 s = s[n := ?d]"
    proof -
      have "\<not> int (unat ?c) - 48 + 1 \<ge> 10" using False dig
        unfolding is_digit_def by linarith
      then show ?thesis by (simp only: increment_loop.simps Let_def sd if_False)
    qed
    have "decimal (s[n := ?d]) + (unat ?c - 48) * ?p = decimal s + (Suc (unat ?c) - 48) * ?p"
      using upd [of ?d] digit_step(2) [OF dig False] by simp
    moreover have "Suc (unat ?c) - 48 = Suc (unat ?c - 48)"
      using dig unfolding is_digit_def by arith
    ultimately have "decimal (s[n := ?d]) = decimal s + ?p" by simp
    moreover have "\<forall>c \<in> set (s[n := ?d]). is_digit c"
      using Suc.prems(2) digit_step(1) [OF dig False] set_update_subset_insert [of s n ?d] by auto
    ultimately show ?thesis unfolding loop by simp
  qed
qed

lemma decimal_lt: "(\<forall>c \<in> set s. is_digit c) \<Longrightarrow> decimal s < 10 ^ length s"
proof (induction s)
  case (Cons c s)
  then have "unat c - 48 \<le> 9" and "decimal s < 10 ^ length s" by (auto simp: is_digit_def)
  then have "(unat c - 48) * 10 ^ length s + decimal s < 9 * 10 ^ length s + 10 ^ length s"
    by (meson add_le_less_mono mult_le_mono1)
  then show ?case by simp
qed simp

lemma not_max_has_small_digit:
  assumes "length s = g_msg_id_length" and "s \<noteq> t_max_msg_id_no"
  shows "\<exists>i < g_msg_id_length. unat (s ! i) \<noteq> 57"
proof (rule ccontr)
  assume "\<not> ?thesis"
  then have "s ! i = t_max_msg_id_no ! i" if "i < length s" for i
    using that assms(1) by (auto simp: t_max_msg_id_no_def intro!: word_unat_eq_iff [THEN iffD2])
  with assms show False by (auto simp: t_max_msg_id_no_def list_eq_iff_nth_eq)
qed

lemma decimal_nines: "decimal (replicate n 57) + 1 = 10 ^ n"
  by (induction n) simp_all

lemma decimal_max: "decimal t_max_msg_id_no + 1 = 10 ^ g_msg_id_length"
  unfolding t_max_msg_id_no_def by (rule decimal_nines)

section \<open>Properties\<close>

lemma GenMsgId_increments:
  assumes "valid_id s" and "s \<noteq> t_max_msg_id_no"
  shows "fst (GenMsgId rnd s) = snd (GenMsgId rnd s) \<and> valid_id (snd (GenMsgId rnd s))
     \<and> decimal (snd (GenMsgId rnd s)) = decimal s + 1"
proof -
  have "s \<noteq> []" using assms(1) by (auto simp: valid_id_def g_msg_id_length_def)
  then have "GenMsgId rnd s = (increment_loop g_msg_id_length 1 s, increment_loop g_msg_id_length 1 s)"
    using assms(2) by (simp add: GenMsgId_def Let_def)
  then show ?thesis
    using increment_loop_correct [of g_msg_id_length s] not_max_has_small_digit [of s] assms
    by (simp add: valid_id_def)
qed

text \<open>The ids handed out by successive calls of one thread.\<close>

fun gen_ids :: "byte list \<Rightarrow> cstring \<Rightarrow> nat \<Rightarrow> cstring list" where
  "gen_ids rnd s 0 = []"
| "gen_ids rnd s (Suc n) = (let (r, s') = GenMsgId rnd s in r # gen_ids rnd s' n)"

lemma gen_ids_values:
  "valid_id s \<Longrightarrow> decimal s + n < 10 ^ g_msg_id_length \<Longrightarrow>
     map decimal (gen_ids rnd s n) = map (\<lambda>k. decimal s + k) [1..<Suc n]
     \<and> (\<forall>r \<in> set (gen_ids rnd s n). valid_id r)"
proof (induction n arbitrary: s)
  case 0
  then show ?case by simp
next
  case (Suc n)
  have "s \<noteq> t_max_msg_id_no" using Suc.prems(2) decimal_max by auto
  note step = GenMsgId_increments [OF Suc.prems(1) this, of rnd]
  let ?s = "snd (GenMsgId rnd s)"
  have IH: "map decimal (gen_ids rnd ?s n) = map (\<lambda>k. decimal ?s + k) [1..<Suc n]
      \<and> (\<forall>r \<in> set (gen_ids rnd ?s n). valid_id r)"
    using Suc.IH [of ?s] step Suc.prems(2) by simp
  have "[1..<Suc (Suc n)] = 1 # map Suc [1..<Suc n]"
    by (simp add: map_Suc_upt upt_conv_Cons del: upt_Suc)
  then show ?case using IH step by (simp add: split_def Let_def comp_def del: upt_Suc)
qed

text \<open>C27: from a valid id on, successive calls return the next decimal numbers, each 20 digits long,
  as long as the 20 digits last; so no two of them are equal.\<close>

theorem gen_ids_distinct:
  assumes "valid_id s" and "decimal s + n < 10 ^ g_msg_id_length"
  shows "map decimal (gen_ids rnd s n) = map (\<lambda>k. decimal s + k) [1..<Suc n]
     \<and> distinct (gen_ids rnd s n) \<and> (\<forall>r \<in> set (gen_ids rnd s n). valid_id r)"
proof -
  note v = gen_ids_values [OF assms, of rnd]
  have "distinct (map decimal (gen_ids rnd s n))"
    using v by (simp add: distinct_map inj_on_def del: upt_Suc)
  then have "distinct (gen_ids rnd s n)" by (simp only: distinct_map)
  then show ?thesis using v by blast
qed

lemma decimal_leading_zeros: "decimal (replicate n 48 @ s) = decimal s"
  by (induction n) simp_all

theorem gen_ids_distinct_witness:
  "distinct (gen_ids [] (replicate 19 48 @ [57]) 3)"
proof -
  have "valid_id (replicate 19 48 @ [57])"
    by (auto simp: valid_id_def g_msg_id_length_def is_digit_def)
  moreover have "decimal (replicate 19 48 @ [57]) + 3 < 10 ^ g_msg_id_length"
    by (simp add: g_msg_id_length_def decimal_leading_zeros)
  ultimately show ?thesis using gen_ids_distinct by blast
qed

text \<open>the first call of a thread, and the call after all nines, either draws a fresh valid id or,
  when the random source fails to deliver 20 bytes, returns the empty string and changes nothing.\<close>

theorem GenMsgId_draws:
  assumes "s = [] \<or> s = t_max_msg_id_no"
  shows "(length rnd = g_msg_id_length \<longrightarrow>
       fst (GenMsgId rnd s) = snd (GenMsgId rnd s) \<and> valid_id (snd (GenMsgId rnd s)))
     \<and> (length rnd \<noteq> g_msg_id_length \<longrightarrow> GenMsgId rnd s = ([], s))"
proof -
  have "is_digit (of_nat (unat c mod 10 + 48))" for c :: byte
  proof -
    have m: "unat c mod 10 < 10" by simp
    then have "unat (of_nat (unat c mod 10 + 48) :: byte) = unat c mod 10 + 48"
      by (intro unat_of_nat_byte) linarith
    then show ?thesis using m unfolding is_digit_def by linarith
  qed
  then show ?thesis
    using assms by (auto simp: GenMsgId_def Let_def valid_id_def to_digits_def)
qed

theorem GenMsgId_draws_witness:
  "valid_id (snd (GenMsgId (replicate 20 255) []))"
  using GenMsgId_draws [of "[]" "replicate 20 255"] by (simp add: g_msg_id_length_def)

end
