(* ===== verification/NetAddr.thy ===== *)
theory NetAddr
  imports RpcPrelude
begin

text \<open>
  Socket addresses (\<open>include/rapidrpc/net/tcp/net_addr.h\<close>, \<open>src/net/tcp/net_addr.cc\<close>): the three
  classes below \<open>NetAddr\<close>, their constructors from text and from a socket address, printing and
  the validity check.  \<open>inet_pton\<close>, \<open>inet_ntop\<close> and \<open>access\<close> belong to the operating system and
  are arguments of the definitions that call them; \<open>std::stoi\<close> and \<open>std::to_string\<close> are modelled.
\<close>

section \<open>Decimal numbers in the C++ library\<close>

datatype stoi_error = InvalidArgument | OutOfRangeValue

definition is_space :: "byte \<Rightarrow> bool" where
  "is_space c \<longleftrightarrow> c = 32 \<or> (9 \<le> unat c \<and> unat c \<le> 13)"

definition dec_digit :: "byte \<Rightarrow> bool" where
  "dec_digit c \<longleftrightarrow> 48 \<le> unat c \<and> unat c \<le> 57"

definition dec_value :: "cstring \<Rightarrow> nat" where
  "dec_value s = foldl (\<lambda>v c. 10 * v + (unat c - 48)) 0 s"

definition stoi :: "cstring \<Rightarrow> stoi_error + int" where
  "stoi s =
     (let s = dropWhile is_space s;
          (neg, s) = (case s of c # r \<Rightarrow> if c = 45 then (True, r) else if c = 43 then (False, r)
                                        else (False, s)
                      | [] \<Rightarrow> (False, s));
          ds = takeWhile dec_digit s;
          v = (if neg then - int (dec_value ds) else int (dec_value ds))
      in if ds = [] then Inl InvalidArgument
         else if \<not> fits_int32 v then Inl OutOfRangeValue
         else Inr v)"

fun to_string :: "nat \<Rightarrow> cstring" where
  "to_string n = (if n < 10 then [of_nat (48 + n)] else to_string (n div 10) @ [of_nat (48 + n mod 10)])"

declare to_string.simps [simp del]

definition int_text :: "int \<Rightarrow> cstring" where
  "int_text i = (if i < 0 then 45 # to_string (nat (- i)) else to_string (nat i))"

section \<open>State\<close>

text \<open>Linux's address families.\<close>

definition AF_UNIX :: nat where "AF_UNIX = 1"
definition AF_INET :: nat where "AF_INET = 2"
definition AF_INET6 :: nat where "AF_INET6 = 10"

text \<open>\<open>sockaddr_in\<close> and \<open>sockaddr_in6\<close> hold the family, the port and the binary address;
  \<open>sin_port\<close> is given by the port it encodes (\<open>htons\<close> and \<open>ntohs\<close> are inverse).  A \<open>memset\<close> to
  zero leaves family 0, port 0 and no address bits set.\<close>

record sockaddr =
  sin_family :: nat
  sin_port :: "16 word"
  sin_addr :: "byte list"

definition zero_sockaddr :: "nat \<Rightarrow> sockaddr" where
  "zero_sockaddr n = \<lparr>sin_family = 0, sin_port = 0, sin_addr = replicate n 0\<rparr>"

record ip_net_addr =
  m_ip :: cstring
  m_port :: "16 word"
  m_addr :: sockaddr

record unix_net_addr =
  sun_family :: nat
  sun_path :: cstring
  m_path :: cstring

datatype net_addr =
    IpNetAddr ip_net_addr
  | Ip6NetAddr ip_net_addr
  | UnixNetAddr unix_net_addr

section \<open>Construction\<close>

text \<open>\<open>inet_pton(family, text.c_str(), &addr)\<close>: the binary address, or \<open>None\<close> for a result
  \<open>\<le> 0\<close>.  The parameter stands for the system call applied to the whole \<open>std::string\<close>.\<close>

type_synonym pton = "nat \<Rightarrow> cstring \<Rightarrow> byte list option"

definition find_last_of :: "byte \<Rightarrow> cstring \<Rightarrow> nat option" where
  "find_last_of c s =
     (let r = takeWhile (\<lambda>x. x \<noteq> c) (rev s)
      in if length r = length s then None else Some (length s - 1 - length r))"

text \<open>The constructors of the two IP classes differ in the family and in the size of the address,
  which are the first two arguments here.\<close>

definition ip_from_parts :: "nat \<Rightarrow> nat \<Rightarrow> pton \<Rightarrow> cstring \<Rightarrow> 16 word \<Rightarrow> ip_net_addr" where
  "ip_from_parts family n inet_pton ip port =
     (let a = (zero_sockaddr n)\<lparr>sin_family := family, sin_port := port\<rparr>
      in case inet_pton family ip of
           None \<Rightarrow> \<lparr>m_ip = [], m_port = port, m_addr = a\<rparr>
         | Some bits \<Rightarrow> \<lparr>m_ip = ip, m_port = port, m_addr = a\<lparr>sin_addr := bits\<rparr>\<rparr>)"

definition ip_from_text :: "nat \<Rightarrow> nat \<Rightarrow> pton \<Rightarrow> cstring \<Rightarrow> stoi_error + ip_net_addr" where
  "ip_from_text family n inet_pton addr =
     (case find_last_of 58 addr of
        None \<Rightarrow> Inr \<lparr>m_ip = [], m_port = 0, m_addr = zero_sockaddr n\<rparr>
      | Some pos \<Rightarrow>
          (case stoi (drop (pos + 1) addr) of
             Inl e \<Rightarrow> Inl e
           | Inr port \<Rightarrow> Inr (ip_from_parts family n inet_pton (take pos addr) (word_of_int port))))"

definition ip_from_sockaddr :: "(sockaddr \<Rightarrow> cstring) \<Rightarrow> sockaddr \<Rightarrow> ip_net_addr" where
  "ip_from_sockaddr inet_ntop a = \<lparr>m_ip = inet_ntop a, m_port = sin_port a, m_addr = a\<rparr>"

definition IpNetAddr_parts :: "pton \<Rightarrow> cstring \<Rightarrow> 16 word \<Rightarrow> net_addr" where
  "IpNetAddr_parts inet_pton ip port = IpNetAddr (ip_from_parts AF_INET 4 inet_pton ip port)"

definition IpNetAddr_text :: "pton \<Rightarrow> cstring \<Rightarrow> stoi_error + net_addr" where
  "IpNetAddr_text inet_pton addr = map_sum id IpNetAddr (ip_from_text AF_INET 4 inet_pton addr)"

definition Ip6NetAddr_parts :: "pton \<Rightarrow> cstring \<Rightarrow> 16 word \<Rightarrow> net_addr" where
  "Ip6NetAddr_parts inet_pton ip port = Ip6NetAddr (ip_from_parts AF_INET6 16 inet_pton ip port)"

definition Ip6NetAddr_text :: "pton \<Rightarrow> cstring \<Rightarrow> stoi_error + net_addr" where
  "Ip6NetAddr_text inet_pton addr = map_sum id Ip6NetAddr (ip_from_text AF_INET6 16 inet_pton addr)"

text \<open>\<open>sun_path\<close> has 108 bytes; \<open>strncpy\<close> copies at most 107 of them, up to a NUL.\<close>

definition UnixNetAddr_path :: "cstring \<Rightarrow> net_addr" where
  "UnixNetAddr_path path =
     UnixNetAddr \<lparr>sun_family = AF_UNIX, sun_path = take 107 (takeWhile (\<lambda>c. c \<noteq> 0) path),
                  m_path = path\<rparr>"

definition UnixNetAddr_sockaddr :: "nat \<Rightarrow> cstring \<Rightarrow> net_addr" where
  "UnixNetAddr_sockaddr family path =
     UnixNetAddr \<lparr>sun_family = family, sun_path = path, m_path = takeWhile (\<lambda>c. c \<noteq> 0) path\<rparr>"

definition IpNetAddr_sockaddr :: "(sockaddr \<Rightarrow> cstring) \<Rightarrow> sockaddr \<Rightarrow> net_addr" where
  "IpNetAddr_sockaddr inet_ntop a = IpNetAddr (ip_from_sockaddr inet_ntop a)"

definition Ip6NetAddr_sockaddr :: "(sockaddr \<Rightarrow> cstring) \<Rightarrow> sockaddr \<Rightarrow> net_addr" where
  "Ip6NetAddr_sockaddr inet_ntop a = Ip6NetAddr (ip_from_sockaddr inet_ntop a)"

section \<open>Virtual functions\<close>

text \<open>One definition per override, and the call through the base class.\<close>

definition IpNetAddr_getFamily :: "ip_net_addr \<Rightarrow> nat" where
  [simp]: "IpNetAddr_getFamily a = sin_family (m_addr a)"

definition Ip6NetAddr_getFamily :: "ip_net_addr \<Rightarrow> nat" where
  [simp]: "Ip6NetAddr_getFamily a = sin_family (m_addr a)"

definition UnixNetAddr_getFamily :: "unix_net_addr \<Rightarrow> nat" where
  [simp]: "UnixNetAddr_getFamily a = sun_family a"

fun getFamily :: "net_addr \<Rightarrow> nat" where
  "getFamily (IpNetAddr a) = IpNetAddr_getFamily a"
| "getFamily (Ip6NetAddr a) = Ip6NetAddr_getFamily a"
| "getFamily (UnixNetAddr a) = UnixNetAddr_getFamily a"

definition IpNetAddr_toString :: "ip_net_addr \<Rightarrow> cstring" where
  [simp]: "IpNetAddr_toString a = m_ip a @ [58] @ to_string (unat (m_port a))"

definition Ip6NetAddr_toString :: "ip_net_addr \<Rightarrow> cstring" where
  [simp]: "Ip6NetAddr_toString a = [91] @ m_ip a @ [93, 58] @ to_string (unat (m_port a))"

definition UnixNetAddr_toString :: "unix_net_addr \<Rightarrow> cstring" where
  [simp]: "UnixNetAddr_toString a = m_path a"

fun toString :: "net_addr \<Rightarrow> cstring" where
  "toString (IpNetAddr a) = IpNetAddr_toString a"
| "toString (Ip6NetAddr a) = Ip6NetAddr_toString a"
| "toString (UnixNetAddr a) = UnixNetAddr_toString a"

text \<open>\<open>operator bool\<close>.  \<open>m_port\<close> is a \<open>uint16_t\<close>, promoted to \<open>int\<close> for the comparisons.\<close>

definition ip_valid :: "nat \<Rightarrow> pton \<Rightarrow> ip_net_addr \<Rightarrow> bool" where
  "ip_valid family inet_pton a =
     (if m_ip a = [] \<or> uint (m_port a) < 0 \<or> uint (m_port a) > 65535 then False
      else if sin_family (m_addr a) \<noteq> family then False
      else if inet_pton family (m_ip a) = None then False
      else True)"

definition UnixNetAddr_valid :: "(cstring \<Rightarrow> bool) \<Rightarrow> unix_net_addr \<Rightarrow> bool" where
  [simp]: "UnixNetAddr_valid exists_file a =
     (if m_path a = [] then False
      else if sun_family a \<noteq> AF_UNIX then False
      else if exists_file (m_path a) then False
      else True)"

fun addr_valid :: "pton \<Rightarrow> (cstring \<Rightarrow> bool) \<Rightarrow> net_addr \<Rightarrow> bool" where
  "addr_valid inet_pton exists_file (IpNetAddr a) = ip_valid AF_INET inet_pton a"
| "addr_valid inet_pton exists_file (Ip6NetAddr a) = ip_valid AF_INET6 inet_pton a"
| "addr_valid inet_pton exists_file (UnixNetAddr a) = UnixNetAddr_valid exists_file a"

section \<open>Printing and reading ports\<close>

lemma unat_digit: "d < 10 \<Longrightarrow> unat (of_nat (48 + d) :: byte) = 48 + d"
  by (simp only: unsigned_of_nat) (simp add: take_bit_nat_eq_self)

lemma dec_value_snoc: "dec_value (s @ [c]) = 10 * dec_value s + (unat c - 48)"
  by (simp add: dec_value_def)

lemma to_string_facts:
  "dec_value (to_string n) = n \<and> (\<forall>c \<in> set (to_string n). dec_digit c) \<and> to_string n \<noteq> []"
proof (induction n rule: to_string.induct)
  case (1 n)
  show ?case
  proof (cases "n < 10")
    case True
    then show ?thesis
      using unat_digit [of n] dec_value_snoc [of "[]" "of_nat (48 + n)"]
      by (simp add: to_string.simps [of n] dec_digit_def dec_value_def del: of_nat_add)
  next
    case False
    have d: "unat (of_nat (48 + n mod 10) :: byte) = 48 + n mod 10"
      by (rule unat_digit) simp
    then have "dec_digit (of_nat (48 + n mod 10))" by (simp add: dec_digit_def del: of_nat_add)
    with False "1.IH" [OF False] d show ?thesis
      by (auto simp: to_string.simps [of n] dec_value_snoc simp del: of_nat_add)
  qed
qed

lemma stoi_digits:
  assumes "s \<noteq> []" and "\<forall>c \<in> set s. dec_digit c" and "int (dec_value s) \<le> int32_max"
  shows "stoi s = Inr (int (dec_value s))"
proof -
  obtain c r where s: "s = c # r" using assms(1) by (cases s) auto
  have c: "dec_digit c" using assms(2) s by simp
  then have ns: "\<not> is_space c" and "c \<noteq> 45" and "c \<noteq> 43"
    by (auto simp: dec_digit_def is_space_def)
  moreover have "takeWhile dec_digit s = s" using assms(2) by (simp add: takeWhile_eq_all_conv)
  ultimately show ?thesis
    using assms(3) s by (simp add: stoi_def fits_int32_def)
qed

lemma stoi_to_string: "n < 65536 \<Longrightarrow> stoi (to_string n) = Inr (int n)"
  using stoi_digits [of "to_string n"] to_string_facts [of n] by simp

lemma stoi_to_string32: "int n \<le> int32_max \<Longrightarrow> stoi (to_string n) = Inr (int n)"
  using stoi_digits [of "to_string n"] to_string_facts [of n] by simp

lemma find_last_of_split:
  assumes "c \<notin> set t"
  shows "find_last_of c (s @ [c] @ t) = Some (length s)"
proof -
  have "takeWhile (\<lambda>x. x \<noteq> c) (rev (s @ [c] @ t)) = rev t"
    using assms by (simp add: takeWhile_append2 takeWhile_append)
  then show ?thesis by (simp add: find_last_of_def)
qed

lemma colon_not_in_number: "58 \<notin> set (to_string n)"
  using to_string_facts [of n] by (auto simp: dec_digit_def)

lemma ip_from_text_split:
  assumes "stoi t = Inr v" and "58 \<notin> set t"
  shows "ip_from_text family n inet_pton (ip @ [58] @ t) =
     Inr (ip_from_parts family n inet_pton ip (word_of_int v))"
  using find_last_of_split [OF assms(2), of ip] assms(1) by (simp add: ip_from_text_def)

lemma toString_ip_parts:
  "inet_pton AF_INET ip = Some bits \<Longrightarrow>
     toString (IpNetAddr_parts inet_pton ip port) = ip @ [58] @ to_string (unat port)"
  by (simp add: IpNetAddr_parts_def ip_from_parts_def)

lemma toString_ip6_parts:
  "inet_pton AF_INET6 ip = Some bits \<Longrightarrow>
     toString (Ip6NetAddr_parts inet_pton ip port) = (91 # ip @ [93]) @ [58] @ to_string (unat port)"
  by (simp add: Ip6NetAddr_parts_def ip_from_parts_def)

lemma uint_port_bounds: "0 \<le> uint (p :: 16 word)" "uint (p :: 16 word) \<le> 65535"
  using uint_range_size [of p] by (simp_all add: word_size)

lemma unat_port_bound: "unat (p :: 16 word) < 65536"
  using uint_port_bounds [of p] by (simp flip: nat_uint_eq)

lemma ip_parts_valid:
  "inet_pton family ip = Some bits \<Longrightarrow> ip \<noteq> [] \<Longrightarrow>
     ip_valid family inet_pton (ip_from_parts family n inet_pton ip port)"
  using uint_port_bounds [of port] by (simp add: ip_from_parts_def ip_valid_def not_less)

lemma ip_text_print:
  "int n \<le> int32_max \<Longrightarrow> ip_from_text family k inet_pton (ip @ [58] @ to_string n) =
     Inr (ip_from_parts family k inet_pton ip (word_of_nat n))"
  by (simp only: ip_from_text_split [OF stoi_to_string32 colon_not_in_number] of_int_of_nat_eq)

text \<open>The system calls used by the witnesses: a host that knows the address \<open>1.2.3.4\<close> and the
  IPv6 loopback \<open>::1\<close>.\<close>

definition sample_pton :: pton where
  "sample_pton family ip =
     (if family = AF_INET \<and> ip = ascii ''1.2.3.4'' then Some [1, 2, 3, 4]
      else if family = AF_INET6 \<and> ip = ascii ''::1'' then Some (replicate 15 0 @ [1])
      else None)"

section \<open>Properties\<close>

text \<open>
  Printing an IPv4 address and reading the text again gives the same address, for every address
  the operating system accepts and every port; the address passes the validity check and has the
  IPv4 family.
\<close>

theorem ipv4_text_roundtrip:
  assumes "inet_pton AF_INET ip = Some bits" and "ip \<noteq> []"
  shows "IpNetAddr_text inet_pton (toString (IpNetAddr_parts inet_pton ip port))
           = Inr (IpNetAddr_parts inet_pton ip port)
       \<and> addr_valid inet_pton exists_file (IpNetAddr_parts inet_pton ip port)
       \<and> getFamily (IpNetAddr_parts inet_pton ip port) = AF_INET"
proof -
  have n: "int (unat port) \<le> int32_max" using unat_port_bound [of port] by linarith
  have "IpNetAddr_text inet_pton (toString (IpNetAddr_parts inet_pton ip port))
          = Inr (IpNetAddr_parts inet_pton ip port)"
    unfolding toString_ip_parts [of inet_pton, OF assms(1)] IpNetAddr_text_def ip_text_print [OF n]
    by (simp add: IpNetAddr_parts_def)
  moreover have "addr_valid inet_pton exists_file (IpNetAddr_parts inet_pton ip port)"
    using ip_parts_valid [of inet_pton, OF assms] by (simp add: IpNetAddr_parts_def)
  moreover have "getFamily (IpNetAddr_parts inet_pton ip port) = AF_INET"
    using assms(1) by (simp add: IpNetAddr_parts_def ip_from_parts_def)
  ultimately show ?thesis by blast
qed

theorem ipv4_text_roundtrip_witness:
  "IpNetAddr_text sample_pton (toString (IpNetAddr_parts sample_pton (ascii ''1.2.3.4'') 8080))
     = Inr (IpNetAddr_parts sample_pton (ascii ''1.2.3.4'') 8080)"
  using ipv4_text_roundtrip [of sample_pton "ascii ''1.2.3.4''" "[1, 2, 3, 4]" 8080]
  by (simp add: sample_pton_def)

text \<open>
  The port of an address text is not range-checked.  Any decimal number that fits an \<open>int\<close> is
  accepted and stored modulo 65536, and the address is then valid: the comparison of \<open>m_port\<close> with
  65535 in \<open>operator bool\<close> can never fail.
\<close>

theorem port_text_wraps:
  assumes "inet_pton AF_INET ip = Some bits" and "ip \<noteq> []" and "int n \<le> int32_max"
  shows "\<exists>a. IpNetAddr_text inet_pton (ip @ [58] @ to_string n) = Inr (IpNetAddr a)
           \<and> unat (m_port a) = n mod 65536
           \<and> addr_valid inet_pton exists_file (IpNetAddr a)"
proof -
  let ?a = "ip_from_parts AF_INET 4 inet_pton ip (word_of_nat n)"
  have "IpNetAddr_text inet_pton (ip @ [58] @ to_string n) = Inr (IpNetAddr ?a)"
    unfolding IpNetAddr_text_def ip_text_print [OF assms(3)] by simp
  moreover have "unat (m_port ?a) = n mod 65536"
    using assms(1) by (simp add: ip_from_parts_def unsigned_of_nat take_bit_eq_mod)
  moreover have "addr_valid inet_pton exists_file (IpNetAddr ?a)"
    using ip_parts_valid [of inet_pton, OF assms(1,2)] by simp
  ultimately show ?thesis by blast
qed

theorem port_text_wraps_witness:
  "\<exists>a. IpNetAddr_text sample_pton (ascii ''1.2.3.4'' @ [58] @ to_string 73616) = Inr (IpNetAddr a)
     \<and> unat (m_port a) = 8080 \<and> addr_valid sample_pton (\<lambda>_. False) (IpNetAddr a)"
  using port_text_wraps [of sample_pton "ascii ''1.2.3.4''" "[1, 2, 3, 4]" 73616 "\<lambda>_. False"]
  by (simp add: sample_pton_def)

text \<open>
  The text that \<open>Ip6NetAddr::toString\<close> prints for a valid IPv6 address, \<open>[ip]:port\<close>, is not a
  text its own constructor reads: the brackets stay in the host part, \<open>inet_pton\<close> rejects it, and
  the result is an invalid address with an empty host.
\<close>

theorem ipv6_text_not_readable:
  assumes "\<And>s. inet_pton AF_INET6 (91 # s) = None"
    and "inet_pton AF_INET6 ip = Some bits" and "ip \<noteq> []"
  shows "addr_valid inet_pton exists_file (Ip6NetAddr_parts inet_pton ip port)
       \<and> (\<exists>a. Ip6NetAddr_text inet_pton (toString (Ip6NetAddr_parts inet_pton ip port))
                = Inr (Ip6NetAddr a)
            \<and> m_ip a = [] \<and> m_port a = port \<and> \<not> addr_valid inet_pton exists_file (Ip6NetAddr a))"
proof -
  let ?a = "ip_from_parts AF_INET6 16 inet_pton (91 # ip @ [93]) port"
  have n: "int (unat port) \<le> int32_max" using unat_port_bound [of port] by linarith
  have "Ip6NetAddr_text inet_pton (toString (Ip6NetAddr_parts inet_pton ip port)) = Inr (Ip6NetAddr ?a)"
    unfolding toString_ip6_parts [of inet_pton, OF assms(2)] Ip6NetAddr_text_def ip_text_print [OF n]
    by simp
  moreover have "m_ip ?a = [] \<and> m_port ?a = port"
    using assms(1) by (simp add: ip_from_parts_def)
  moreover from this have "\<not> addr_valid inet_pton exists_file (Ip6NetAddr ?a)"
    by (simp add: ip_valid_def)
  moreover have "addr_valid inet_pton exists_file (Ip6NetAddr_parts inet_pton ip port)"
    using ip_parts_valid [of inet_pton, OF assms(2,3)] by (simp add: Ip6NetAddr_parts_def)
  ultimately show ?thesis by blast
qed

theorem ipv6_text_not_readable_witness:
  "addr_valid sample_pton (\<lambda>_. False) (Ip6NetAddr_parts sample_pton (ascii ''::1'') 80)
   \<and> (\<exists>a. Ip6NetAddr_text sample_pton (toString (Ip6NetAddr_parts sample_pton (ascii ''::1'') 80))
             = Inr (Ip6NetAddr a)
         \<and> \<not> addr_valid sample_pton (\<lambda>_. False) (Ip6NetAddr a))"
  using ipv6_text_not_readable [of sample_pton "ascii ''::1''" "replicate 15 0 @ [1]" "\<lambda>_. False" 80]
  by (force simp: sample_pton_def ascii_def)

end
