(* ===== verification/RpcController.thy ===== *)
theory RpcController
  imports TinyPBProtocol NetAddr
begin

text \<open>
  The per-call controller (\<open>include/rapidrpc/net/rpc/rpc_controller.h\<close>,
  \<open>src/net/rpc/rpc_controller.cc\<close>) and the thread's runtime context (\<open>src/common/runtime.cc\<close>):
  what a call reports back, and the message id and method name that the log lines of a handler
  carry.
\<close>

section \<open>The controller\<close>

record rpc_controller =
  rc_error_code :: int32
  rc_error_info :: cstring
  rc_msg_id :: cstring
  m_is_failed :: bool
  m_is_canceled :: bool
  rc_local_addr :: "net_addr option"
  rc_peer_addr :: "net_addr option"
  m_timeout :: int

definition RpcController_new :: rpc_controller where
  "RpcController_new =
     \<lparr>rc_error_code = 0, rc_error_info = [], rc_msg_id = [], m_is_failed = False,
      m_is_canceled = False, rc_local_addr = None, rc_peer_addr = None, m_timeout = 1000\<rparr>"

definition Reset :: "rpc_controller \<Rightarrow> rpc_controller" where
  "Reset c = c\<lparr>rc_error_code := 0, rc_error_info := [], rc_msg_id := [], m_is_failed := False,
     m_is_canceled := False, rc_local_addr := None, rc_peer_addr := None, m_timeout := 1000\<rparr>"

definition Failed :: "rpc_controller \<Rightarrow> bool" where
  "Failed c = m_is_failed c"

definition ErrorText :: "rpc_controller \<Rightarrow> cstring" where
  "ErrorText c = rc_error_info c"

definition StartCancel :: "rpc_controller \<Rightarrow> rpc_controller" where
  "StartCancel c = c\<lparr>m_is_canceled := True\<rparr>"

definition SetFailed :: "cstring \<Rightarrow> rpc_controller \<Rightarrow> rpc_controller" where
  "SetFailed reason c = c\<lparr>m_is_failed := True, rc_error_info := reason\<rparr>"

definition IsCanceled :: "rpc_controller \<Rightarrow> bool" where
  "IsCanceled c = m_is_canceled c"

text \<open>The two overloads of \<open>SetError\<close>: by number, and by enumerator.\<close>

definition SetErrorCode :: "int32 \<Rightarrow> cstring \<Rightarrow> rpc_controller \<Rightarrow> rpc_controller" where
  "SetErrorCode err info c = c\<lparr>rc_error_code := err, rc_error_info := info, m_is_failed := True\<rparr>"

definition SetError :: "Error \<Rightarrow> cstring \<Rightarrow> rpc_controller \<Rightarrow> rpc_controller" where
  "SetError err info c =
     c\<lparr>rc_error_code := error_code err, rc_error_info := info, m_is_failed := True\<rparr>"

definition GetErrorCode :: "rpc_controller \<Rightarrow> int32" where
  "GetErrorCode c = rc_error_code c"

definition GetErrorInfo :: "rpc_controller \<Rightarrow> cstring" where
  "GetErrorInfo c = rc_error_info c"

definition SetMsgId :: "cstring \<Rightarrow> rpc_controller \<Rightarrow> rpc_controller" where
  "SetMsgId s c = c\<lparr>rc_msg_id := s\<rparr>"

definition GetMsgId :: "rpc_controller \<Rightarrow> cstring" where
  "GetMsgId c = rc_msg_id c"

definition SetLocalAddr :: "net_addr option \<Rightarrow> rpc_controller \<Rightarrow> rpc_controller" where
  "SetLocalAddr a c = c\<lparr>rc_local_addr := a\<rparr>"

definition GetLocalAddr :: "rpc_controller \<Rightarrow> net_addr option" where
  "GetLocalAddr c = rc_local_addr c"

definition SetPeerAddr :: "net_addr option \<Rightarrow> rpc_controller \<Rightarrow> rpc_controller" where
  "SetPeerAddr a c = c\<lparr>rc_peer_addr := a\<rparr>"

definition GetPeerAddr :: "rpc_controller \<Rightarrow> net_addr option" where
  "GetPeerAddr c = rc_peer_addr c"

definition SetTimeout :: "int \<Rightarrow> rpc_controller \<Rightarrow> rpc_controller" where
  "SetTimeout t c = c\<lparr>m_timeout := t\<rparr>"

definition GetTimeout :: "rpc_controller \<Rightarrow> int" where
  "GetTimeout c = m_timeout c"

lemmas controller_defs = Failed_def ErrorText_def StartCancel_def SetFailed_def IsCanceled_def
  SetErrorCode_def SetError_def GetErrorCode_def GetErrorInfo_def SetMsgId_def GetMsgId_def
  SetLocalAddr_def GetLocalAddr_def SetPeerAddr_def GetPeerAddr_def SetTimeout_def GetTimeout_def

lemma Reset_new: "Reset c = RpcController_new"
  by (simp add: Reset_def RpcController_new_def)

section \<open>The runtime context of a thread\<close>

record runtime =
  rt_msg_id :: cstring
  rt_method_name :: cstring

definition Runtime_new :: runtime where
  "Runtime_new = \<lparr>rt_msg_id = [], rt_method_name = []\<rparr>"

text \<open>\<open>GetRuntime\<close> creates the thread's object on first use.\<close>

fun GetRuntime :: "runtime option \<Rightarrow> runtime" where
  "GetRuntime (Some r) = r"
| "GetRuntime None = Runtime_new"

definition Runtime_setMsgId :: "cstring \<Rightarrow> runtime \<Rightarrow> runtime" where
  "Runtime_setMsgId s r = r\<lparr>rt_msg_id := s\<rparr>"

definition Runtime_setMethodName :: "cstring \<Rightarrow> runtime \<Rightarrow> runtime" where
  "Runtime_setMethodName s r = r\<lparr>rt_method_name := s\<rparr>"

end
