(* ===== verification/Dispatcher.thy ===== *)
theory Dispatcher
  imports RpcController
begin

text \<open>
  The server's dispatcher (\<open>include/rapidrpc/net/rpc/dispatcher.h\<close>,
  \<open>src/net/rpc/dispatcher.cc\<close>): the table of registered services, and \<open>dispatch\<close>, which turns a
  request message into a response message.  Protobuf services and messages are generated or
  third-party code, so a service is a record of the functions the dispatcher calls; a handler
  works on the application state \<open>'app\<close> and fills in the response object.
\<close>

section \<open>State\<close>

text \<open>What the dispatcher uses of a protobuf service: its full name, the lookup of a method
  descriptor (represented by a number), the two prototypes with their parser and serializer, and
  the call itself (\<open>done\<close> is null, so the handler has filled in the response on return).\<close>

record ('app, 'pb) service =
  full_name :: cstring
  FindMethodByName :: "cstring \<Rightarrow> nat option"
  ParseRequest :: "nat \<Rightarrow> cstring \<Rightarrow> 'pb option"
  NewResponse :: "nat \<Rightarrow> 'pb"
  CallMethod :: "nat \<Rightarrow> rpc_controller \<Rightarrow> runtime \<Rightarrow> 'pb \<Rightarrow> 'pb \<Rightarrow> 'app \<Rightarrow> 'pb \<times> 'app"
  SerializeAsString :: "'pb \<Rightarrow> cstring"

record ('app, 'pb) dispatcher =
  m_services :: "cstring \<rightharpoonup> ('app, 'pb) service"

definition Dispatcher_new :: "('app, 'pb) dispatcher" where
  "Dispatcher_new = \<lparr>m_services = Map.empty\<rparr>"

definition GetDispatcher :: "('app, 'pb) dispatcher option \<Rightarrow> ('app, 'pb) dispatcher" where
  "GetDispatcher g_dispatcher = (case g_dispatcher of Some d \<Rightarrow> d | None \<Rightarrow> Dispatcher_new)"

section \<open>Operations\<close>

definition registerService ::
  "('app, 'pb) service \<Rightarrow> ('app, 'pb) dispatcher \<Rightarrow> ('app, 'pb) dispatcher" where
  "registerService s d = d\<lparr>m_services := (m_services d)(full_name s \<mapsto> s)\<rparr>"

fun find_first_of :: "byte \<Rightarrow> cstring \<Rightarrow> nat option" where
  "find_first_of c [] = None"
| "find_first_of c (x # xs) = (if x = c then Some 0 else map_option Suc (find_first_of c xs))"

text \<open>The two names are out parameters, read only when the result is true.\<close>

definition parseServiceAndMethod :: "cstring \<Rightarrow> (cstring \<times> cstring) option" where
  "parseServiceAndMethod name =
     (case find_first_of 46 name of
        None \<Rightarrow> None
      | Some pos \<Rightarrow>
          (let service_name = take pos name;
               method_name = drop (pos + 1) name
           in if service_name = [] \<or> method_name = [] then None
              else Some (service_name, method_name)))"

definition dispatch_request :: "('app, 'pb) dispatcher \<Rightarrow> tinypb_protocol \<Rightarrow> tinypb_protocol
    \<Rightarrow> runtime \<times> 'app \<Rightarrow> tinypb_protocol \<times> runtime \<times> 'app" where
  "dispatch_request d req resp w =
     (let resp = setMethodName (m_method_name req) (setMsgId (m_msg_id req) resp) in
      case parseServiceAndMethod (m_method_name req) of
        None \<Rightarrow>
          (complete (setErrCodeAndInfo SYS_FAILED_PARSE_SERVICE_NAME
             (ascii ''invalid method name'') resp), w)
      | Some (service_name, method_name) \<Rightarrow>
          (case m_services d service_name of
             None \<Rightarrow>
               (complete (setErrCodeAndInfo SYS_SERVICE_NOT_FOUND
                  (ascii ''service not found'') resp), w)
           | Some service \<Rightarrow>
               (case FindMethodByName service method_name of
                  None \<Rightarrow>
                    (complete (setErrCodeAndInfo SYS_METHOD_NOT_FOUND
                       (ascii ''method not found'') resp), w)
                | Some method_desc \<Rightarrow>
                    (case ParseRequest service method_desc (m_pb_data req) of
                       None \<Rightarrow>
                         (complete (setErrCodeAndInfo SYS_FAILED_DESERIALIZE
                            (ascii ''deserialize request failed'') resp), w)
                     | Some func_req \<Rightarrow>
                         (let rpcController = SetMsgId (m_msg_id req)
                                (SetPeerAddr None (SetLocalAddr None RpcController_new));
                              rt = Runtime_setMethodName method_name
                                (Runtime_setMsgId (m_msg_id req) (fst w));
                              (func_resp, app) = CallMethod service method_desc rpcController rt
                                func_req (NewResponse service method_desc) (snd w);
                              pb_data = SerializeAsString service func_resp
                          in if pb_data = []
                             then (complete (setErrCodeAndInfo SYS_FAILED_SERIALIZE
                                    (ascii ''serialize response failed'') resp), rt, app)
                             else (complete (setPbData pb_data
                                    (setErrCodeAndInfo OK (ascii ''success'') resp)), rt, app))))))"

text \<open>\<open>dispatch\<close> casts its arguments first; a message of another protocol is a null pointer that
  is then dereferenced.\<close>

definition dispatch :: "('app, 'pb) dispatcher \<Rightarrow> abstract_protocol \<Rightarrow> abstract_protocol
    \<Rightarrow> runtime \<times> 'app \<Rightarrow> fault + tinypb_protocol \<times> runtime \<times> 'app" where
  "dispatch d request response w =
     (case (cast_TinyPB request, cast_TinyPB response) of
        (Some req, Some resp) \<Rightarrow> Inr (dispatch_request d req resp w)
      | _ \<Rightarrow> Inl NullPointer)"

section \<open>Names\<close>

lemma find_first_of_None: "find_first_of c xs = None \<longleftrightarrow> c \<notin> set xs"
  by (induction xs) auto

lemma find_first_of_append: "c \<notin> set s \<Longrightarrow> find_first_of c (s @ c # t) = Some (length s)"
  by (induction s) auto

lemma find_first_of_SomeD:
  "find_first_of c xs = Some i \<Longrightarrow> xs = take i xs @ c # drop (Suc i) xs \<and> c \<notin> set (take i xs)"
  by (induction xs arbitrary: i) (auto split: if_splits)

text \<open>The parser accepts exactly the names with a non-empty service part without a dot and a
  non-empty method part, and splits at the first dot.\<close>

lemma parseServiceAndMethod_iff:
  "parseServiceAndMethod n = Some (s, m) \<longleftrightarrow> n = s @ [46] @ m \<and> 46 \<notin> set s \<and> s \<noteq> [] \<and> m \<noteq> []"
proof
  assume "parseServiceAndMethod n = Some (s, m)"
  then obtain i where i: "find_first_of 46 n = Some i" and "s = take i n" "m = drop (Suc i) n"
      "s \<noteq> []" "m \<noteq> []"
    by (auto simp: parseServiceAndMethod_def Let_def split: option.splits if_splits)
  with find_first_of_SomeD [OF i] show "n = s @ [46] @ m \<and> 46 \<notin> set s \<and> s \<noteq> [] \<and> m \<noteq> []"
    by simp
next
  assume "n = s @ [46] @ m \<and> 46 \<notin> set s \<and> s \<noteq> [] \<and> m \<noteq> []"
  then show "parseServiceAndMethod n = Some (s, m)"
    using find_first_of_append [of 46 s m] by (simp add: parseServiceAndMethod_def)
qed

lemma parseServiceAndMethod_no_dot:
  "parseServiceAndMethod n = Some (s, m) \<Longrightarrow> 46 \<notin> set s"
  by (simp add: parseServiceAndMethod_iff)

section \<open>When a request reaches a handler\<close>

definition callable :: "('app, 'pb) dispatcher \<Rightarrow> tinypb_protocol \<Rightarrow> ('app, 'pb) service \<Rightarrow> nat \<Rightarrow> 'pb
    \<Rightarrow> cstring \<Rightarrow> bool" where
  "callable d req service method_desc func_req method_name \<longleftrightarrow>
     (\<exists>service_name. m_method_name req = service_name @ [46] @ method_name
        \<and> 46 \<notin> set service_name \<and> service_name \<noteq> [] \<and> method_name \<noteq> []
        \<and> m_services d service_name = Some service
        \<and> FindMethodByName service method_name = Some method_desc
        \<and> ParseRequest service method_desc (m_pb_data req) = Some func_req)"

text \<open>The controller and the runtime context a handler is called with.\<close>

definition call_controller :: "tinypb_protocol \<Rightarrow> rpc_controller" where
  "call_controller req = RpcController_new\<lparr>rc_msg_id := m_msg_id req\<rparr>"

definition call_runtime :: "tinypb_protocol \<Rightarrow> cstring \<Rightarrow> runtime" where
  "call_runtime req method_name = \<lparr>rt_msg_id = m_msg_id req, rt_method_name = method_name\<rparr>"

definition reply_to :: "tinypb_protocol \<Rightarrow> Error \<Rightarrow> cstring \<Rightarrow> cstring \<Rightarrow> tinypb_protocol" where
  "reply_to req err info pb_data =
     complete (setPbData pb_data (setErrCodeAndInfo err info
       (setMethodName (m_method_name req) (setMsgId (m_msg_id req) TinyPBProtocol_new))))"

lemma reply_to_facts [simp]:
  "m_msg_id (reply_to req err info pb) = m_msg_id req"
  "m_method_name (reply_to req err info pb) = m_method_name req"
  "m_err_code (reply_to req err info pb) = error_code err"
  "m_err_info (reply_to req err info pb) = info"
  "m_pb_data (reply_to req err info pb) = pb"
  "lengths_ok (reply_to req err info pb)"
  by (simp_all add: reply_to_def setter_defs lengths_ok_def pk_size_def)

lemma call_controller_eq:
  "SetMsgId (m_msg_id req) (SetPeerAddr None (SetLocalAddr None RpcController_new)) = call_controller req"
  by (simp add: call_controller_def controller_defs RpcController_new_def)

lemma call_runtime_eq:
  "Runtime_setMethodName name (Runtime_setMsgId (m_msg_id req) r) = call_runtime req name"
  by (simp add: call_runtime_def Runtime_setMethodName_def Runtime_setMsgId_def)

lemma plain_reply:
  "complete (setErrCodeAndInfo err info (setMethodName (m_method_name req)
     (setMsgId (m_msg_id req) TinyPBProtocol_new))) = reply_to req err info []"
  by (simp add: reply_to_def setter_defs TinyPBProtocol_new_def)

text \<open>Either the request is refused with one of four errors and nothing happens, or the handler is
  called exactly once, with the state the dispatcher was given.\<close>

lemma dispatch_cases [consumes 0, case_names refused called]:
  obtains (refused) err info where
      "dispatch_request d req TinyPBProtocol_new w = (reply_to req err info [], w)"
      "err \<in> {SYS_FAILED_PARSE_SERVICE_NAME, SYS_SERVICE_NOT_FOUND, SYS_METHOD_NOT_FOUND,
               SYS_FAILED_DESERIALIZE}"
      "info \<noteq> []" "\<nexists>s md fr m. callable d req s md fr m"
  | (called) service md fr name where "callable d req service md fr name"
proof (cases "parseServiceAndMethod (m_method_name req)")
  case None
  then have "\<nexists>s md fr m. callable d req s md fr m"
    using parseServiceAndMethod_iff [of "m_method_name req"] by (auto simp: callable_def)
  with None show thesis
    by (intro refused) (auto simp: dispatch_request_def plain_reply)
next
  case (Some sm)
  then obtain s m where sm: "parseServiceAndMethod (m_method_name req) = Some (s, m)"
    by (cases sm) auto
  note split = sm [unfolded parseServiceAndMethod_iff]
  have same: "s' = s \<and> m' = m"
    if "m_method_name req = s' @ [46] @ m'" "46 \<notin> set s'" "s' \<noteq> []" "m' \<noteq> []" for s' m'
    using sm parseServiceAndMethod_iff [of "m_method_name req" s' m'] that by simp
  show thesis
  proof (cases "m_services d s")
    case None
    then have "\<nexists>s md fr m. callable d req s md fr m" using same unfolding callable_def by fastforce
    with None sm show thesis by (intro refused) (auto simp: dispatch_request_def plain_reply)
  next
    case (Some service)
    note svc = Some
    show thesis
    proof (cases "FindMethodByName service m")
      case None
      then have "\<nexists>s md fr m. callable d req s md fr m"
        using same svc unfolding callable_def by fastforce
      with None svc sm show thesis by (intro refused) (auto simp: dispatch_request_def plain_reply)
    next
      case (Some md)
      note md = Some
      show thesis
      proof (cases "ParseRequest service md (m_pb_data req)")
        case None
        then have "\<nexists>s md fr m. callable d req s md fr m"
          using same svc md unfolding callable_def by fastforce
        with None md svc sm show thesis by (intro refused) (auto simp: dispatch_request_def plain_reply)
      next
        case (Some fr)
        with split svc md show thesis by (intro called [of service md fr m]) (auto simp: callable_def)
      qed
    qed
  qed
qed

lemma dispatch_called:
  assumes "callable d req service md fr name"
  shows "dispatch_request d req TinyPBProtocol_new w =
     (let (func_resp, app) = CallMethod service md (call_controller req) (call_runtime req name) fr
            (NewResponse service md) (snd w);
          pb = SerializeAsString service func_resp
      in ((if pb = [] then reply_to req SYS_FAILED_SERIALIZE (ascii ''serialize response failed'') []
           else reply_to req OK (ascii ''success'') pb),
          call_runtime req name, app))"
proof -
  from assms obtain s where s: "parseServiceAndMethod (m_method_name req) = Some (s, name)"
      and "m_services d s = Some service" "FindMethodByName service name = Some md"
      "ParseRequest service md (m_pb_data req) = Some fr"
    unfolding callable_def parseServiceAndMethod_iff by blast
  then show ?thesis
    by (simp add: dispatch_request_def Let_def call_controller_eq call_runtime_eq plain_reply split_def)
      (simp add: reply_to_def)
qed

lemma dispatch_fresh:
  "dispatch d (TinyPB req) (TinyPB TinyPBProtocol_new) w = Inr (dispatch_request d req TinyPBProtocol_new w)"
  by (simp add: dispatch_def)

section \<open>Properties\<close>

text \<open>
  C17: Whatever the request, its method name and the handler, \<open>dispatch\<close> on a fresh response returns
  a message that echoes the id and the method name of the request, whose length fields are right
  and which carries an error text; it has a payload exactly when the error code is 0.
\<close>

theorem dispatch_response_shape:
  "\<exists>resp w'. dispatch d (TinyPB req) (TinyPB TinyPBProtocol_new) w = Inr (resp, w')
     \<and> m_msg_id resp = m_msg_id req \<and> m_method_name resp = m_method_name req
     \<and> lengths_ok resp \<and> m_err_info resp \<noteq> []
     \<and> (m_pb_data resp \<noteq> [] \<longleftrightarrow> m_err_code resp = 0)"
proof (cases rule: dispatch_cases [of d req w])
  case (refused err info)
  then show ?thesis by (auto simp: dispatch_fresh)
next
  case (called service md fr name)
  show ?thesis
    unfolding dispatch_fresh dispatch_called [OF called] by (simp add: split_def Let_def)
qed

text \<open>
  The handler is reached exactly when the method name is \<open>service.method\<close> with a registered
  service, a known method and a request that parses; the error code tells.  A request that is
  refused before leaves the application state and the runtime context as they were.
\<close>

theorem dispatch_reaches_handler:
  "case dispatch d (TinyPB req) (TinyPB TinyPBProtocol_new) w of
     Inr (resp, w') \<Rightarrow>
       ((\<exists>service md fr name. callable d req service md fr name)
          \<longleftrightarrow> m_err_code resp \<in> {error_code OK, error_code SYS_FAILED_SERIALIZE})
       \<and> ((\<exists>service md fr name. callable d req service md fr name) \<or> w' = w)
   | Inl e \<Rightarrow> False"
proof (cases rule: dispatch_cases [of d req w])
  case (refused err info)
  then show ?thesis by (auto simp: dispatch_fresh)
next
  case (called service md fr name)
  then show ?thesis
    unfolding dispatch_fresh dispatch_called [OF called] by (auto simp: split_def Let_def)
qed

text \<open>
  A request that reaches the handler is answered with the handler's own serialized response,
  computed from the parsed request, the caller's id and the current application state, whose new
  value is kept.  An empty serialization, which is how protobuf encodes a message whose fields all
  have their defaults, is reported as an error although the handler ran.
\<close>

theorem dispatch_returns_handler_result:
  assumes "callable d req service md fr name"
    and "CallMethod service md (call_controller req) (call_runtime req name) fr
           (NewResponse service md) app = (func_resp, app')"
  shows "dispatch d (TinyPB req) (TinyPB TinyPBProtocol_new) (rt, app) =
     Inr (if SerializeAsString service func_resp = []
          then reply_to req SYS_FAILED_SERIALIZE (ascii ''serialize response failed'') []
          else reply_to req OK (ascii ''success'') (SerializeAsString service func_resp),
          call_runtime req name, app')"
  using assms(2) by (simp add: dispatch_fresh dispatch_called [OF assms(1)])

text \<open>A service with one method \<open>inc\<close> that adds the length of its request to a counter and answers
  with the request.\<close>

definition echo_service :: "(nat, cstring) service" where
  "echo_service =
     \<lparr>full_name = ascii ''Echo'', FindMethodByName = (\<lambda>m. if m = ascii ''inc'' then Some 0 else None),
      ParseRequest = (\<lambda>_ s. Some s), NewResponse = (\<lambda>_. []),
      CallMethod = (\<lambda>_ _ _ request _ n. (request, n + length request)),
      SerializeAsString = id\<rparr>"

definition echo_dispatcher :: "(nat, cstring) dispatcher" where
  "echo_dispatcher = registerService echo_service Dispatcher_new"

definition echo_request :: "cstring \<Rightarrow> tinypb_protocol" where
  "echo_request pb =
     TinyPBProtocol_new\<lparr>m_msg_id := ascii ''7'', m_method_name := ascii ''Echo.inc'', m_pb_data := pb\<rparr>"

lemma echo_callable: "callable echo_dispatcher (echo_request pb) echo_service 0 pb (ascii ''inc'')"
  unfolding callable_def
  by (rule exI [of _ "ascii ''Echo''"])
    (simp add: echo_dispatcher_def echo_request_def registerService_def echo_service_def
      Dispatcher_new_def ascii_def)

theorem dispatch_returns_handler_result_witness:
  "(\<exists>resp. dispatch echo_dispatcher (TinyPB (echo_request [8, 1])) (TinyPB TinyPBProtocol_new)
       (Runtime_new, 5) = Inr (resp, call_runtime (echo_request [8, 1]) (ascii ''inc''), 7)
     \<and> m_err_code resp = 0 \<and> m_pb_data resp = [8, 1])
   \<and> (\<exists>resp. dispatch echo_dispatcher (TinyPB (echo_request [])) (TinyPB TinyPBProtocol_new)
       (Runtime_new, 5) = Inr (resp, call_runtime (echo_request []) (ascii ''inc''), 5)
     \<and> m_err_code resp = error_code SYS_FAILED_SERIALIZE)"
  using dispatch_returns_handler_result [OF echo_callable, of "[8, 1]" 5 "[8, 1]" 7 Runtime_new]
    dispatch_returns_handler_result [OF echo_callable, of "[]" 5 "[]" 5 Runtime_new]
  by (simp add: echo_service_def)

text \<open>
  A service whose full name contains a dot, as every service of a protobuf package has, cannot
  be reached: registering it changes no answer of the dispatcher, because \<open>dispatch\<close> looks up what
  stands before the first dot.
\<close>

theorem dotted_service_unreachable:
  assumes "46 \<in> set (full_name service)"
  shows "dispatch (registerService service d) request response w = dispatch d request response w"
proof -
  have same: "m_services (registerService service d) s = m_services d s"
    if "parseServiceAndMethod n = Some (s, m)" for n s m
    using assms parseServiceAndMethod_no_dot [OF that] by (auto simp: registerService_def)
  have "dispatch_request (registerService service d) req resp w = dispatch_request d req resp w"
    for req resp
    using same [of "m_method_name req"]
    by (cases "parseServiceAndMethod (m_method_name req)") (auto simp: dispatch_request_def Let_def)
  then show ?thesis by (simp add: dispatch_def split: option.splits)
qed

theorem dotted_service_unreachable_witness:
  "46 \<in> set (ascii ''pkg.Echo'')
   \<and> dispatch (registerService (echo_service\<lparr>full_name := ascii ''pkg.Echo''\<rparr>) Dispatcher_new)
       (TinyPB (echo_request [8, 1])) (TinyPB TinyPBProtocol_new) (Runtime_new, 5)
     = dispatch (Dispatcher_new :: (nat, cstring) dispatcher) (TinyPB (echo_request [8, 1]))
         (TinyPB TinyPBProtocol_new) (Runtime_new, 5)"
  using dotted_service_unreachable [of "echo_service\<lparr>full_name := ascii ''pkg.Echo''\<rparr>"
      "Dispatcher_new :: (nat, cstring) dispatcher"]
  by (simp add: ascii_def)

end
