(* ===== verification/FdEvent.thy ===== *)
theory FdEvent
  imports RpcPrelude
begin

text \<open>
  File descriptors with callbacks (\<open>include/rapidrpc/net/fd_event.h\<close>, \<open>src/net/fd_event.cc\<close>), the
  eventfd that wakes a loop (\<open>src/net/wakeup_fd_event.cc\<close>) and the table that owns the \<open>FdEvent\<close>
  object of every descriptor (\<open>src/net/fd_event_group.cc\<close>).  A callback is a name of the closure
  the program binds: the closures are listed in \<open>handler\<close>.
\<close>

unbundle bit_operations_syntax

section \<open>FdEvent\<close>

text \<open>The closures the program registers: \<open>TcpConnection::onRead\<close> and \<open>onWrite\<close> with the
  connection object they are bound to, \<open>TcpServer::onAccept\<close>, \<open>Timer::onTimer\<close>, the wakeup lambda, and the lambda of
  \<open>TcpClient::connect\<close>, which captures the caller's connect callback.\<close>

datatype 'k handler = OnRead nat | OnWrite nat | OnAccept | OnTimer | OnWakeup | OnConnect 'k

datatype TriggerEvent = IN_EVENT | OUT_EVENT

definition EPOLLIN :: "32 word" where "EPOLLIN = 1"
definition EPOLLOUT :: "32 word" where "EPOLLOUT = 4"

text \<open>\<open>epoll_event\<close> is the interest mask and \<open>data.ptr\<close>, which is either null or the object
  itself.  \<open>fd_flags\<close> stands for the status flags the kernel keeps for the descriptor, which
  \<open>fcntl\<close> reads and sets; they begin as 0 when the number is given out and are gone when it is closed.\<close>

record 'cb fd_event =
  m_fd :: int
  m_events :: "32 word"
  m_data_ptr :: bool
  m_read_callback :: "'cb option"
  m_write_callback :: "'cb option"
  fd_flags :: "32 word"

definition FdEvent_new :: "int \<Rightarrow> 'cb fd_event" where
  "FdEvent_new fd =
     \<lparr>m_fd = fd, m_events = 0, m_data_ptr = False, m_read_callback = None, m_write_callback = None,
      fd_flags = 0\<rparr>"

text \<open>The constructor without an argument leaves the default member value \<open>-1\<close>.\<close>

definition FdEvent_default :: "'cb fd_event" where
  "FdEvent_default = FdEvent_new (- 1)"

definition getHandler :: "TriggerEvent \<Rightarrow> 'cb fd_event \<Rightarrow> 'cb option" where
  "getHandler event e = (case event of IN_EVENT \<Rightarrow> m_read_callback e | OUT_EVENT \<Rightarrow> m_write_callback e)"

definition listen :: "TriggerEvent \<Rightarrow> 'cb \<Rightarrow> 'cb fd_event \<Rightarrow> 'cb fd_event" where
  "listen event callback e =
     (let e = (case event of
                 IN_EVENT \<Rightarrow> e\<lparr>m_events := m_events e OR EPOLLIN, m_read_callback := Some callback\<rparr>
               | OUT_EVENT \<Rightarrow> e\<lparr>m_events := m_events e OR EPOLLOUT, m_write_callback := Some callback\<rparr>)
      in e\<lparr>m_data_ptr := True\<rparr>)"

definition clearEvent :: "TriggerEvent \<Rightarrow> 'cb fd_event \<Rightarrow> 'cb fd_event" where
  "clearEvent event e =
     (case event of
        IN_EVENT \<Rightarrow> e\<lparr>m_events := m_events e AND NOT EPOLLIN, m_read_callback := None\<rparr>
      | OUT_EVENT \<Rightarrow> e\<lparr>m_events := m_events e AND NOT EPOLLOUT, m_write_callback := None\<rparr>)"

text \<open>\<open>close\<close> closes the descriptor (the second component is the argument of \<open>::close\<close>, if it is
  called) and clears the mask and the pointer; it leaves the callbacks in place.\<close>

definition close_event :: "'cb fd_event \<Rightarrow> 'cb fd_event \<times> int option" where
  "close_event e =
     (e\<lparr>m_events := 0, m_data_ptr := False, fd_flags := (if m_fd e > 0 then 0 else fd_flags e)\<rparr>,
      (if m_fd e > 0 then Some (m_fd e) else None))"

text \<open>\<open>setNonBlocking\<close>: \<open>fcntl\<close> fails for a number that is not a descriptor.\<close>

definition O_NONBLOCK :: "32 word" where "O_NONBLOCK = 2048"

definition setNonBlocking :: "'cb fd_event \<Rightarrow> 'cb fd_event" where
  "setNonBlocking e =
     (if m_fd e < 0 then e
      else if fd_flags e AND O_NONBLOCK = 0 then e\<lparr>fd_flags := fd_flags e OR O_NONBLOCK\<rparr>
      else e)"

definition nonblocking :: "'cb fd_event \<Rightarrow> bool" where
  "nonblocking e \<longleftrightarrow> fd_flags e AND O_NONBLOCK \<noteq> 0"

section \<open>WakeupFdEvent\<close>

text \<open>The constructor stores the mask and the callback directly.\<close>

definition WakeupFdEvent_init :: "'k handler fd_event \<Rightarrow> 'k handler fd_event" where
  "WakeupFdEvent_init e = e\<lparr>m_events := EPOLLIN, m_read_callback := Some OnWakeup, m_data_ptr := True\<rparr>"

definition WakeupFdEvent_new :: "int \<Rightarrow> 'k handler fd_event" where
  "WakeupFdEvent_new fd = WakeupFdEvent_init (FdEvent_new fd)"

text \<open>\<open>wakeup\<close> and the read callback repeat a system call while it fails with \<open>EAGAIN\<close>.  The
  results of the successive calls are the argument; \<open>None\<close> means they all failed that way.\<close>

datatype io_result = Done int | Eagain | Eintr | Failed_io

fun retry_eagain :: "io_result list \<Rightarrow> io_result option" where
  "retry_eagain [] = None"
| "retry_eagain (Eagain # rs) = retry_eagain rs"
| "retry_eagain (r # rs) = Some r"

text \<open>\<open>wakeup\<close> adds one to the counter of the eventfd, unless the write fails for another reason;
  the callback reads the counter and so clears it.\<close>

definition WakeupFdEvent_wakeup :: "io_result list \<Rightarrow> nat \<Rightarrow> nat option" where
  "WakeupFdEvent_wakeup script counter =
     map_option (\<lambda>rt. case rt of Done _ \<Rightarrow> counter + 1 | _ \<Rightarrow> counter) (retry_eagain script)"

definition WakeupFdEvent_onRead :: "io_result list \<Rightarrow> nat \<Rightarrow> nat option" where
  "WakeupFdEvent_onRead script counter =
     map_option (\<lambda>rt. case rt of Done _ \<Rightarrow> 0 | _ \<Rightarrow> counter) (retry_eagain script)"

section \<open>FdEventGroup\<close>

type_synonym 'cb fd_event_group = "'cb fd_event list"

definition FdEventGroup_new :: "nat \<Rightarrow> 'cb fd_event_group" where
  "FdEventGroup_new sz = map (\<lambda>i. FdEvent_new (int i)) [0..<sz]"

definition GetGlobalFdEventGroup :: "'cb fd_event_group option \<Rightarrow> 'cb fd_event_group" where
  "GetGlobalFdEventGroup g_fd_event_group =
     (case g_fd_event_group of Some g \<Rightarrow> g | None \<Rightarrow> FdEventGroup_new 128)"

text \<open>\<open>fd * 1.5\<close> is computed in \<open>double\<close> and truncated towards zero.  A negative \<open>fd\<close> is a huge
  number as a \<open>size_t\<close>, and so is the negative size handed to \<open>resize\<close>.\<close>

definition grown_size :: "int \<Rightarrow> int" where
  "grown_size fd = (if fd \<ge> 0 then (fd * 3) div 2 else - ((- fd * 3) div 2))"

definition getFdEvent :: "'cb fd_event_group \<Rightarrow> int
    \<Rightarrow> fault + 'cb fd_event \<times> 'cb fd_event_group" where
  "getFdEvent events fd =
     (let sz = int (length events) in
      if fd < 0 \<or> fd \<ge> sz
      then
        let new_size = grown_size fd in
        if \<not> fits_int32 new_size then Inl IntOverflow
        else if new_size < 0 then Inl LengthError
        else
          let events = take (nat new_size) events
                @ map (\<lambda>i. FdEvent_new (int i)) [length events..<nat new_size]
          in if 0 \<le> fd \<and> fd < int (length events) then Inr (events ! nat fd, events) else Inl OutOfRange
      else Inr (events ! nat fd, events))"

section \<open>Lemmas\<close>

lemma m_fd_listen [simp]: "m_fd (listen ev cb e) = m_fd e"
  by (cases ev) (simp_all add: listen_def Let_def)

lemma m_fd_clearEvent [simp]: "m_fd (clearEvent ev e) = m_fd e"
  by (cases ev) (simp_all add: clearEvent_def)

lemma m_fd_close_event [simp]: "m_fd (fst (close_event e)) = m_fd e"
  by (simp add: close_event_def)

lemma m_fd_setNonBlocking [simp]: "m_fd (setNonBlocking e) = m_fd e"
  by (simp add: setNonBlocking_def)

definition listens :: "TriggerEvent \<Rightarrow> 'cb fd_event \<Rightarrow> bool" where
  "listens ev e = bit (m_events e) (case ev of IN_EVENT \<Rightarrow> 0 | OUT_EVENT \<Rightarrow> 2)"

lemma bit_EPOLLIN: "bit EPOLLIN n \<longleftrightarrow> n = 0"
  by (auto simp: EPOLLIN_def bit_1_iff)

lemma EPOLLOUT_push: "EPOLLOUT = push_bit 2 1"
  by (simp add: EPOLLOUT_def)

lemma bit_EPOLLOUT: "bit EPOLLOUT n \<longleftrightarrow> n = 2"
  unfolding EPOLLOUT_push bit_push_bit_iff bit_1_iff by auto

lemma listens_listen [simp]: "listens ev' (listen ev cb e) \<longleftrightarrow> ev' = ev \<or> listens ev' e"
  by (cases ev; cases ev')
    (auto simp: listens_def listen_def bit_or_iff bit_EPOLLIN bit_EPOLLOUT)

lemma listens_clearEvent [simp]: "listens ev' (clearEvent ev e) \<longleftrightarrow> ev' \<noteq> ev \<and> listens ev' e"
  by (cases ev; cases ev')
    (auto simp: listens_def clearEvent_def bit_and_iff bit_not_iff bit_EPOLLIN bit_EPOLLOUT
      dest: bit_imp_le_length)

lemma listens_close_event [simp]: "\<not> listens ev (fst (close_event e))"
  by (simp add: listens_def close_event_def)

lemma listens_new [simp]: "\<not> listens ev (FdEvent_new fd)"
  by (simp add: listens_def FdEvent_new_def)

lemma getHandler_listen [simp]:
  "getHandler ev' (listen ev cb e) = (if ev' = ev then Some cb else getHandler ev' e)"
  by (cases ev; cases ev') (simp_all add: getHandler_def listen_def)

lemma getHandler_clearEvent [simp]:
  "getHandler ev' (clearEvent ev e) = (if ev' = ev then None else getHandler ev' e)"
  by (cases ev; cases ev') (simp_all add: getHandler_def clearEvent_def)

lemma getHandler_close_event [simp]: "getHandler ev (fst (close_event e)) = getHandler ev e"
  by (cases ev) (simp_all add: getHandler_def close_event_def)

lemma setNonBlocking_facts [simp]:
  "listens ev (setNonBlocking e) = listens ev e" "getHandler ev (setNonBlocking e) = getHandler ev e"
  "m_events (setNonBlocking e) = m_events e"
  by (cases ev; simp add: setNonBlocking_def listens_def getHandler_def)+

lemma nonblocking_setNonBlocking: "0 \<le> m_fd e \<Longrightarrow> nonblocking (setNonBlocking e)"
  by (auto simp: nonblocking_def setNonBlocking_def bit_simps O_NONBLOCK_def
      word_bw_comms word_bw_assocs word_ao_dist)

lemma nonblocking_listen [simp]: "nonblocking (listen ev cb e) = nonblocking e"
  by (cases ev) (simp_all add: nonblocking_def listen_def)

lemma nonblocking_clearEvent [simp]: "nonblocking (clearEvent ev e) = nonblocking e"
  by (cases ev) (simp_all add: nonblocking_def clearEvent_def)

lemma getHandler_new [simp]: "getHandler ev (FdEvent_new fd) = None"
  by (cases ev) (simp_all add: getHandler_def FdEvent_new_def)

text \<open>What an event loop relies on: a watched condition has a callback.\<close>

definition wf_event :: "'cb fd_event \<Rightarrow> bool" where
  "wf_event e \<longleftrightarrow> (\<forall>ev. listens ev e \<longrightarrow> getHandler ev e \<noteq> None)"

lemma wf_event_intros [wf_intros]:
  "wf_event (FdEvent_new fd)"
  "wf_event e \<Longrightarrow> wf_event (listen ev cb e)"
  "wf_event e \<Longrightarrow> wf_event (clearEvent ev e)"
  "wf_event e \<Longrightarrow> wf_event (setNonBlocking e)"
  "wf_event (fst (close_event e))"
  by (auto simp: wf_event_def)

text \<open>The operations on one event, as a step function.\<close>

datatype 'cb event_op = Listen TriggerEvent 'cb | Clear TriggerEvent | Close | NonBlocking

fun event_step :: "'cb fd_event \<Rightarrow> 'cb event_op \<Rightarrow> 'cb fd_event" where
  "event_step e (Listen ev cb) = listen ev cb e"
| "event_step e (Clear ev) = clearEvent ev e"
| "event_step e Close = fst (close_event e)"
| "event_step e NonBlocking = setNonBlocking e"

interpretation fd_event: stepwise_invariant event_step "\<lambda>_ _. True"
  "\<lambda>e. wf_event e \<and> m_fd e = fd" for fd
proof unfold_locales
  fix e :: "'cb fd_event" and op
  assume "wf_event e \<and> m_fd e = fd"
  then show "wf_event (event_step e op) \<and> m_fd (event_step e op) = fd"
    by (cases op) (auto intro: wf_intros)
qed

text \<open>The table: entry \<open>i\<close> is the event of descriptor \<open>i\<close>.\<close>

definition wf_group :: "'cb fd_event_group \<Rightarrow> bool" where
  "wf_group g \<longleftrightarrow> (\<forall>i < length g. m_fd (g ! i) = int i)"

lemma wf_group_new [wf_intros]: "wf_group (FdEventGroup_new sz)"
  by (simp add: wf_group_def FdEventGroup_new_def FdEvent_new_def)

lemma grown_size_bounds: "2 \<le> fd \<Longrightarrow> fd < grown_size fd"
  by (simp add: grown_size_def)

lemma getFdEvent_grows:
  assumes "wf_group g" and "2 \<le> fd" and "int (length g) \<le> fd" and "fits_int32 (grown_size fd)"
  shows "\<exists>g'. getFdEvent g fd = Inr (FdEvent_new fd, g') \<and> wf_group g' \<and> take (length g) g' = g
           \<and> int (length g') = grown_size fd"
proof -
  have gs: "fd < grown_size fd" using grown_size_bounds [OF assms(2)] .
  let ?g' = "take (nat (grown_size fd)) g @ map (\<lambda>i. FdEvent_new (int i)) [length g..<nat (grown_size fd)]"
  have g': "?g' = g @ map (\<lambda>i. FdEvent_new (int i)) [length g..<nat (grown_size fd)]"
    using gs assms(3) by simp
  have "?g' ! nat fd = FdEvent_new fd"
    using gs assms(2,3) by (simp only: g') (simp add: nth_append not_less)
  moreover have "wf_group ?g'"
    using assms(1) by (simp only: g') (auto simp: wf_group_def nth_append FdEvent_new_def)
  moreover have "int (length ?g') = grown_size fd" using gs assms(2,3) by simp
  moreover have "getFdEvent g fd = Inr (?g' ! nat fd, ?g')"
    using gs assms by (simp add: getFdEvent_def Let_def)
  moreover have "take (length g) ?g' = g" by (simp only: g') simp
  ultimately show ?thesis by metis
qed

lemma getFdEvent_hit:
  assumes "wf_group g" and "0 \<le> fd" and "fd < int (length g)"
  shows "getFdEvent g fd = Inr (g ! nat fd, g)" and "m_fd (g ! nat fd) = fd"
  using assms by (auto simp: getFdEvent_def wf_group_def nat_less_iff)

lemma grown_size_negative: "fd < 0 \<Longrightarrow> grown_size fd < 0"
  by (simp add: grown_size_def)

section \<open>Properties\<close>

text \<open>
  Whatever sequence of \<open>listen\<close>, \<open>clearEvent\<close> and \<open>close\<close> an \<open>FdEvent\<close> goes through, a condition in
  its epoll mask has a callback, and the object keeps its descriptor.
\<close>

theorem watched_event_has_handler:
  "let e = run_steps event_step (FdEvent_new fd) ops
   in m_fd e = fd \<and> \<not> (listens ev e \<and> getHandler ev e = None)"
proof -
  let ?e = "run_steps event_step (FdEvent_new fd) ops"
  have "wf_event (FdEvent_new fd) \<and> m_fd (FdEvent_new fd) = fd"
    by (simp add: wf_event_intros) (simp add: FdEvent_new_def)
  then have "wf_event ?e \<and> m_fd ?e = fd"
    by (rule fd_event.inv_run) simp
  then show ?thesis by (auto simp: wf_event_def Let_def)
qed

text \<open>
  From the table's initial 128 entries on, \<open>getFdEvent\<close> returns the event of the descriptor it is
  asked for, growing the table when needed without touching the existing entries; a negative
  descriptor ends in \<open>std::length_error\<close>.
\<close>

theorem getFdEvent_total:
  assumes "wf_group g" and "128 \<le> length g" and "fits_int32 (grown_size fd)"
  shows "if fd < 0 then getFdEvent g fd = Inl LengthError
         else \<exists>e g'. getFdEvent g fd = Inr (e, g') \<and> m_fd e = fd \<and> wf_group g'
                \<and> take (length g) g' = g \<and> fd < int (length g')"
proof (cases "fd < 0")
  case True
  then show ?thesis
    using grown_size_negative [OF True] assms(3) by (simp add: getFdEvent_def Let_def)
next
  case False
  show ?thesis
  proof (cases "fd < int (length g)")
    case True
    with False show ?thesis using getFdEvent_hit [OF assms(1), of fd] assms(1) by auto
  next
    case large: False
    then have "2 \<le> fd" using assms(2) by linarith
    from getFdEvent_grows [OF assms(1) this _ assms(3)] large False grown_size_bounds [OF this]
    show ?thesis by (auto simp: FdEvent_new_def)
  qed
qed

theorem getFdEvent_total_witness:
  "(\<exists>e g'. getFdEvent (FdEventGroup_new 128 :: nat fd_event_group) 200 = Inr (e, g')
      \<and> m_fd e = 200 \<and> wf_group g')
   \<and> getFdEvent (FdEventGroup_new 128 :: nat fd_event_group) (- 1) = Inl LengthError"
  using getFdEvent_total [OF wf_group_new, of 128 200]
    getFdEvent_total [OF wf_group_new, of 128 "- 1"]
  by (force simp: FdEventGroup_new_def grown_size_def fits_int32_def)

end
