(* ===== verification/EventLoop.thy ===== *)
theory EventLoop
  imports FdEvent
begin

text \<open>
  The event loop (\<open>include/rapidrpc/net/eventloop.h\<close>, \<open>src/net/eventloop.cc\<close>): the set of watched
  descriptors and the \<open>epoll_ctl\<close> calls that maintain it, the task queue other threads push to,
  and the loop that runs the queue and turns triggered events into new tasks.  Pointers to
  \<open>FdEvent\<close> objects are numbers of a heap, since a queued closure sees the object as it is when the
  closure runs.  The kernel's answers to \<open>epoll_wait\<close> are an argument; \<open>epoll_ctl\<close>'s result is only
  logged by the code, so the loop records the calls it makes.
\<close>

section \<open>State\<close>

datatype ctl_op = CTL_ADD | CTL_MOD | CTL_DEL

datatype kernel_call = Ctl ctl_op int "32 word" | CloseFd int

text \<open>The closures in the queue: a callback (possibly null), or the lambda by which another thread
  adds or deletes an event.\<close>

datatype 'cb loop_task = Call "'cb option" | AddFd nat | DelFd nat

text \<open>\<open>m_wakeups\<close> is the unread counter of the eventfd.\<close>

record 'cb event_loop =
  m_tid :: int
  m_epoll_calls :: "kernel_call list"
  m_stop_flag :: bool
  m_listen_fds :: "int set"
  m_pending_tasks :: "'cb loop_task list"
  m_is_looping :: bool
  m_wakeups :: nat

section \<open>Watched descriptors\<close>

definition ADD_TO_EPOLL :: "'cb fd_event \<Rightarrow> 'cb event_loop \<Rightarrow> 'cb event_loop" where
  "ADD_TO_EPOLL event l =
     (let op = (if m_fd event \<in> m_listen_fds l then CTL_MOD else CTL_ADD)
      in l\<lparr>m_listen_fds := insert (m_fd event) (m_listen_fds l),
           m_epoll_calls := m_epoll_calls l @ [Ctl op (m_fd event) (m_events event)]\<rparr>)"

definition DELETE_FROM_EPOLL :: "'cb fd_event \<Rightarrow> 'cb event_loop \<Rightarrow> 'cb event_loop" where
  "DELETE_FROM_EPOLL event l =
     (if m_fd event \<in> m_listen_fds l
      then l\<lparr>m_epoll_calls := m_epoll_calls l @ [Ctl CTL_DEL (m_fd event) 0],
             m_listen_fds := m_listen_fds l - {m_fd event}\<rparr>
      else l)"

definition isInLoopThread :: "int \<Rightarrow> 'cb event_loop \<Rightarrow> bool" where
  "isInLoopThread caller l \<longleftrightarrow> caller = m_tid l"

definition loop_wakeup :: "'cb event_loop \<Rightarrow> 'cb event_loop" where
  "loop_wakeup l = l\<lparr>m_wakeups := m_wakeups l + 1\<rparr>"

definition addTask :: "'cb loop_task \<Rightarrow> bool \<Rightarrow> 'cb event_loop \<Rightarrow> 'cb event_loop" where
  "addTask cb is_wakeup l =
     (let l = l\<lparr>m_pending_tasks := m_pending_tasks l @ [cb]\<rparr>
      in if is_wakeup then loop_wakeup l else l)"

definition stop :: "'cb event_loop \<Rightarrow> 'cb event_loop" where
  "stop l = loop_wakeup (l\<lparr>m_stop_flag := True\<rparr>)"

text \<open>The first argument is the calling thread, the second the pointer with the object behind it.\<close>

definition addEpollEvent :: "int \<Rightarrow> nat \<Rightarrow> 'cb fd_event \<Rightarrow> 'cb event_loop \<Rightarrow> 'cb event_loop" where
  "addEpollEvent caller p event l =
     (if isInLoopThread caller l then ADD_TO_EPOLL event l else addTask (AddFd p) True l)"

definition deleteEpollEvent :: "int \<Rightarrow> nat \<Rightarrow> 'cb fd_event \<Rightarrow> 'cb event_loop \<Rightarrow> 'cb event_loop" where
  "deleteEpollEvent caller p event l =
     (if isInLoopThread caller l then DELETE_FROM_EPOLL event l else addTask (DelFd p) True l)"

text \<open>The constructor runs in the loop's own thread and watches the wakeup event and the timer.\<close>

definition initWakeupFdEvent :: "'cb fd_event \<Rightarrow> 'cb event_loop \<Rightarrow> 'cb event_loop" where
  "initWakeupFdEvent wakeup_event l = addEpollEvent (m_tid l) (nat (m_fd wakeup_event)) wakeup_event l"

definition initTimer :: "'cb fd_event \<Rightarrow> 'cb event_loop \<Rightarrow> 'cb event_loop" where
  "initTimer timer_event l = addEpollEvent (m_tid l) (nat (m_fd timer_event)) timer_event l"

definition EventLoop_new :: "int \<Rightarrow> 'cb fd_event \<Rightarrow> 'cb fd_event \<Rightarrow> 'cb event_loop" where
  "EventLoop_new tid wakeup_event timer_event =
     initTimer timer_event (initWakeupFdEvent wakeup_event
       \<lparr>m_tid = tid, m_epoll_calls = [], m_stop_flag = False, m_listen_fds = {},
        m_pending_tasks = [], m_is_looping = False, m_wakeups = 0\<rparr>)"

text \<open>With its checks: a thread has one loop, and the two descriptors must be there; \<open>None\<close> is
  \<open>exit(-1)\<close>.  \<open>GetCurrentEventLoop\<close> makes the loop of a thread on first use.\<close>

definition EventLoop_create :: "'k handler event_loop option \<Rightarrow> int \<Rightarrow> int \<Rightarrow> int \<Rightarrow> 'k handler fd_event
    \<Rightarrow> 'k handler event_loop option" where
  "EventLoop_create t_current_loop tid epoll_fd wakeup_fd timer_event =
     (if t_current_loop \<noteq> None \<or> epoll_fd < 0 \<or> wakeup_fd < 0 then None
      else Some (EventLoop_new tid (WakeupFdEvent_new wakeup_fd) timer_event))"

definition GetCurrentEventLoop :: "'k handler event_loop option \<Rightarrow> int \<Rightarrow> int \<Rightarrow> int \<Rightarrow> 'k handler fd_event
    \<Rightarrow> 'k handler event_loop option" where
  "GetCurrentEventLoop t_current_loop tid epoll_fd wakeup_fd timer_event =
     (case t_current_loop of
        Some l \<Rightarrow> Some l
      | None \<Rightarrow> EventLoop_create None tid epoll_fd wakeup_fd timer_event)"

lemma EventLoop_new_eq:
  "EventLoop_new tid wakeup_event timer_event =
     ADD_TO_EPOLL timer_event (ADD_TO_EPOLL wakeup_event
       \<lparr>m_tid = tid, m_epoll_calls = [], m_stop_flag = False, m_listen_fds = {},
        m_pending_tasks = [], m_is_looping = False, m_wakeups = 0\<rparr>)"
  by (simp add: EventLoop_new_def initTimer_def initWakeupFdEvent_def addEpollEvent_def isInLoopThread_def
      ADD_TO_EPOLL_def)

section \<open>The loop\<close>

text \<open>The program state a callback works on: the loop, the heap of \<open>FdEvent\<close>s, and more.\<close>

record 'cb reactor =
  m_loop :: "'cb event_loop"
  m_fd_events :: "nat \<Rightarrow> 'cb fd_event"

definition run_task :: "('cb \<Rightarrow> ('cb, 'z) reactor_scheme \<Rightarrow> ('cb, 'z) reactor_scheme) \<Rightarrow> 'cb loop_task
    \<Rightarrow> ('cb, 'z) reactor_scheme \<Rightarrow> ('cb, 'z) reactor_scheme" where
  "run_task exec t s =
     (case t of
        Call None \<Rightarrow> s
      | Call (Some cb) \<Rightarrow> exec cb s
      | AddFd p \<Rightarrow> s\<lparr>m_loop := ADD_TO_EPOLL (m_fd_events s p) (m_loop s)\<rparr>
      | DelFd p \<Rightarrow> s\<lparr>m_loop := DELETE_FROM_EPOLL (m_fd_events s p) (m_loop s)\<rparr>)"

text \<open>The queue is swapped out before its tasks run, so what they add waits for the next round.\<close>

definition run_pending :: "('cb \<Rightarrow> ('cb, 'z) reactor_scheme \<Rightarrow> ('cb, 'z) reactor_scheme)
    \<Rightarrow> ('cb, 'z) reactor_scheme \<Rightarrow> ('cb, 'z) reactor_scheme" where
  "run_pending exec s =
     (let tasks = m_pending_tasks (m_loop s);
          s = s\<lparr>m_loop := (m_loop s)\<lparr>m_pending_tasks := []\<rparr>\<rparr>
      in foldl (\<lambda>s t. run_task exec t s) s tasks)"

text \<open>One triggered event: its \<open>data.ptr\<close> and its condition mask.\<close>

definition handle_event :: "('cb, 'z) reactor_scheme \<Rightarrow> nat option \<times> 32 word \<Rightarrow> ('cb, 'z) reactor_scheme" where
  "handle_event s ev =
     (case ev of
        (None, _) \<Rightarrow> s
      | (Some p, trigger) \<Rightarrow>
          if trigger AND EPOLLIN \<noteq> 0
          then s\<lparr>m_loop := addTask (Call (getHandler IN_EVENT (m_fd_events s p))) False (m_loop s)\<rparr>
          else if trigger AND EPOLLOUT \<noteq> 0
          then s\<lparr>m_loop := addTask (Call (getHandler OUT_EVENT (m_fd_events s p))) False (m_loop s)\<rparr>
          else s)"

datatype epoll_result = Epoll_error | Epoll_events "(nat option \<times> 32 word) list"

definition loop_round :: "('cb \<Rightarrow> ('cb, 'z) reactor_scheme \<Rightarrow> ('cb, 'z) reactor_scheme) \<Rightarrow> epoll_result
    \<Rightarrow> ('cb, 'z) reactor_scheme \<Rightarrow> ('cb, 'z) reactor_scheme" where
  "loop_round exec rt s =
     (let s = run_pending exec s
      in case rt of Epoll_error \<Rightarrow> s | Epoll_events evs \<Rightarrow> foldl handle_event s evs)"

text \<open>The answers of the successive \<open>epoll_wait\<close> calls are given; when they are used up the loop
  waits in the next call, after it has run its tasks.\<close>

fun loop_rounds :: "('cb \<Rightarrow> ('cb, 'z) reactor_scheme \<Rightarrow> ('cb, 'z) reactor_scheme) \<Rightarrow> epoll_result list
    \<Rightarrow> ('cb, 'z) reactor_scheme \<Rightarrow> ('cb, 'z) reactor_scheme" where
  "loop_rounds exec [] s = (if m_stop_flag (m_loop s) then s else run_pending exec s)"
| "loop_rounds exec (rt # rts) s =
     (if m_stop_flag (m_loop s) then s else loop_rounds exec rts (loop_round exec rt s))"

definition loop :: "('cb \<Rightarrow> ('cb, 'z) reactor_scheme \<Rightarrow> ('cb, 'z) reactor_scheme) \<Rightarrow> epoll_result list
    \<Rightarrow> ('cb, 'z) reactor_scheme \<Rightarrow> ('cb, 'z) reactor_scheme" where
  "loop exec rts s = loop_rounds exec rts (s\<lparr>m_loop := (m_loop s)\<lparr>m_is_looping := True\<rparr>\<rparr>)"

section \<open>The kernel's view\<close>

text \<open>\<open>epoll_ctl\<close> as documented, on the calls of one loop: it fails for a negative descriptor (\<open>EBADF\<close>);
  adding fails for a descriptor that is registered (\<open>EEXIST\<close>), modifying and deleting fail for one that is
  not (\<open>ENOENT\<close>), and closing a descriptor drops its registration.  The table maps a registered descriptor
  to its mask.  That it also fails for a descriptor that is not open is in \<open>kernel_run\<close> below, where the
  open descriptors are known.\<close>

fun accepted :: "(int \<rightharpoonup> 32 word) \<Rightarrow> kernel_call \<Rightarrow> bool" where
  "accepted m (Ctl CTL_ADD fd ev) \<longleftrightarrow> 0 \<le> fd \<and> m fd = None"
| "accepted m (Ctl CTL_MOD fd ev) \<longleftrightarrow> 0 \<le> fd \<and> m fd \<noteq> None"
| "accepted m (Ctl CTL_DEL fd ev) \<longleftrightarrow> 0 \<le> fd \<and> m fd \<noteq> None"
| "accepted m (CloseFd fd) \<longleftrightarrow> True"

fun kernel_step :: "(int \<rightharpoonup> 32 word) \<Rightarrow> kernel_call \<Rightarrow> (int \<rightharpoonup> 32 word)" where
  "kernel_step m (Ctl op fd ev) =
     (if \<not> accepted m (Ctl op fd ev) then m
      else if op = CTL_DEL then m(fd := None) else m(fd \<mapsto> ev))"
| "kernel_step m (CloseFd fd) = m(fd := None)"

definition kernel_table :: "kernel_call list \<Rightarrow> int \<rightharpoonup> 32 word" where
  "kernel_table calls = foldl kernel_step Map.empty calls"

fun all_accepted :: "(int \<rightharpoonup> 32 word) \<Rightarrow> kernel_call list \<Rightarrow> bool" where
  "all_accepted m [] \<longleftrightarrow> True"
| "all_accepted m (c # cs) \<longleftrightarrow> accepted m c \<and> all_accepted (kernel_step m c) cs"

lemma all_accepted_append:
  "all_accepted m (xs @ ys) \<longleftrightarrow> all_accepted m xs \<and> all_accepted (foldl kernel_step m xs) ys"
  by (induction xs arbitrary: m) auto

lemma kernel_table_snoc [simp]: "kernel_table (cs @ [c]) = kernel_step (kernel_table cs) c"
  by (simp add: kernel_table_def)

lemma all_accepted_snoc [simp]:
  "all_accepted Map.empty (cs @ [c]) \<longleftrightarrow> all_accepted Map.empty cs \<and> accepted (kernel_table cs) c"
  by (simp add: all_accepted_append kernel_table_def)

text \<open>The loop's set is the kernel's table, and no call it made was refused.\<close>

definition in_sync :: "'cb event_loop \<Rightarrow> bool" where
  "in_sync l \<longleftrightarrow> all_accepted Map.empty (m_epoll_calls l)
     \<and> dom (kernel_table (m_epoll_calls l)) = m_listen_fds l"

text \<open>Only descriptors that can be open are registered.\<close>

lemma kernel_step_nonneg:
  "(\<And>fd. m fd \<noteq> None \<Longrightarrow> 0 \<le> fd) \<Longrightarrow> kernel_step m c fd \<noteq> None \<Longrightarrow> 0 \<le> fd"
  by (cases "(m, c)" rule: accepted.cases) (auto split: if_splits)

lemma kernel_table_nonneg: "kernel_table cs fd \<noteq> None \<Longrightarrow> 0 \<le> fd"
proof (induction cs arbitrary: fd rule: rev_induct)
  case Nil
  then show ?case by (simp add: kernel_table_def)
next
  case (snoc c cs)
  show ?case by (rule kernel_step_nonneg [OF snoc.IH]) (use snoc.prems in simp_all)
qed

lemma in_sync_nonneg: "in_sync l \<Longrightarrow> fd \<in> m_listen_fds l \<Longrightarrow> 0 \<le> fd"
  by (rule kernel_table_nonneg [of "m_epoll_calls l"]) (auto simp: in_sync_def)

lemma in_sync_add: "in_sync l \<Longrightarrow> 0 \<le> m_fd e \<Longrightarrow> in_sync (ADD_TO_EPOLL e l)"
  by (auto simp: in_sync_def ADD_TO_EPOLL_def Let_def)

lemma in_sync_delete: "in_sync l \<Longrightarrow> in_sync (DELETE_FROM_EPOLL e l)"
  using in_sync_nonneg [of l "m_fd e"] by (auto simp: in_sync_def DELETE_FROM_EPOLL_def)

lemma mask_add:
  "in_sync l \<Longrightarrow> 0 \<le> m_fd e \<Longrightarrow> kernel_table (m_epoll_calls (ADD_TO_EPOLL e l)) (m_fd e) = Some (m_events e)"
  by (auto simp: in_sync_def ADD_TO_EPOLL_def Let_def)

lemma in_sync_cong:
  "m_epoll_calls l' = m_epoll_calls l \<Longrightarrow> m_listen_fds l' = m_listen_fds l \<Longrightarrow> in_sync l' = in_sync l"
  by (simp add: in_sync_def)

lemma addTask_facts [simp]:
  "m_epoll_calls (addTask t w l) = m_epoll_calls l" "m_listen_fds (addTask t w l) = m_listen_fds l"
  "m_pending_tasks (addTask t w l) = m_pending_tasks l @ [t]" "m_tid (addTask t w l) = m_tid l"
  "m_stop_flag (addTask t w l) = m_stop_flag l" "m_is_looping (addTask t w l) = m_is_looping l"
  "m_wakeups (addTask t w l) = m_wakeups l + (if w then 1 else 0)"
  by (simp_all add: addTask_def loop_wakeup_def Let_def)

lemma epoll_ops_facts [simp]:
  "m_pending_tasks (ADD_TO_EPOLL e l) = m_pending_tasks l" "m_tid (ADD_TO_EPOLL e l) = m_tid l"
  "m_pending_tasks (DELETE_FROM_EPOLL e l) = m_pending_tasks l" "m_tid (DELETE_FROM_EPOLL e l) = m_tid l"
  "m_stop_flag (ADD_TO_EPOLL e l) = m_stop_flag l" "m_stop_flag (DELETE_FROM_EPOLL e l) = m_stop_flag l"
  "m_is_looping (ADD_TO_EPOLL e l) = m_is_looping l" "m_is_looping (DELETE_FROM_EPOLL e l) = m_is_looping l"
  by (simp_all add: ADD_TO_EPOLL_def DELETE_FROM_EPOLL_def Let_def)

lemma in_sync_addTask: "in_sync l \<Longrightarrow> in_sync (addTask t w l)"
  using in_sync_cong [of "addTask t w l" l] by simp

lemma in_sync_addEpollEvent: "in_sync l \<Longrightarrow> 0 \<le> m_fd e \<Longrightarrow> in_sync (addEpollEvent caller p e l)"
  by (simp add: addEpollEvent_def in_sync_add in_sync_addTask)

lemma in_sync_new: "0 \<le> m_fd w \<Longrightarrow> 0 \<le> m_fd t \<Longrightarrow> in_sync (EventLoop_new tid w t)"
  unfolding EventLoop_new_eq
  by (intro in_sync_add) (simp_all add: in_sync_def kernel_table_def)

lemma new_fds:
  "m_fd (FdEvent_new fd) = fd" "m_fd (WakeupFdEvent_new fd) = fd"
  by (simp_all add: FdEvent_new_def WakeupFdEvent_new_def WakeupFdEvent_init_def listen_def)

section \<open>Runs of a loop\<close>

text \<open>What reaches a loop: threads add and delete events, an event object changes, the queue runs,
  and the loop is stopped.\<close>

datatype 'cb loop_op =
    AddEvent int nat
  | DeleteEvent int nat
  | SetEvent nat "'cb fd_event"
  | RunQueue
  | Triggered "(nat option \<times> 32 word) list"
  | StopLoop

fun reactor_step :: "'cb reactor \<Rightarrow> 'cb loop_op \<Rightarrow> 'cb reactor" where
  "reactor_step s (AddEvent caller p) = s\<lparr>m_loop := addEpollEvent caller p (m_fd_events s p) (m_loop s)\<rparr>"
| "reactor_step s (DeleteEvent caller p) =
     s\<lparr>m_loop := deleteEpollEvent caller p (m_fd_events s p) (m_loop s)\<rparr>"
| "reactor_step s (SetEvent p e) = s\<lparr>m_fd_events := (m_fd_events s)(p := e)\<rparr>"
| "reactor_step s RunQueue = run_pending (\<lambda>_ s. s) s"
| "reactor_step s (Triggered evs) = foldl handle_event s evs"
| "reactor_step s StopLoop = s\<lparr>m_loop := stop (m_loop s)\<rparr>"

section \<open>The loop among open descriptors\<close>

text \<open>Beside the loop, the process opens and closes descriptors.  Of the calls that a step of the loop
  makes, the kernel refuses those for a descriptor that is not open; closing a descriptor drops its
  registration.  \<open>refused_calls\<close> collects the calls for which \<open>epoll_ctl\<close> returned an error.\<close>

fun kernel_run :: "int set \<Rightarrow> (int \<rightharpoonup> 32 word) \<Rightarrow> kernel_call list \<Rightarrow> (int \<rightharpoonup> 32 word) \<times> kernel_call list" where
  "kernel_run fds m [] = (m, [])"
| "kernel_run fds m (c # cs) =
     (if (case c of Ctl _ fd _ \<Rightarrow> fd \<in> fds | CloseFd _ \<Rightarrow> True) \<and> accepted m c
      then kernel_run fds (kernel_step m c) cs
      else (let (m', bad) = kernel_run fds m cs in (m', c # bad)))"

record 'cb process =
  p_reactor :: "'cb reactor"
  open_fds_of :: "int set"
  registered :: "int \<rightharpoonup> 32 word"
  refused_calls :: "kernel_call list"

datatype 'cb process_op = OpenDescriptor int | CloseDescriptor int | LoopOp "'cb loop_op"

text \<open>The process after its loop went on to \<open>s\<close>, and the calls made on the way.\<close>

definition loop_goes_on :: "'cb reactor \<Rightarrow> 'cb process \<Rightarrow> 'cb process" where
  "loop_goes_on s u =
     (let calls = drop (length (m_epoll_calls (m_loop (p_reactor u)))) (m_epoll_calls (m_loop s));
          (m, bad) = kernel_run (open_fds_of u) (registered u) calls
      in u\<lparr>p_reactor := s, registered := m, refused_calls := refused_calls u @ bad\<rparr>)"

fun process_step :: "'cb process \<Rightarrow> 'cb process_op \<Rightarrow> 'cb process" where
  "process_step u (OpenDescriptor fd) = u\<lparr>open_fds_of := insert fd (open_fds_of u)\<rparr>"
| "process_step u (CloseDescriptor fd) =
     u\<lparr>open_fds_of := open_fds_of u - {fd}, registered := (registered u)(fd := None)\<rparr>"
| "process_step u (LoopOp op) = loop_goes_on (reactor_step (p_reactor u) op) u"

definition process_new :: "int \<Rightarrow> 'cb fd_event \<Rightarrow> 'cb fd_event \<Rightarrow> (nat \<Rightarrow> 'cb fd_event) \<Rightarrow> int set \<Rightarrow> 'cb process" where
  "process_new tid wakeup_event timer_event heap fds =
     (let l = EventLoop_new tid wakeup_event timer_event;
          (m, bad) = kernel_run fds Map.empty (m_epoll_calls l)
      in \<lparr>p_reactor = \<lparr>m_loop = l, m_fd_events = heap\<rparr>, open_fds_of = fds, registered = m, refused_calls = bad\<rparr>)"

text \<open>How a careful user works: it adds only events of open descriptors, and closes a descriptor only
  after it was deleted from the loop and when no queued task will add it.\<close>

definition add_queued :: "'cb reactor \<Rightarrow> nat \<Rightarrow> bool" where
  "add_queued s p \<longleftrightarrow> AddFd p \<in> set (m_pending_tasks (m_loop s))"

fun process_allowed :: "'cb process \<Rightarrow> 'cb process_op \<Rightarrow> bool" where
  "process_allowed u (OpenDescriptor fd) \<longleftrightarrow> 0 \<le> fd \<and> fd \<notin> open_fds_of u"
| "process_allowed u (CloseDescriptor fd) \<longleftrightarrow> fd \<notin> m_listen_fds (m_loop (p_reactor u))
     \<and> (\<forall>p. add_queued (p_reactor u) p \<longrightarrow> m_fd (m_fd_events (p_reactor u) p) \<noteq> fd)"
| "process_allowed u (LoopOp (AddEvent caller p)) \<longleftrightarrow> m_fd (m_fd_events (p_reactor u) p) \<in> open_fds_of u"
| "process_allowed u (LoopOp (SetEvent p e)) \<longleftrightarrow> (add_queued (p_reactor u) p \<longrightarrow> m_fd e \<in> open_fds_of u)"
| "process_allowed u (LoopOp _) \<longleftrightarrow> True"

lemma kernel_run_append:
  "kernel_run fds m (xs @ ys) =
     (let (m1, b1) = kernel_run fds m xs; (m2, b2) = kernel_run fds m1 ys in (m2, b1 @ b2))"
  by (induction xs arbitrary: m) (auto simp: Let_def split: prod.split)

text \<open>A step of the loop all of whose calls the kernel carries out.\<close>

definition served :: "int set \<Rightarrow> (int \<rightharpoonup> 32 word) \<Rightarrow> 'cb event_loop \<Rightarrow> (int \<rightharpoonup> 32 word) \<Rightarrow> 'cb event_loop \<Rightarrow> bool" where
  "served fds m l m' l' \<longleftrightarrow> dom m' = m_listen_fds l' \<and> m_listen_fds l' \<subseteq> fds
     \<and> (\<exists>cs. m_epoll_calls l' = m_epoll_calls l @ cs \<and> kernel_run fds m cs = (m', []))"

lemma served_same:
  "dom m = m_listen_fds l \<Longrightarrow> m_listen_fds l \<subseteq> fds \<Longrightarrow> m_epoll_calls l' = m_epoll_calls l
     \<Longrightarrow> m_listen_fds l' = m_listen_fds l \<Longrightarrow> served fds m l m l'"
  by (simp add: served_def)

lemma served_trans: "served fds m l m1 l1 \<Longrightarrow> served fds m1 l1 m2 l2 \<Longrightarrow> served fds m l m2 l2"
  by (auto simp: served_def kernel_run_append)

lemma served_add:
  assumes "dom m = m_listen_fds l" and "m_listen_fds l \<subseteq> fds" and "m_fd e \<in> fds" and "0 \<le> m_fd e"
  shows "served fds m l (m(m_fd e \<mapsto> m_events e)) (ADD_TO_EPOLL e l)"
proof -
  define op where "op = (if m_fd e \<in> m_listen_fds l then CTL_MOD else CTL_ADD)"
  have "m_epoll_calls (ADD_TO_EPOLL e l) = m_epoll_calls l @ [Ctl op (m_fd e) (m_events e)]"
    "m_listen_fds (ADD_TO_EPOLL e l) = insert (m_fd e) (m_listen_fds l)"
    by (simp_all add: ADD_TO_EPOLL_def op_def Let_def)
  moreover have "kernel_run fds m [Ctl op (m_fd e) (m_events e)] = (m(m_fd e \<mapsto> m_events e), [])"
    using assms(1,3,4) by (auto simp: op_def)
  ultimately show ?thesis using assms(1-3) by (simp add: served_def)
qed

lemma served_delete:
  assumes "dom m = m_listen_fds l" and "m_listen_fds l \<subseteq> fds" and "\<And>fd. fd \<in> fds \<Longrightarrow> 0 \<le> fd"
  shows "served fds m l (m(m_fd e := None)) (DELETE_FROM_EPOLL e l)"
proof (cases "m_fd e \<in> m_listen_fds l")
  case True
  then have "m_epoll_calls (DELETE_FROM_EPOLL e l) = m_epoll_calls l @ [Ctl CTL_DEL (m_fd e) 0]"
    "m_listen_fds (DELETE_FROM_EPOLL e l) = m_listen_fds l - {m_fd e}"
    by (simp_all add: DELETE_FROM_EPOLL_def)
  moreover have "kernel_run fds m [Ctl CTL_DEL (m_fd e) 0] = (m(m_fd e := None), [])"
    using True assms by auto
  ultimately show ?thesis using assms(1,2) by (auto simp: served_def)
next
  case False
  then have "m(m_fd e := None) = m" using assms(1) by (auto simp: fun_eq_iff)
  with False show ?thesis using assms(1,2) by (simp add: DELETE_FROM_EPOLL_def served_same)
qed

text \<open>The invariant: the loop's set is the kernel's table, its descriptors are open, and so are those
  that queued tasks will add.\<close>

definition watching :: "'cb process \<Rightarrow> bool" where
  "watching u \<longleftrightarrow> refused_calls u = [] \<and> dom (registered u) = m_listen_fds (m_loop (p_reactor u))
     \<and> m_listen_fds (m_loop (p_reactor u)) \<subseteq> open_fds_of u \<and> (\<forall>fd \<in> open_fds_of u. 0 \<le> fd)
     \<and> (\<forall>p. add_queued (p_reactor u) p \<longrightarrow> m_fd (m_fd_events (p_reactor u) p) \<in> open_fds_of u)"

lemma watching_goes_on:
  assumes "watching u" and "served (open_fds_of u) (registered u) (m_loop (p_reactor u)) m' (m_loop s)"
    and "\<And>p. add_queued s p \<Longrightarrow> m_fd (m_fd_events s p) \<in> open_fds_of u"
  shows "watching (loop_goes_on s u)"
proof -
  from assms(2) obtain cs where "m_epoll_calls (m_loop s) = m_epoll_calls (m_loop (p_reactor u)) @ cs"
    and "kernel_run (open_fds_of u) (registered u) cs = (m', [])" by (auto simp: served_def)
  then have "loop_goes_on s u = u\<lparr>p_reactor := s, registered := m'\<rparr>" by (simp add: loop_goes_on_def)
  with assms show ?thesis by (simp add: watching_def served_def)
qed

lemma run_tasks_served:
  assumes "dom m = m_listen_fds (m_loop s)" and "m_listen_fds (m_loop s) \<subseteq> fds" and "\<And>fd. fd \<in> fds \<Longrightarrow> 0 \<le> fd"
    and "\<And>p. AddFd p \<in> set ts \<Longrightarrow> m_fd (m_fd_events s p) \<in> fds"
  shows "\<exists>m'. served fds m (m_loop s) m' (m_loop (foldl (\<lambda>s t. run_task (\<lambda>_ s. s) t s) s ts))"
    and "m_fd_events (foldl (\<lambda>s t. run_task (\<lambda>_ s. s) t s) s ts) = m_fd_events s"
    and "m_pending_tasks (m_loop (foldl (\<lambda>s t. run_task (\<lambda>_ s. s) t s) s ts)) = m_pending_tasks (m_loop s)"
proof -
  show same: "m_fd_events (foldl (\<lambda>s t. run_task (\<lambda>_ s. s) t s) s ts) = m_fd_events s"
    "m_pending_tasks (m_loop (foldl (\<lambda>s t. run_task (\<lambda>_ s. s) t s) s ts)) = m_pending_tasks (m_loop s)"
    for s :: "('a, 'b) reactor_scheme"
    by (induction ts arbitrary: s) (auto simp: run_task_def split: loop_task.split option.split)
  show "\<exists>m'. served fds m (m_loop s) m' (m_loop (foldl (\<lambda>s t. run_task (\<lambda>_ s. s) t s) s ts))"
    using assms(1,2,4)
  proof (induction ts arbitrary: m s)
    case Nil
    then show ?case by (auto intro: served_same)
  next
    case (Cons t ts)
    let ?s = "run_task (\<lambda>_ s. s) t s"
    have "\<exists>m1. served fds m (m_loop s) m1 (m_loop ?s)"
    proof (cases t)
      case (Call co)
      then have "?s = s" by (simp add: run_task_def split: option.split)
      with Cons.prems(1,2) show ?thesis by (auto intro: served_same)
    next
      case (AddFd p)
      then have "m_fd (m_fd_events s p) \<in> fds" using Cons.prems(3) by simp
      from served_add [OF Cons.prems(1,2) this assms(3) [OF this]] AddFd show ?thesis by (auto simp: run_task_def)
    next
      case (DelFd p)
      with served_delete [OF Cons.prems(1,2) assms(3)] show ?thesis by (auto simp: run_task_def)
    qed
    then obtain m1 where m1: "served fds m (m_loop s) m1 (m_loop ?s)" ..
    moreover have "m_fd_events ?s = m_fd_events s" by (simp add: run_task_def split: loop_task.split option.split)
    ultimately have "\<exists>m'. served fds m1 (m_loop ?s) m' (m_loop (foldl (\<lambda>s t. run_task (\<lambda>_ s. s) t s) ?s ts))"
      using Cons.prems(3) by (intro Cons.IH) (auto simp: served_def)
    with m1 show ?case by (auto intro: served_trans)
  qed
qed

lemma handle_events_calls:
  "m_epoll_calls (m_loop (foldl handle_event s evs)) = m_epoll_calls (m_loop s)"
  "m_listen_fds (m_loop (foldl handle_event s evs)) = m_listen_fds (m_loop s)"
  "m_fd_events (foldl handle_event s evs) = m_fd_events s"
  by (induction evs arbitrary: s) (auto simp: handle_event_def split: option.split prod.split)

lemma handle_events_adds: "add_queued (foldl handle_event s evs) p \<longleftrightarrow> add_queued s p"
  by (induction evs arbitrary: s) (auto simp: handle_event_def add_queued_def split: option.split prod.split)

lemma watching_loop_op:
  assumes u: "watching u" and op: "process_allowed u (LoopOp op)"
  shows "watching (loop_goes_on (reactor_step (p_reactor u) op) u)"
proof -
  let ?s = "p_reactor u"
  have inv: "dom (registered u) = m_listen_fds (m_loop ?s)" "m_listen_fds (m_loop ?s) \<subseteq> open_fds_of u"
    "\<And>fd. fd \<in> open_fds_of u \<Longrightarrow> 0 \<le> fd" "\<And>p. add_queued ?s p \<Longrightarrow> m_fd (m_fd_events ?s p) \<in> open_fds_of u"
    using u by (auto simp: watching_def)
  have step: "\<exists>m'. served (open_fds_of u) (registered u) (m_loop ?s) m' (m_loop (reactor_step ?s op))"
  proof (cases op)
    case (AddEvent caller p)
    then have fd: "m_fd (m_fd_events ?s p) \<in> open_fds_of u" using op by simp
    from served_add [OF inv(1,2) fd inv(3) [OF fd]] show ?thesis
      using served_same [OF inv(1,2), of "addTask (AddFd p) True (m_loop ?s)"] AddEvent by (auto simp: addEpollEvent_def)
  next
    case (DeleteEvent caller p)
    with served_delete [OF inv(1-3)] show ?thesis
      using served_same [OF inv(1,2), of "addTask (DelFd p) True (m_loop ?s)"] by (auto simp: deleteEpollEvent_def)
  next
    case (SetEvent p e)
    then show ?thesis using served_same [OF inv(1,2)] by auto
  next
    case RunQueue
    let ?swapped = "?s\<lparr>m_loop := (m_loop ?s)\<lparr>m_pending_tasks := []\<rparr>\<rparr>"
    have run: "reactor_step ?s op = foldl (\<lambda>s t. run_task (\<lambda>_ s. s) t s) ?swapped (m_pending_tasks (m_loop ?s))"
      using RunQueue by (simp add: run_pending_def Let_def)
    have "\<exists>m'. served (open_fds_of u) (registered u) (m_loop ?swapped) m' (m_loop (reactor_step ?s op))"
      unfolding run using inv by (intro run_tasks_served(1)) (auto simp: add_queued_def)
    then obtain m' where "served (open_fds_of u) (registered u) (m_loop ?swapped) m' (m_loop (reactor_step ?s op))" ..
    then show ?thesis by (intro exI [of _ m']) (simp add: served_def)
  next
    case (Triggered evs)
    then show ?thesis using served_same [OF inv(1,2)] handle_events_calls [of ?s evs] by auto
  next
    case StopLoop
    then show ?thesis using served_same [OF inv(1,2), of "stop (m_loop ?s)"] by (auto simp: stop_def loop_wakeup_def)
  qed
  have "m_fd (m_fd_events (reactor_step ?s op) p) \<in> open_fds_of u" if "add_queued (reactor_step ?s op) p" for p
  proof (cases op)
    case (AddEvent caller q)
    then show ?thesis using that op inv(4) [of p] by (auto simp: add_queued_def addEpollEvent_def split: if_splits)
  next
    case (DeleteEvent caller q)
    then show ?thesis using that inv(4) [of p] by (auto simp: add_queued_def deleteEpollEvent_def split: if_splits)
  next
    case (SetEvent q e)
    then show ?thesis using that op inv(4) [of p] by (auto simp: add_queued_def split: if_splits)
  next
    case RunQueue
    let ?swapped = "?s\<lparr>m_loop := (m_loop ?s)\<lparr>m_pending_tasks := []\<rparr>\<rparr>"
    have "m_pending_tasks (m_loop (reactor_step ?s op)) = []"
      using run_tasks_served(3) [of "registered u" ?swapped "open_fds_of u" "m_pending_tasks (m_loop ?s)"] inv RunQueue
      by (auto simp: run_pending_def Let_def add_queued_def)
    with that show ?thesis by (simp add: add_queued_def)
  next
    case (Triggered evs)
    then show ?thesis using that inv(4) [of p] by (simp add: handle_events_adds handle_events_calls)
  next
    case StopLoop
    then show ?thesis using that inv(4) [of p] by (simp add: add_queued_def stop_def loop_wakeup_def)
  qed
  with step show ?thesis using u by (auto intro: watching_goes_on)
qed

interpretation process: stepwise_invariant process_step process_allowed watching
proof unfold_locales
  fix u :: "'cb process" and op
  assume "watching u" and "process_allowed u op"
  then show "watching (process_step u op)"
    by (cases op) (simp_all add: watching_loop_op, auto simp: watching_def)
qed

lemma watching_new:
  assumes "m_fd wakeup_event \<in> fds" and "m_fd timer_event \<in> fds" and "\<And>fd. fd \<in> fds \<Longrightarrow> 0 \<le> fd"
  shows "watching (process_new tid wakeup_event timer_event heap fds)"
proof -
  let ?l = "\<lparr>m_tid = tid, m_epoll_calls = [], m_stop_flag = False, m_listen_fds = {},
        m_pending_tasks = [], m_is_looping = False, m_wakeups = 0\<rparr> :: 'a event_loop"
  let ?m = "[m_fd wakeup_event \<mapsto> m_events wakeup_event]"
  have first: "served fds Map.empty ?l ?m (ADD_TO_EPOLL wakeup_event ?l)"
    using served_add [of Map.empty ?l fds wakeup_event] assms by simp
  then have "served fds ?m (ADD_TO_EPOLL wakeup_event ?l) (?m(m_fd timer_event \<mapsto> m_events timer_event))
      (ADD_TO_EPOLL timer_event (ADD_TO_EPOLL wakeup_event ?l))"
    using assms by (intro served_add) (simp_all add: served_def)
  from served_trans [OF first this] show ?thesis
    unfolding process_new_def EventLoop_new_eq [symmetric]
    by (auto simp: watching_def served_def add_queued_def EventLoop_new_eq Let_def intro: assms(3))
qed

section \<open>The order of tasks\<close>

text \<open>The callbacks of a queue, and the tasks a list of triggered events queues.\<close>

definition callbacks :: "'cb loop_task list \<Rightarrow> 'cb list" where
  "callbacks ts = List.map_filter (\<lambda>t. case t of Call c \<Rightarrow> c | _ \<Rightarrow> None) ts"

fun trigger_tasks :: "(nat \<Rightarrow> 'cb fd_event) \<Rightarrow> (nat option \<times> 32 word) list \<Rightarrow> 'cb loop_task list" where
  "trigger_tasks h [] = []"
| "trigger_tasks h ((None, _) # evs) = trigger_tasks h evs"
| "trigger_tasks h ((Some p, ev) # evs) =
     (if ev AND EPOLLIN \<noteq> 0 then [Call (m_read_callback (h p))]
      else if ev AND EPOLLOUT \<noteq> 0 then [Call (m_write_callback (h p))] else []) @ trigger_tasks h evs"

lemma handle_events_pending:
  "m_pending_tasks (m_loop (foldl handle_event s evs)) =
     m_pending_tasks (m_loop s) @ trigger_tasks (m_fd_events s) evs"
proof (induction "m_fd_events s" evs arbitrary: s rule: trigger_tasks.induct)
  case (3 p ev evs)
  have "m_fd_events (handle_event s (Some p, ev)) = m_fd_events s" by (simp add: handle_event_def)
  with 3 [of "handle_event s (Some p, ev)"] show ?case
    by (simp add: handle_event_def getHandler_def)
qed (simp_all add: handle_event_def)

record 'cb logged_reactor = "'cb reactor" + m_log :: "'cb list"

text \<open>Callbacks that are logged when they run and queue further tasks.\<close>

definition logging_exec :: "('cb \<Rightarrow> 'cb loop_task list) \<Rightarrow> 'cb \<Rightarrow> 'cb logged_reactor \<Rightarrow> 'cb logged_reactor" where
  "logging_exec queue cb s =
     s\<lparr>m_log := m_log s @ [cb],
       m_loop := (m_loop s)\<lparr>m_pending_tasks := m_pending_tasks (m_loop s) @ queue cb\<rparr>\<rparr>"

lemma run_tasks_log:
  "m_log (foldl (\<lambda>s t. run_task (logging_exec queue) t s) s ts) = m_log s @ callbacks ts
   \<and> m_pending_tasks (m_loop (foldl (\<lambda>s t. run_task (logging_exec queue) t s) s ts))
       = m_pending_tasks (m_loop s) @ concat (map queue (callbacks ts))
   \<and> m_fd_events (foldl (\<lambda>s t. run_task (logging_exec queue) t s) s ts) = m_fd_events s"
proof (induction ts arbitrary: s)
  case Nil
  then show ?case by (simp add: callbacks_def List.map_filter_simps)
next
  case (Cons t ts)
  then show ?case
    by (cases t) (auto simp: run_task_def callbacks_def List.map_filter_simps logging_exec_def
        split: option.split)
qed

section \<open>Properties\<close>

text \<open>
  C21: Threads add, delete and change events, queue work, run the queue and stop the loop, and open and
  close descriptors, in any order.  As long as only events of open descriptors are added, and a
  descriptor is closed only when the loop does not watch it and no queued task will add it, the kernel
  refuses none of the loop's \<open>epoll_ctl\<close> calls, \<open>m_listen_fds\<close> is exactly the set of descriptors that are
  registered, and all of them are open.  (Neither condition can be dropped: \<open>refused_add_stays_listed\<close>
  below and \<open>close_leaves_stale_registration\<close> in \<open>ChannelProperties\<close>.)
\<close>

theorem listen_fds_in_sync_with_kernel:
  assumes "m_fd w \<in> fds" and "m_fd t \<in> fds" and "\<And>fd. fd \<in> fds \<Longrightarrow> 0 \<le> fd"
    and "run_allowed process_step process_allowed (process_new tid w t heap fds) ops"
    and "u = run_steps process_step (process_new tid w t heap fds) ops"
  shows "refused_calls u = [] \<and> dom (registered u) = m_listen_fds (m_loop (p_reactor u))
     \<and> m_listen_fds (m_loop (p_reactor u)) \<subseteq> open_fds_of u"
proof -
  have "watching u" unfolding assms(5) by (rule process.inv_run [OF watching_new [OF assms(1-3)] assms(4)])
  then show ?thesis by (simp add: watching_def)
qed

theorem listen_fds_in_sync_with_kernel_witness:
  "let e = listen IN_EVENT (9 :: nat) (FdEvent_new 9);
       u = run_steps process_step (process_new 1 (FdEvent_new 4) (FdEvent_new 5) (\<lambda>_. e) {4, 5})
         [OpenDescriptor 9, LoopOp (AddEvent 2 9), LoopOp RunQueue, LoopOp (DeleteEvent 1 9), CloseDescriptor 9,
          OpenDescriptor 9, LoopOp (AddEvent 1 9)]
   in refused_calls u = [] \<and> dom (registered u) = {4, 5, 9} \<and> m_listen_fds (m_loop (p_reactor u)) = {4, 5, 9}"
proof -
  let ?e = "listen IN_EVENT (9 :: nat) (FdEvent_new 9)"
  let ?u0 = "process_new 1 (FdEvent_new 4) (FdEvent_new 5) (\<lambda>_. ?e) {4, 5}"
  let ?ops = "[OpenDescriptor 9, LoopOp (AddEvent 2 9), LoopOp RunQueue, LoopOp (DeleteEvent 1 9), CloseDescriptor 9,
          OpenDescriptor 9, LoopOp (AddEvent 1 9)]"
  note run = process_new_def EventLoop_new_eq ADD_TO_EPOLL_def DELETE_FROM_EPOLL_def FdEvent_new_def listen_def
    loop_goes_on_def addEpollEvent_def deleteEpollEvent_def isInLoopThread_def addTask_def loop_wakeup_def run_pending_def
    run_task_def add_queued_def
  have "run_allowed process_step process_allowed ?u0 ?ops" by (simp add: run)
  note allowed = this
  have fds: "m_fd (FdEvent_new 4 :: nat fd_event) \<in> {4, 5}" "m_fd (FdEvent_new 5 :: nat fd_event) \<in> {4, 5}"
    "\<And>fd :: int. fd \<in> {4, 5} \<Longrightarrow> 0 \<le> fd"
    by (auto simp: FdEvent_new_def)
  define u where "u = run_steps process_step ?u0 ?ops"
  have "m_listen_fds (m_loop (p_reactor u)) = {4, 5, 9}" unfolding u_def by (auto simp: run)
  moreover note listen_fds_in_sync_with_kernel [OF fds(1,2) fds(3) allowed u_def]
  ultimately show ?thesis unfolding Let_def u_def [symmetric] by simp
qed

text \<open>\<open>ADD_TO_EPOLL\<close> enters the descriptor into \<open>m_listen_fds\<close> before it calls \<open>epoll_ctl\<close> and leaves it
  there when the call fails, for example for the descriptor -1 of a timer that could not be made.  From
  then on the loop takes the event for watched: when the descriptor is open later on, adding it again is
  a modification of something the kernel does not have, and is refused too.\<close>

theorem refused_add_stays_listed:
  assumes "m_fd e \<notin> fds" and "m_fd e \<notin> m_listen_fds l" and "m (m_fd e) = None"
    and "l1 = ADD_TO_EPOLL e l" and "l2 = ADD_TO_EPOLL e l1"
  shows "m_fd e \<in> m_listen_fds l1
     \<and> m_epoll_calls l1 = m_epoll_calls l @ [Ctl CTL_ADD (m_fd e) (m_events e)]
     \<and> kernel_run fds m [Ctl CTL_ADD (m_fd e) (m_events e)] = (m, [Ctl CTL_ADD (m_fd e) (m_events e)])
     \<and> m_epoll_calls l2 = m_epoll_calls l1 @ [Ctl CTL_MOD (m_fd e) (m_events e)]
     \<and> kernel_run (insert (m_fd e) fds) m [Ctl CTL_MOD (m_fd e) (m_events e)] = (m, [Ctl CTL_MOD (m_fd e) (m_events e)])"
  using assms by (simp add: ADD_TO_EPOLL_def)

text \<open>
  C26: One round of the loop runs every callback that was queued when it began exactly once, in the
  order of the queue, skipping null callbacks; what they queue, followed by the handlers of the
  events \<open>epoll_wait\<close> reports (the read handler alone when an event is both readable and writable),
  is the queue of the next round.
\<close>

theorem loop_round_runs_queue_in_order:
  "let s' = loop_round (logging_exec queue) (Epoll_events evs) s;
       ts = m_pending_tasks (m_loop s)
   in m_log s' = m_log s @ callbacks ts
      \<and> m_pending_tasks (m_loop s') =
          concat (map queue (callbacks ts)) @ trigger_tasks (m_fd_events s) evs"
proof -
  let ?s0 = "s\<lparr>m_loop := (m_loop s)\<lparr>m_pending_tasks := []\<rparr>\<rparr>"
  let ?s1 = "foldl (\<lambda>s t. run_task (logging_exec queue) t s) ?s0 (m_pending_tasks (m_loop s))"
  have log: "m_log (foldl handle_event s1 evs) = m_log s1" for s1 :: "'a logged_reactor"
    by (induction evs arbitrary: s1) (auto simp: handle_event_def split: option.split prod.split)
  have "loop_round (logging_exec queue) (Epoll_events evs) s = foldl handle_event ?s1 evs"
    by (simp add: loop_round_def run_pending_def Let_def)
  then show ?thesis
    using run_tasks_log [of queue ?s0 "m_pending_tasks (m_loop s)"]
    by (simp add: log handle_events_pending Let_def)
qed

text \<open>
  Registering an event from another thread leaves the epoll set alone, wakes the loop, and has
  the effect of registering it in the loop's own thread once the loop runs its queue.
\<close>

theorem cross_thread_add:
  assumes "caller \<noteq> m_tid (m_loop s)" and "m_pending_tasks (m_loop s) = []"
  shows "let s1 = s\<lparr>m_loop := addEpollEvent caller p (m_fd_events s p) (m_loop s)\<rparr>;
             own = addEpollEvent (m_tid (m_loop s)) p (m_fd_events s p) (m_loop s)
         in m_listen_fds (m_loop s1) = m_listen_fds (m_loop s)
            \<and> m_epoll_calls (m_loop s1) = m_epoll_calls (m_loop s)
            \<and> run_pending exec s1 = s\<lparr>m_loop := own\<lparr>m_wakeups := m_wakeups (m_loop s) + 1\<rparr>\<rparr>"
  using assms
  by (simp add: addEpollEvent_def isInLoopThread_def addTask_def loop_wakeup_def run_pending_def
      run_task_def ADD_TO_EPOLL_def Let_def)

definition idle_reactor :: "nat reactor" where
  "idle_reactor = \<lparr>m_loop = EventLoop_new 1 (FdEvent_new 4) (FdEvent_new 5),
     m_fd_events = (\<lambda>p. listen IN_EVENT p (FdEvent_new (int p)))\<rparr>"

lemma idle_reactor_facts:
  "m_tid (m_loop idle_reactor) = 1" "m_pending_tasks (m_loop idle_reactor) = []"
  "m_listen_fds (m_loop idle_reactor) = {4, 5}" "\<not> m_stop_flag (m_loop idle_reactor)"
  "m_wakeups (m_loop idle_reactor) = 0"
  by (auto simp: idle_reactor_def EventLoop_new_eq ADD_TO_EPOLL_def FdEvent_new_def Let_def)

theorem cross_thread_add_witness:
  "let s1 = idle_reactor\<lparr>m_loop := addEpollEvent 2 9 (m_fd_events idle_reactor 9) (m_loop idle_reactor)\<rparr>
   in m_listen_fds (m_loop s1) = {4, 5} \<and> m_listen_fds (m_loop (run_pending (\<lambda>_ s. s) s1)) = {4, 5, 9}"
proof -
  have fd: "m_fd (m_fd_events idle_reactor 9) = 9" by (simp add: idle_reactor_def FdEvent_new_def)
  show ?thesis
    using cross_thread_add [of 2 idle_reactor 9 "\<lambda>_ s. s"] idle_reactor_facts fd
    by (auto simp: Let_def addEpollEvent_def isInLoopThread_def ADD_TO_EPOLL_def)
qed

text \<open>
  \<open>m_is_looping\<close> is set when \<open>loop\<close> starts and never cleared, so it still reads true after the
  loop was left, and \<open>m_stop_flag\<close> is never cleared either: a loop that was stopped once returns from
  every later \<open>loop\<close> at once and leaves its queue unserved.
\<close>

theorem stopped_loop_is_dead:
  assumes "\<And>cb s. m_is_looping (m_loop s) \<Longrightarrow> m_is_looping (m_loop (exec cb s))"
  shows "m_is_looping (m_loop (loop exec rts s))
     \<and> (let s1 = s\<lparr>m_loop := stop (m_loop s)\<rparr>
        in m_pending_tasks (m_loop (loop exec rts s1)) = m_pending_tasks (m_loop s))"
proof -
  have task: "m_is_looping (m_loop s) \<Longrightarrow> m_is_looping (m_loop (run_task exec t s))" for t s
    by (cases t) (auto simp: run_task_def assms split: option.split)
  have tasks: "m_is_looping (m_loop s) \<Longrightarrow>
      m_is_looping (m_loop (foldl (\<lambda>s t. run_task exec t s) s ts))" for ts s
    by (induction ts arbitrary: s) (simp_all add: task)
  have pend: "m_is_looping (m_loop s) \<Longrightarrow> m_is_looping (m_loop (run_pending exec s))" for s
    unfolding run_pending_def Let_def by (rule tasks) simp
  have evs: "m_is_looping (m_loop s) \<Longrightarrow> m_is_looping (m_loop (foldl handle_event s es))" for es s
    by (induction es arbitrary: s) (auto simp: handle_event_def split: option.split prod.split)
  have round: "m_is_looping (m_loop s) \<Longrightarrow> m_is_looping (m_loop (loop_round exec rt s))" for rt s
    by (cases rt) (simp_all add: loop_round_def Let_def pend evs)
  have rounds: "m_is_looping (m_loop s) \<Longrightarrow> m_is_looping (m_loop (loop_rounds exec rts s))" for s
    by (induction rts arbitrary: s) (simp_all add: pend round)
  have "loop_rounds exec rts s1 = s1" if "m_stop_flag (m_loop s1)" for s1
    using that by (cases rts) simp_all
  then show ?thesis
    by (simp add: loop_def rounds Let_def stop_def loop_wakeup_def)
qed

theorem stopped_loop_is_dead_witness:
  "let s = idle_reactor\<lparr>m_loop := addTask (Call (Some 7)) False (m_loop idle_reactor)\<rparr>
   in m_is_looping (m_loop (loop (\<lambda>_ s. s) [] s))
      \<and> m_pending_tasks (m_loop (loop (\<lambda>_ s. s) [] (s\<lparr>m_loop := stop (m_loop s)\<rparr>))) = [Call (Some 7)]"
  using stopped_loop_is_dead [of "\<lambda>_ s. s" "[]"
      "idle_reactor\<lparr>m_loop := addTask (Call (Some 7)) False (m_loop idle_reactor)\<rparr>"]
  by (simp add: Let_def idle_reactor_facts)

end
