(* ===== verification/TcpConnection.thy ===== *)
theory TcpConnection
  imports CoderContract Dispatcher EventLoop
begin

text \<open>
  One TCP connection (\<open>include/rapidrpc/net/tcp/tcp_connection.h\<close>,
  \<open>src/net/tcp/tcp_connection.cc\<close>), on the server or the client side: the two buffers, the
  descriptor's event, the loop it is watched by, and the callbacks of a client.  The socket is a
  script of results of \<open>read\<close> and \<open>write\<close>; what is written is collected in \<open>m_sent\<close>.  Closures of the
  client are values of a type \<open>'k\<close> with an interpreter \<open>run_cb\<close>; \<open>disp\<close> is the dispatcher's
  \<open>dispatch\<close> on a fresh response, and \<open>'w\<close> the state those functions work on.
\<close>

section \<open>State\<close>

datatype TcpState = NotConnected | Connected | HalfClosed | Closed

datatype TcpConnectionType = TcpConnectionByServer | TcpConnectionByClient

text \<open>\<open>m_this\<close> names the object itself.  \<open>conn_event\<close> and \<open>conn_loop\<close> are the objects \<open>m_fd_event\<close> and \<open>m_event_loop\<close> point to.
  \<open>m_remove_conn_cb\<close> tells whether that callback is set, \<open>m_removals\<close> how often it was called.\<close>

record ('k, 'w) tcp_connection =
  m_this :: nat
  m_in_buffer :: tcp_buffer
  m_out_buffer :: tcp_buffer
  conn_event :: "'k handler fd_event"
  conn_loop :: "'k handler event_loop"
  m_state :: TcpState
  m_conn_type :: TcpConnectionType
  m_remove_conn_cb :: bool
  m_removals :: nat
  m_write_cb :: "(abstract_protocol \<times> 'k) list"
  m_read_cb :: "cstring \<rightharpoonup> 'k"
  m_sent :: "byte list"
  m_world :: 'w

section \<open>Events\<close>

definition conn_addEpollEvent :: "int \<Rightarrow> ('k, 'w) tcp_connection \<Rightarrow> ('k, 'w) tcp_connection" where
  "conn_addEpollEvent caller c =
     c\<lparr>conn_loop := addEpollEvent caller (nat (m_fd (conn_event c))) (conn_event c) (conn_loop c)\<rparr>"

definition conn_deleteEpollEvent :: "int \<Rightarrow> ('k, 'w) tcp_connection \<Rightarrow> ('k, 'w) tcp_connection" where
  "conn_deleteEpollEvent caller c =
     c\<lparr>conn_loop := deleteEpollEvent caller (nat (m_fd (conn_event c))) (conn_event c) (conn_loop c)\<rparr>"

definition conn_close_event :: "('k, 'w) tcp_connection \<Rightarrow> ('k, 'w) tcp_connection" where
  "conn_close_event c =
     (let (e, closed) = close_event (conn_event c)
      in c\<lparr>conn_event := e,
           conn_loop := (case closed of
              None \<Rightarrow> conn_loop c
            | Some fd \<Rightarrow> (conn_loop c)\<lparr>m_epoll_calls := m_epoll_calls (conn_loop c) @ [CloseFd fd]\<rparr>)\<rparr>)"

definition listenWriteEvent :: "int \<Rightarrow> ('k, 'w) tcp_connection \<Rightarrow> ('k, 'w) tcp_connection" where
  "listenWriteEvent caller c =
     conn_addEpollEvent caller (c\<lparr>conn_event := listen OUT_EVENT (OnWrite (m_this c)) (conn_event c)\<rparr>)"

definition listenReadEvent :: "int \<Rightarrow> ('k, 'w) tcp_connection \<Rightarrow> ('k, 'w) tcp_connection" where
  "listenReadEvent caller c =
     conn_addEpollEvent caller (c\<lparr>conn_event := listen IN_EVENT (OnRead (m_this c)) (conn_event c)\<rparr>)"

text \<open>The two blocks are the storage the buffers reserve; a connection made by a server is watched
  for reading at once, in the loop of the thread it was assigned to.\<close>

definition TcpConnection_new :: "nat \<Rightarrow> int \<Rightarrow> 'k handler event_loop \<Rightarrow> 'k handler fd_event \<Rightarrow> byte list
    \<Rightarrow> byte list \<Rightarrow> TcpConnectionType \<Rightarrow> 'w \<Rightarrow> ('k, 'w) tcp_connection" where
  "TcpConnection_new this caller l event in_block out_block conn_type w =
     (let c = \<lparr>m_this = this, m_in_buffer = TcpBuffer_new in_block, m_out_buffer = TcpBuffer_new out_block,
               conn_event = setNonBlocking event, conn_loop = l, m_state = NotConnected, m_conn_type = conn_type,
               m_remove_conn_cb = False, m_removals = 0, m_write_cb = [], m_read_cb = Map.empty,
               m_sent = [], m_world = w\<rparr>
      in if conn_type = TcpConnectionByServer then listenReadEvent caller c else c)"

definition setState :: "TcpState \<Rightarrow> ('k, 'w) tcp_connection \<Rightarrow> ('k, 'w) tcp_connection" where
  "setState st c = c\<lparr>m_state := st\<rparr>"

definition setRemoveConnCb :: "('k, 'w) tcp_connection \<Rightarrow> ('k, 'w) tcp_connection" where
  "setRemoveConnCb c = c\<lparr>m_remove_conn_cb := True\<rparr>"

definition call_remove_conn_cb :: "('k, 'w) tcp_connection \<Rightarrow> ('k, 'w) tcp_connection" where
  "call_remove_conn_cb c = (if m_remove_conn_cb c then c\<lparr>m_removals := m_removals c + 1\<rparr> else c)"

definition addMessage :: "abstract_protocol \<Rightarrow> 'k \<Rightarrow> ('k, 'w) tcp_connection \<Rightarrow> ('k, 'w) tcp_connection" where
  "addMessage message write_cb c = c\<lparr>m_write_cb := m_write_cb c @ [(message, write_cb)]\<rparr>"

definition addReadCb :: "cstring \<Rightarrow> 'k \<Rightarrow> ('k, 'w) tcp_connection \<Rightarrow> ('k, 'w) tcp_connection" where
  "addReadCb msg_id read_cb c = c\<lparr>m_read_cb := (m_read_cb c)(msg_id \<mapsto> read_cb)\<rparr>"

section \<open>Executing what was read\<close>

type_synonym ('k, 'w) runner = "'k \<Rightarrow> abstract_protocol \<Rightarrow> ('k, 'w) tcp_connection \<Rightarrow> ('k, 'w) tcp_connection"

type_synonym 'w dispatching = "abstract_protocol \<Rightarrow> 'w \<Rightarrow> fault + tinypb_protocol \<times> 'w"

fun dispatch_all :: "'w dispatching \<Rightarrow> tinypb_protocol list \<Rightarrow> 'w \<Rightarrow> fault + tinypb_protocol list \<times> 'w" where
  "dispatch_all disp [] w = Inr ([], w)"
| "dispatch_all disp (r # rs) w =
     (case disp (TinyPB r) w of
        Inl e \<Rightarrow> Inl e
      | Inr (response, w) \<Rightarrow>
          (case dispatch_all disp rs w of
             Inl e \<Rightarrow> Inl e
           | Inr (responses, w) \<Rightarrow> Inr (response # responses, w)))"

fun run_read_cbs :: "('k, 'w) runner \<Rightarrow> tinypb_protocol list \<Rightarrow> ('k, 'w) tcp_connection
    \<Rightarrow> ('k, 'w) tcp_connection" where
  "run_read_cbs run_cb [] c = c"
| "run_read_cbs run_cb (message # messages) c =
     (let msg_id = m_msg_id message in
      run_read_cbs run_cb messages
        (case m_read_cb c msg_id of
           None \<Rightarrow> c
         | Some cb \<Rightarrow>
             (let c = run_cb cb (TinyPB message) c
              in c\<lparr>m_read_cb := (m_read_cb c)(msg_id := None)\<rparr>)))"

text \<open>\<open>None\<close> when the decoder's loop does not end.\<close>

definition execute :: "'w dispatching \<Rightarrow> ('k, 'w) runner \<Rightarrow> ('k, 'w) tcp_connection
    \<Rightarrow> (fault + ('k, 'w) tcp_connection) option" where
  "execute disp run_cb c =
     (case tinypb_decode (m_in_buffer c) of
        None \<Rightarrow> None
      | Some (Inl e) \<Rightarrow> Some (Inl e)
      | Some (Inr (messages, in_buffer)) \<Rightarrow>
          (let c = c\<lparr>m_in_buffer := in_buffer\<rparr> in
           case m_conn_type c of
             TcpConnectionByServer \<Rightarrow>
               if messages = [] then Some (Inr c)
               else (case dispatch_all disp messages (m_world c) of
                       Inl e \<Rightarrow> Some (Inl e)
                     | Inr (responses, w) \<Rightarrow>
                         Some (Inr (listenWriteEvent (m_tid (conn_loop c))
                           (c\<lparr>m_world := w,
                              m_out_buffer := snd (tinypb_encode (map TinyPB responses) (m_out_buffer c))\<rparr>))))
           | TcpConnectionByClient \<Rightarrow> Some (Inr (run_read_cbs run_cb messages c))))"

section \<open>Reading\<close>

text \<open>The results of \<open>read(fd, buf, len)\<close>: a segment, of which at most \<open>len\<close> bytes are returned and the
  rest stays in the socket (an empty one is the end of the stream), no data, or an error.  A used-up
  script means no data.\<close>

datatype sock_read = Bytes "byte list" | WouldBlock | ReadError

fun sys_read :: "nat \<Rightarrow> sock_read list \<Rightarrow> sock_read \<times> sock_read list" where
  "sys_read len [] = (if len = 0 then Bytes [] else WouldBlock, [])"
| "sys_read len (r # rs) =
     (if len = 0 then (Bytes [], r # rs)
      else case r of
        Bytes bs \<Rightarrow> if length bs \<le> len then (Bytes bs, rs) else (Bytes (take len bs), Bytes (drop len bs) # rs)
      | _ \<Rightarrow> (r, rs))"

text \<open>The loop of \<open>onRead\<close>: the buffer, the state, and whether it left by an error.  \<open>None\<close> when it
  does not end.\<close>

partial_function (option) read_loop :: "tcp_buffer \<Rightarrow> TcpState \<Rightarrow> sock_read list
    \<Rightarrow> (tcp_buffer \<times> TcpState \<times> bool) option" where
  "read_loop b st script =
     (let b = (if writeAvailable b = 0 then resizeBuffer b (2 * m_vec_size b) else b);
          write_index = writeIndex b;
          free_len = writeAvailable b
      in case sys_read (nat free_len) script of
           (WouldBlock, _) \<Rightarrow> Some (b, st, False)
         | (ReadError, _) \<Rightarrow> Some (b, st, True)
         | (Bytes bs, script) \<Rightarrow>
             (let n = int (length bs);
                  st = (if n = 0 then Closed else st);
                  b = b\<lparr>m_buffer := mem_write (m_buffer b) (nat write_index) bs\<rparr>;
                  b = moveWriteIndex b n
              in if n < free_len then Some (b, st, False) else read_loop b st script))"

definition onRead :: "'w dispatching \<Rightarrow> ('k, 'w) runner \<Rightarrow> sock_read list \<Rightarrow> ('k, 'w) tcp_connection
    \<Rightarrow> (fault + ('k, 'w) tcp_connection) option" where
  "onRead disp run_cb script c =
     (if m_state c \<noteq> Connected then Some (Inr c)
      else case read_loop (m_in_buffer c) (m_state c) script of
             None \<Rightarrow> None
           | Some (in_buffer, st, failed) \<Rightarrow>
               (let c = c\<lparr>m_in_buffer := in_buffer, m_state := st\<rparr> in
                if failed then Some (Inr c)
                else if m_state c = Closed
                then let c = conn_deleteEpollEvent (m_tid (conn_loop c)) c;
                         c = conn_close_event c
                     in Some (Inr (call_remove_conn_cb c))
                else execute disp run_cb c))"

section \<open>Writing\<close>

datatype sock_write = Accept nat | WriteBlocks | WriteError

datatype write_end = AllSent | Blocked | WriteFailed

text \<open>\<open>write\<close> takes at most what it is given; the bytes it took are collected.\<close>

fun write_loop :: "sock_write list \<Rightarrow> tcp_buffer \<Rightarrow> byte list \<Rightarrow> tcp_buffer \<times> byte list \<times> write_end" where
  "write_loop [] b sent = (b, sent, Blocked)"
| "write_loop (WriteBlocks # script) b sent = (b, sent, Blocked)"
| "write_loop (WriteError # script) b sent = (b, sent, WriteFailed)"
| "write_loop (Accept k # script) b sent =
     (let read_index = readIndex b;
          len = readAvailable b;
          n = min (int k) len;
          sent = sent @ mem_read (m_buffer b) (nat read_index) (nat n);
          b = moveReadIndex b n
      in if n \<ge> len then (b, sent, AllSent) else write_loop script b sent)"

text \<open>The loop over \<open>m_write_cb\<close> reads the vector's size in every round, so a message that a callback
  adds is also visited.\<close>

partial_function (option) run_write_cbs :: "('k, 'w) runner \<Rightarrow> nat \<Rightarrow> ('k, 'w) tcp_connection
    \<Rightarrow> ('k, 'w) tcp_connection option" where
  "run_write_cbs run_cb i c =
     (if i < length (m_write_cb c)
      then run_write_cbs run_cb (i + 1) (run_cb (snd (m_write_cb c ! i)) (fst (m_write_cb c ! i)) c)
      else Some c)"

definition encode_waiting :: "('k, 'w) tcp_connection \<Rightarrow> ('k, 'w) tcp_connection" where
  "encode_waiting c =
     (let (messages, out_buffer) = tinypb_encode (map fst (m_write_cb c)) (m_out_buffer c)
      in c\<lparr>m_write_cb := zip messages (map snd (m_write_cb c)), m_out_buffer := out_buffer\<rparr>)"

definition onWrite :: "('k, 'w) runner \<Rightarrow> sock_write list \<Rightarrow> ('k, 'w) tcp_connection
    \<Rightarrow> ('k, 'w) tcp_connection option" where
  "onWrite run_cb script c =
     (if m_state c \<noteq> Connected then Some c
      else
        let c = (if m_conn_type c = TcpConnectionByClient then encode_waiting c else c) in
        if readAvailable (m_out_buffer c) = 0 then Some c
        else
          let (out_buffer, sent, how) = write_loop script (m_out_buffer c) [];
              c = c\<lparr>m_out_buffer := out_buffer, m_sent := m_sent c @ sent\<rparr>
          in if how = WriteFailed then Some c
             else
               let c = (if how = AllSent
                        then conn_addEpollEvent (m_tid (conn_loop c))
                               (c\<lparr>conn_event := clearEvent OUT_EVENT (conn_event c)\<rparr>)
                        else c)
               in if m_conn_type c = TcpConnectionByClient
                  then map_option (\<lambda>c. c\<lparr>m_write_cb := []\<rparr>) (run_write_cbs run_cb 0 c)
                  else Some c)"

section \<open>Closing\<close>

definition shutdown :: "int \<Rightarrow> ('k, 'w) tcp_connection \<Rightarrow> ('k, 'w) tcp_connection" where
  "shutdown caller c =
     (if m_state c = Closed \<or> m_state c = NotConnected then c
      else
        let c = c\<lparr>m_state := HalfClosed\<rparr>;
            c = conn_deleteEpollEvent caller c;
            c = conn_close_event c
        in call_remove_conn_cb c)"

section \<open>Buffers with room behind the write index\<close>

text \<open>\<open>moveWriteIndex\<close> refuses to reach the end of the block, so the input buffer of a connection
  always keeps a free byte there; \<open>roomy\<close> is that invariant, which decoding also keeps.\<close>

definition roomy :: "tcp_buffer \<Rightarrow> bool" where
  "roomy b \<longleftrightarrow> wf_buffer b \<and> m_write_index b < m_size b"

lemma m_size_decode_ops [simp]:
  "m_size (moveWriteIndex b n) = m_size b"
  by (simp add: moveWriteIndex_def Let_def)

lemma roomy_size_pos: "roomy b \<Longrightarrow> 0 < m_size b"
  by (simp add: roomy_def wf_buffer_def)

lemma roomy_moveReadIndex:
  assumes "roomy b" and "0 \<le> m_read_index b + n"
  shows "roomy (moveReadIndex b n)"
  using assms wf_moveReadIndex [of b n] roomy_size_pos [of b]
  by (auto simp: roomy_def moveReadIndex_def shiftBuffer_def Let_def readAvailable_def)

lemma m_write_index_shiftBuffer:
  "0 \<le> m_read_index b \<Longrightarrow> m_write_index (shiftBuffer b) \<le> m_write_index b"
  by (simp add: shiftBuffer_def Let_def readAvailable_def)

lemma readFromBuffer_shape:
  "fst (snd (readFromBuffer b data len)) = b
   \<or> (0 < len \<and> 0 < readAvailable b
       \<and> fst (snd (readFromBuffer b data len)) = shiftBuffer (b\<lparr>m_read_index := m_read_index b + min len (readAvailable b)\<rparr>))"
  by (simp add: readFromBuffer_def Let_def not_le)

lemma roomy_readFromBuffer:
  assumes "roomy b"
  shows "roomy (fst (snd (readFromBuffer b data len)))"
    and "m_size (fst (snd (readFromBuffer b data len))) = m_size b"
proof -
  have wf: "wf_buffer b" and lt: "m_write_index b < m_size b" and r: "0 \<le> m_read_index b"
    using assms by (simp_all add: roomy_def wf_buffer_def)
  from readFromBuffer_shape [of b data len]
  have "roomy (fst (snd (readFromBuffer b data len)))
      \<and> m_size (fst (snd (readFromBuffer b data len))) = m_size b"
  proof
    assume "fst (snd (readFromBuffer b data len)) = b"
    with assms show ?thesis by simp
  next
    let ?b = "b\<lparr>m_read_index := m_read_index b + min len (readAvailable b)\<rparr>"
    assume sh: "0 < len \<and> 0 < readAvailable b \<and> fst (snd (readFromBuffer b data len)) = shiftBuffer ?b"
    have "m_write_index (shiftBuffer ?b) \<le> m_write_index ?b"
      using sh r by (intro m_write_index_shiftBuffer) (simp add: min_def)
    moreover have "wf_buffer (shiftBuffer ?b)"
      using sh advance_read_index(1) [OF wf, of "min len (readAvailable b)"]
      by (intro wf_shiftBuffer) (simp add: min_def)
    ultimately show ?thesis using sh lt by (simp add: roomy_def)
  qed
  then show "roomy (fst (snd (readFromBuffer b data len)))"
    and "m_size (fst (snd (readFromBuffer b data len))) = m_size b" by simp_all
qed

lemma roomy_skip_to_start:
  "roomy b \<Longrightarrow> roomy (skip_to_start b) \<and> m_size (skip_to_start b) = m_size b"
proof (induction b rule: skip_to_start.induct)
  case (1 b)
  then show ?case
    using roomy_moveReadIndex [of b 1]
    by (subst (1 2) skip_to_start.simps) (auto simp: roomy_def wf_buffer_def)
qed

lemma roomy_decode_iter:
  assumes "roomy b"
  shows "decode_iter b = Return b' \<Longrightarrow> roomy b' \<and> m_size b' = m_size b"
    and "decode_iter b = Again b' mo \<Longrightarrow> roomy b' \<and> m_size b' = m_size b"
proof -
  define b1 where "b1 = skip_to_start b"
  define pk32 where "pk32 = ntohl_at (m_buffer b1) (nat (readIndex b1 + 1))"
  have b1: "roomy b1" "m_size b1 = m_size b"
    using roomy_skip_to_start [OF assms] by (simp_all add: b1_def)
  note iter = decode_iter_def [of b, folded b1_def, unfolded Let_def, folded pk32_def]
  show "decode_iter b = Return b' \<Longrightarrow> roomy b' \<and> m_size b' = m_size b"
    using b1 unfolding iter
    by (auto split: if_splits prod.splits field.splits)
  assume again: "decode_iter b = Again b' mo"
  let ?rd = "readFromBuffer b1 (replicate (nat (sint pk32)) 0) (sint pk32)"
  from again have "(b' = moveReadIndex b1 (sint pk32) \<and> 0 \<le> readIndex b1 + sint pk32 - 1)
      \<or> b' = fst (snd ?rd)"
    unfolding iter by (auto split: if_splits prod.splits field.splits)
  then show "roomy b' \<and> m_size b' = m_size b"
    using b1 roomy_moveReadIndex [OF b1(1), of "sint pk32"] roomy_readFromBuffer [OF b1(1)]
    by (auto simp: readIndex_def)
qed

lemma roomy_decode_loop:
  assumes "decode_loop out b = Some r"
  shows "roomy b \<longrightarrow> (\<forall>ms b'. r = Inr (ms, b') \<longrightarrow> roomy b' \<and> m_size b' = m_size b)"
proof (rule decode_loop.raw_induct [where P = "\<lambda>_ b r. roomy b \<longrightarrow>
      (\<forall>ms b'. r = Inr (ms, b') \<longrightarrow> roomy b' \<and> m_size b' = m_size b)", OF _ assms])
  fix f :: "tinypb_protocol list \<Rightarrow> tcp_buffer \<Rightarrow> (fault + tinypb_protocol list \<times> tcp_buffer) option"
    and out b r
  assume IH: "\<And>out b r. f out b = Some r \<Longrightarrow> roomy b \<longrightarrow>
      (\<forall>ms b'. r = Inr (ms, b') \<longrightarrow> roomy b' \<and> m_size b' = m_size b)"
    and body: "(case decode_iter b of Return b' \<Rightarrow> Some (Inr (out, b'))
      | Again b' message \<Rightarrow> f (out @ opt_list message) b' | Crash e \<Rightarrow> Some (Inl e)) = Some r"
  show "roomy b \<longrightarrow> (\<forall>ms b'. r = Inr (ms, b') \<longrightarrow> roomy b' \<and> m_size b' = m_size b)"
  proof (cases "decode_iter b")
    case (Return b1)
    with body have "r = Inr (out, b1)" by simp
    with roomy_decode_iter(1) [OF _ Return] show ?thesis by simp
  next
    case (Again b1 mo)
    with body have "f (out @ opt_list mo) b1 = Some r" by simp
    note ih = IH [OF this]
    show ?thesis
    proof (intro impI allI)
      fix ms b'
      assume "roomy b" and r: "r = Inr (ms, b')"
      from roomy_decode_iter(2) [OF this(1) Again] have "roomy b1" "m_size b1 = m_size b" by simp_all
      with ih r show "roomy b' \<and> m_size b' = m_size b" by simp
    qed
  next
    case (Crash e)
    with body have "r = Inl e" by simp
    then show ?thesis by simp
  qed
qed

lemma roomy_tinypb_decode:
  "tinypb_decode b = Some (Inr (ms, b')) \<Longrightarrow> roomy b \<Longrightarrow> roomy b' \<and> m_size b' = m_size b"
  using roomy_decode_loop [of "[]" b "Inr (ms, b')"] by (simp add: tinypb_decode_def)

section \<open>Reading\<close>

lemma sys_read_short: "sys_read len script = (Bytes bs, script') \<Longrightarrow> length bs \<le> len"
  by (cases script) (auto split: if_splits sock_read.splits)

lemma sys_read_progress:
  "sys_read len script = (Bytes bs, script') \<Longrightarrow> 0 < len \<Longrightarrow> length bs = len \<Longrightarrow>
     script \<noteq> [] \<and> (\<exists>cs. script = Bytes cs # tl script \<and> len \<le> length cs
       \<and> (script' = tl script \<or> script' = Bytes (drop len cs) # tl script \<and> len < length cs))"
  by (cases script) (auto split: if_splits sock_read.splits)

fun script_bytes :: "sock_read list \<Rightarrow> nat" where
  "script_bytes [] = 0"
| "script_bytes (Bytes bs # r) = Suc (length bs) + script_bytes r"
| "script_bytes (_ # r) = Suc (script_bytes r)"

lemma script_bytes_decreases:
  assumes "sys_read len script = (Bytes bs, script')" and "0 < len" and "length bs = len"
  shows "script_bytes script' < script_bytes script"
proof -
  from sys_read_progress [OF assms] obtain cs r where script: "script = Bytes cs # r" and
    "script' = r \<or> script' = Bytes (drop len cs) # r \<and> len < length cs"
    by (metis list.sel(3))
  then show ?thesis using assms(2) by (elim disjE) (simp_all, linarith)
qed

text \<open>A connection's input buffer always has a free byte behind its write index, so the loop never
  resizes it, every round but the last consumes input, and the loop ends.\<close>

lemma roomy_after_read:
  assumes "roomy b" and "int (length bs) \<le> writeAvailable b"
  shows "roomy (moveWriteIndex (b\<lparr>m_buffer := mem_write (m_buffer b) (nat (writeIndex b)) bs\<rparr>) (int (length bs)))"
    (is "roomy ?b'")
proof (cases "int (length bs) = writeAvailable b")
  case True
  have wf: "wf_buffer b" using assms(1) by (simp add: roomy_def)
  from moveWriteIndex_refuses [OF wf True] assms(1) show ?thesis
    by (simp add: roomy_def writeIndex_def)
next
  case False
  then have "int (length bs) < writeAvailable b" using assms(2) by simp
  with moveWriteIndex_accepts(1) [of b bs] assms(1) show ?thesis
    by (auto simp: roomy_def writeIndex_def moveWriteIndex_def writeAvailable_def)
qed

lemma content_after_read:
  assumes "roomy b" and "int (length bs) \<le> writeAvailable b"
  shows "\<exists>ys. content (moveWriteIndex (b\<lparr>m_buffer := mem_write (m_buffer b) (nat (writeIndex b)) bs\<rparr>)
                   (int (length bs))) = content b @ ys"
proof (cases "int (length bs) = writeAvailable b")
  case True
  have wf: "wf_buffer b" using assms(1) by (simp add: roomy_def)
  from moveWriteIndex_refuses [OF wf True] show ?thesis by (auto simp: writeIndex_def)
next
  case False
  then have "int (length bs) < writeAvailable b" using assms(2) by simp
  with moveWriteIndex_accepts(2) [of b bs] assms(1) show ?thesis
    by (auto simp: roomy_def writeIndex_def)
qed

lemma read_loop_total:
  "roomy b \<Longrightarrow> \<exists>b' st' failed. read_loop b st script = Some (b', st', failed)
     \<and> roomy b' \<and> m_size b' = m_size b \<and> (st' = st \<or> st' = Closed) \<and> (\<exists>ys. content b' = content b @ ys)
     \<and> (failed \<longrightarrow> st' = st)"
proof (induction "script_bytes script" arbitrary: b st script rule: less_induct)
  case less
  let ?free = "writeAvailable b"
  have free: "0 < ?free" using less.prems by (simp add: roomy_def writeAvailable_def)
  obtain r script' where sys: "sys_read (nat ?free) script = (r, script')"
    by (cases "sys_read (nat ?free) script")
  show ?case
  proof (cases r)
    case (Bytes bs)
    let ?b = "moveWriteIndex (b\<lparr>m_buffer := mem_write (m_buffer b) (nat (writeIndex b)) bs\<rparr>) (int (length bs))"
    let ?st = "if int (length bs) = 0 then Closed else st"
    have le: "int (length bs) \<le> ?free"
      using sys_read_short [OF sys [unfolded Bytes]] free by linarith
    note room = roomy_after_read [OF less.prems le]
    have sz: "m_size ?b = m_size b" by simp
    obtain ys where ys: "content ?b = content b @ ys" using content_after_read [OF less.prems le] by auto
    have step: "read_loop b st script = (if int (length bs) < ?free then Some (?b, ?st, False)
        else read_loop ?b ?st script')"
      using free sys Bytes by (subst read_loop.simps) (simp add: Let_def)
    show ?thesis
    proof (cases "int (length bs) < ?free")
      case True
      with step room sz ys show ?thesis by auto
    next
      case False
      with le have "length bs = nat ?free" by linarith
      then have "script_bytes script' < script_bytes script"
        using script_bytes_decreases [OF sys [unfolded Bytes]] free by simp
      from less.hyps [OF this room, of ?st] obtain b' st' failed zs where
        "read_loop ?b ?st script' = Some (b', st', failed)" "roomy b'" "m_size b' = m_size ?b"
        "st' = ?st \<or> st' = Closed" "content b' = content ?b @ zs" "failed \<longrightarrow> st' = ?st" by blast
      with step False sz ys free show ?thesis by (auto split: if_splits)
    qed
  qed (use free sys less.prems in \<open>subst read_loop.simps, force simp: Let_def\<close>)+
qed

text \<open>A segment that leaves a byte free is appended; one that fills the buffer is thrown away.\<close>

lemma read_loop_segment:
  assumes "roomy b" and "bs \<noteq> []" and "int (length bs) < writeAvailable b"
  shows "\<exists>b'. read_loop b st (Bytes bs # script) = Some (b', st, False) \<and> roomy b'
     \<and> m_size b' = m_size b \<and> content b' = content b @ bs"
proof -
  let ?b = "moveWriteIndex (b\<lparr>m_buffer := mem_write (m_buffer b) (nat (writeIndex b)) bs\<rparr>) (int (length bs))"
  have "length bs \<le> nat (writeAvailable b)" using assms(3) by linarith
  then have "read_loop b st (Bytes bs # script) = Some (?b, st, False)"
    using assms by (subst read_loop.simps) (auto simp: Let_def)
  moreover have "content ?b = content b @ bs"
    using moveWriteIndex_accepts(2) [of b bs] assms by (simp add: roomy_def writeIndex_def)
  ultimately show ?thesis using roomy_after_read [of b bs] assms by simp
qed

lemma read_loop_full_segment:
  assumes "roomy b" and "int (length bs) = writeAvailable b"
  shows "\<exists>b'. read_loop b st [Bytes bs] = Some (b', st, False) \<and> roomy b'
     \<and> m_size b' = m_size b \<and> content b' = content b"
proof -
  let ?b1 = "b\<lparr>m_buffer := mem_write (m_buffer b) (nat (m_write_index b)) bs\<rparr>"
  have wf: "wf_buffer b" and pos: "0 < writeAvailable b"
    using assms(1) by (simp_all add: roomy_def writeAvailable_def)
  note refuse = moveWriteIndex_refuses [OF wf assms(2)]
  have b1: "roomy ?b1" using assms(1) refuse(2) by (simp add: roomy_def)
  have "length bs = nat (writeAvailable b)" "bs \<noteq> []" using assms(2) pos by auto
  then have "read_loop b st [Bytes bs] = read_loop ?b1 st []"
    using assms(2) pos refuse(1) by (subst read_loop.simps) (simp add: Let_def writeIndex_def)
  also have "... = Some (?b1, st, False)"
    using pos by (subst read_loop.simps) (simp add: Let_def writeAvailable_def)
  finally show ?thesis using b1 refuse(3) by simp
qed

text \<open>Decoding what was read.\<close>

lemma decode_content:
  assumes "roomy b" and "parse_stream (content b) = Some (ms, r)"
  shows "\<exists>b'. tinypb_decode b = Some (Inr (ms, b')) \<and> roomy b' \<and> m_size b' = m_size b \<and> content b' = r"
proof -
  from decode_loop_parse [of b ms r "[]"] assms obtain b' where
    "tinypb_decode b = Some (Inr (ms, b'))" "content b' = r"
    by (auto simp: tinypb_decode_def roomy_def)
  with roomy_tinypb_decode [of b ms b'] assms(1) show ?thesis by auto
qed

section \<open>Answering\<close>

abbreviation dispatching :: "('app, 'pb) dispatcher \<Rightarrow> (runtime \<times> 'app) dispatching" where
  "dispatching d \<equiv> (\<lambda>r w. dispatch d r (TinyPB TinyPBProtocol_new) w)"

lemma dispatch_echoes:
  "\<exists>resp w'. dispatching d (TinyPB req) w = Inr (resp, w') \<and> m_msg_id resp = m_msg_id req
     \<and> m_method_name resp = m_method_name req"
proof (cases rule: dispatch_cases [of d req w])
  case (refused err info)
  then show ?thesis by (auto simp: dispatch_fresh)
next
  case (called service md fr name)
  show ?thesis
    unfolding dispatch_fresh dispatch_called [OF called] by (simp add: split_def Let_def)
qed

lemma dispatch_all_total:
  "\<exists>resps w'. dispatch_all (dispatching d) reqs w = Inr (resps, w')
     \<and> map m_msg_id resps = map m_msg_id reqs \<and> map m_method_name resps = map m_method_name reqs"
proof (induction reqs arbitrary: w)
  case Nil
  then show ?case by simp
next
  case (Cons r rs)
  obtain resp w1 where r: "dispatching d (TinyPB r) w = Inr (resp, w1)"
    "m_msg_id resp = m_msg_id r" "m_method_name resp = m_method_name r"
    using dispatch_echoes by blast
  from Cons.IH [of w1] obtain resps w2 where "dispatch_all (dispatching d) rs w1 = Inr (resps, w2)"
    "map m_msg_id resps = map m_msg_id rs" "map m_method_name resps = map m_method_name rs" by blast
  with r show ?case by simp
qed

lemma conn_addEpollEvent_facts [simp]:
  "m_in_buffer (conn_addEpollEvent k c) = m_in_buffer c" "m_out_buffer (conn_addEpollEvent k c) = m_out_buffer c"
  "m_state (conn_addEpollEvent k c) = m_state c" "m_world (conn_addEpollEvent k c) = m_world c"
  "m_conn_type (conn_addEpollEvent k c) = m_conn_type c" "m_read_cb (conn_addEpollEvent k c) = m_read_cb c"
  "m_write_cb (conn_addEpollEvent k c) = m_write_cb c" "m_sent (conn_addEpollEvent k c) = m_sent c"
  "conn_event (conn_addEpollEvent k c) = conn_event c" "m_removals (conn_addEpollEvent k c) = m_removals c"
  "m_remove_conn_cb (conn_addEpollEvent k c) = m_remove_conn_cb c"
  by (simp_all add: conn_addEpollEvent_def)

lemma listenEvent_facts [simp]:
  "m_in_buffer (listenWriteEvent k c) = m_in_buffer c" "m_out_buffer (listenWriteEvent k c) = m_out_buffer c"
  "m_state (listenWriteEvent k c) = m_state c" "m_world (listenWriteEvent k c) = m_world c"
  "m_conn_type (listenWriteEvent k c) = m_conn_type c" "m_sent (listenWriteEvent k c) = m_sent c"
  "conn_event (listenWriteEvent k c) = listen OUT_EVENT (OnWrite (m_this c)) (conn_event c)"
  "m_read_cb (listenWriteEvent k c) = m_read_cb c" "m_write_cb (listenWriteEvent k c) = m_write_cb c"
  "m_in_buffer (listenReadEvent k c) = m_in_buffer c" "m_out_buffer (listenReadEvent k c) = m_out_buffer c"
  "m_state (listenReadEvent k c) = m_state c" "m_world (listenReadEvent k c) = m_world c"
  "m_conn_type (listenReadEvent k c) = m_conn_type c" "m_sent (listenReadEvent k c) = m_sent c"
  "conn_event (listenReadEvent k c) = listen IN_EVENT (OnRead (m_this c)) (conn_event c)"
  "m_read_cb (listenReadEvent k c) = m_read_cb c" "m_write_cb (listenReadEvent k c) = m_write_cb c"
  by (simp_all add: listenWriteEvent_def listenReadEvent_def)

definition wf_conn :: "int \<Rightarrow> ('k, 'w) tcp_connection \<Rightarrow> bool" where
  "wf_conn n c \<longleftrightarrow> roomy (m_in_buffer c) \<and> m_size (m_in_buffer c) = n \<and> wf_buffer (m_out_buffer c)"

lemma server_onRead:
  assumes "wf_conn n c" and "m_state c = Connected" and "m_conn_type c = TcpConnectionByServer"
    and "bs \<noteq> []" and "int (length bs) < writeAvailable (m_in_buffer c)"
    and "parse_stream (content (m_in_buffer c) @ bs) = Some (reqs, rest)"
    and "dispatch_all disp reqs (m_world c) = Inr (resps, w')"
  shows "\<exists>c'. onRead disp run_cb (Bytes bs # script) c = Some (Inr c') \<and> wf_conn n c' \<and> m_state c' = Connected
     \<and> m_conn_type c' = TcpConnectionByServer
     \<and> content (m_in_buffer c') = rest
     \<and> content (m_out_buffer c') = content (m_out_buffer c) @ concat (map wire resps)
     \<and> m_world c' = w' \<and> m_sent c' = m_sent c
     \<and> (reqs = [] \<and> conn_event c' = conn_event c \<or> conn_event c' = listen OUT_EVENT (OnWrite (m_this c)) (conn_event c))"
proof -
  from read_loop_segment [OF _ assms(4,5), of Connected script] assms(1) obtain b1 where
    b1: "read_loop (m_in_buffer c) Connected (Bytes bs # script) = Some (b1, Connected, False)" "roomy b1"
      "m_size b1 = n" "content b1 = content (m_in_buffer c) @ bs"
    by (auto simp: wf_conn_def)
  from decode_content [OF b1(2), of reqs rest] b1(3,4) assms(6) obtain b2 where
    b2: "tinypb_decode b1 = Some (Inr (reqs, b2))" "roomy b2" "m_size b2 = n" "content b2 = rest" by auto
  have out: "wf_buffer (m_out_buffer c)" using assms(1) by (simp add: wf_conn_def)
  note enc = content_tinypb_encode [OF out, of resps]
  show ?thesis
  proof (cases "reqs = []")
    case True
    with assms(7) have "resps = []" "w' = m_world c" by simp_all
    with True b1(1) b2 assms(1-3) show ?thesis
      by (simp add: onRead_def execute_def wf_conn_def Let_def)
  next
    case False
    with b1(1) b2 enc assms(1-3,7) show ?thesis
      by (simp add: onRead_def execute_def wf_conn_def Let_def)
  qed
qed

section \<open>Writing\<close>

lemma wf_tinypb_encode: "wf_buffer b \<Longrightarrow> wf_buffer (snd (tinypb_encode ms b))"
  by (induction ms arbitrary: b)
    (auto simp: split_def Let_def wf_writeToBuffer split: option.split)

lemma mem_read_content:
  assumes "wf_buffer b" and "n \<le> length (content b)"
  shows "mem_read (m_buffer b) (nat (readIndex b)) n = take n (content b)"
proof -
  have "n \<le> nat (readAvailable b)" using assms length_content [OF assms(1)] by linarith
  from mem_read_take [OF this] show ?thesis by (simp add: content_def readIndex_def)
qed

lemma write_loop_facts:
  assumes "wf_buffer b" and "content b \<noteq> []"
  shows "\<exists>b' s how. write_loop script b sent = (b', sent @ s, how) \<and> wf_buffer b'
     \<and> content b = s @ content b' \<and> (how = AllSent \<longleftrightarrow> content b' = [])"
  using assms
proof (induction script arbitrary: b sent)
  case Nil
  then show ?case by auto
next
  case (Cons w script)
  show ?case
  proof (cases w)
    case (Accept k)
    let ?n = "min k (length (content b))"
    let ?b = "moveReadIndex b (int ?n)" and ?s = "take ?n (content b)"
    have av: "readAvailable b = int (length (content b))" using length_content [OF Cons.prems(1)] by simp
    have n: "min (int k) (readAvailable b) = int ?n" by (simp add: av min_def)
    have bytes: "mem_read (m_buffer b) (nat (readIndex b)) (nat (int ?n)) = ?s"
      using mem_read_content [OF Cons.prems(1), of ?n] by simp
    have b: "wf_buffer ?b" "content ?b = drop ?n (content b)"
      using wf_moveReadIndex [OF Cons.prems(1), of "int ?n"] wf_buffer_bounds(1) [OF Cons.prems(1)]
        Cons.prems(1) [unfolded wf_buffer_def] content_moveReadIndex [OF Cons.prems(1), of "int ?n"]
      by simp_all
    have step: "write_loop (Accept k # script) b sent =
        (if int ?n \<ge> readAvailable b then (?b, sent @ ?s, AllSent) else write_loop script ?b (sent @ ?s))"
      by (simp only: write_loop.simps Let_def n bytes)
    show ?thesis
    proof (cases "int ?n \<ge> readAvailable b")
      case True
      then have "length (content b) \<le> ?n" using av by linarith
      then have "content ?b = []" "content b = ?s @ content ?b" using b(2) by simp_all
      moreover have "write_loop (w # script) b sent = (?b, sent @ ?s, AllSent)"
        using True step Accept by simp
      ultimately show ?thesis using b(1) by blast
    next
      case False
      then have "?n < length (content b)" using av by linarith
      then have "content ?b \<noteq> []" using b(2) by simp
      from Cons.IH [OF b(1) this, of "sent @ ?s"] obtain b' s how where
        ih: "write_loop script ?b (sent @ ?s) = (b', (sent @ ?s) @ s, how)" "wf_buffer b'"
        "content ?b = s @ content b'" "how = AllSent \<longleftrightarrow> content b' = []" by blast
      have "content b = ?s @ drop ?n (content b)" by simp
      also have "drop ?n (content b) = s @ content b'" using b(2) ih(3) by simp
      finally have "content b = (?s @ s) @ content b'" by simp
      moreover have "write_loop (w # script) b sent = (b', sent @ (?s @ s), how)"
        using False step Accept ih(1) by simp
      ultimately show ?thesis using ih(2,4) by blast
    qed
  qed (use Cons.prems in auto)
qed

text \<open>Closures that keep a predicate of the connection keep it through the two callback loops.\<close>

lemma run_read_cbs_keeps:
  assumes "\<And>k m c. P c \<Longrightarrow> P (run_cb k m c)" and "\<And>c f. P c \<Longrightarrow> P (c\<lparr>m_read_cb := f\<rparr>)"
  shows "P c \<Longrightarrow> P (run_read_cbs run_cb ms c)"
  by (induction ms arbitrary: c) (auto simp: Let_def assms split: option.split)

lemma run_write_cbs_keeps:
  assumes "run_write_cbs run_cb i c = Some c'" and "\<And>k m c. P c \<Longrightarrow> P (run_cb k m c)"
  shows "P c \<longrightarrow> P c'"
proof -
  have "run_cb = run_cb \<longrightarrow> P c \<longrightarrow> P c'"
    by (rule run_write_cbs.raw_induct [where P = "\<lambda>r _ c c'. r = run_cb \<longrightarrow> P c \<longrightarrow> P c'", OF _ assms(1)])
      (auto simp: assms(2) split: if_splits)
  then show ?thesis by simp
qed

section \<open>Runs of a connection\<close>

datatype 'k conn_op =
    DoRead "sock_read list"
  | DoWrite "sock_write list"
  | DoShutdown int
  | DoAddMessage abstract_protocol 'k
  | DoAddReadCb cstring 'k
  | DoListenRead int
  | DoListenWrite int

fun conn_step :: "'w dispatching \<Rightarrow> ('k, 'w) runner \<Rightarrow> ('k, 'w) tcp_connection \<Rightarrow> 'k conn_op
    \<Rightarrow> ('k, 'w) tcp_connection" where
  "conn_step disp run_cb c (DoRead script) =
     (case onRead disp run_cb script c of Some (Inr c') \<Rightarrow> c' | _ \<Rightarrow> c)"
| "conn_step disp run_cb c (DoWrite script) = (case onWrite run_cb script c of Some c' \<Rightarrow> c' | None \<Rightarrow> c)"
| "conn_step disp run_cb c (DoShutdown caller) = shutdown caller c"
| "conn_step disp run_cb c (DoAddMessage m k) = addMessage m k c"
| "conn_step disp run_cb c (DoAddReadCb i k) = addReadCb i k c"
| "conn_step disp run_cb c (DoListenRead caller) = listenReadEvent caller c"
| "conn_step disp run_cb c (DoListenWrite caller) = listenWriteEvent caller c"

text \<open>The closures of a program may do anything to the connection that keeps its buffers sound.\<close>

definition keeps_buffers :: "int \<Rightarrow> ('k, 'w) runner \<Rightarrow> bool" where
  "keeps_buffers n run_cb \<longleftrightarrow> (\<forall>k m c. wf_conn n c \<longrightarrow> wf_conn n (run_cb k m c))"

lemma wf_conn_updates [simp]:
  "wf_conn n (c\<lparr>m_read_cb := f\<rparr>) = wf_conn n c" "wf_conn n (c\<lparr>m_write_cb := g\<rparr>) = wf_conn n c"
  "wf_conn n (c\<lparr>m_state := st\<rparr>) = wf_conn n c" "wf_conn n (c\<lparr>m_world := w\<rparr>) = wf_conn n c"
  "wf_conn n (c\<lparr>m_sent := bs\<rparr>) = wf_conn n c" "wf_conn n (c\<lparr>conn_event := e\<rparr>) = wf_conn n c"
  "wf_conn n (c\<lparr>conn_loop := l\<rparr>) = wf_conn n c" "wf_conn n (c\<lparr>m_removals := r\<rparr>) = wf_conn n c"
  "wf_conn n (conn_addEpollEvent k c) = wf_conn n c" "wf_conn n (conn_deleteEpollEvent k c) = wf_conn n c"
  "wf_conn n (conn_close_event c) = wf_conn n c" "wf_conn n (call_remove_conn_cb c) = wf_conn n c"
  "wf_conn n (listenWriteEvent k c) = wf_conn n c" "wf_conn n (listenReadEvent k c) = wf_conn n c"
  by (simp_all add: wf_conn_def conn_deleteEpollEvent_def conn_close_event_def
      call_remove_conn_cb_def split_def Let_def)

lemma wf_conn_execute:
  assumes "wf_conn n c" and "keeps_buffers n run_cb" and "execute disp run_cb c = Some (Inr c')"
  shows "wf_conn n c'"
proof -
  from assms(3) obtain ms b where dec: "tinypb_decode (m_in_buffer c) = Some (Inr (ms, b))"
    by (auto simp: execute_def split: option.splits sum.splits)
  let ?c = "c\<lparr>m_in_buffer := b\<rparr>"
  have c: "wf_conn n ?c"
    using roomy_tinypb_decode [OF dec] assms(1) by (simp add: wf_conn_def)
  show ?thesis
  proof (cases "m_conn_type c")
    case TcpConnectionByServer
    show ?thesis
    proof (cases "ms = []")
      case True
      with TcpConnectionByServer dec assms(3) c show ?thesis by (simp add: execute_def)
    next
      case False
      then obtain resps w where "dispatch_all disp ms (m_world c) = Inr (resps, w)"
        using TcpConnectionByServer dec assms(3) by (auto simp: execute_def Let_def split: sum.splits)
      with False TcpConnectionByServer dec assms(3) c show ?thesis
        by (auto simp: execute_def Let_def wf_conn_def wf_tinypb_encode)
    qed
  next
    case TcpConnectionByClient
    have "c' = run_read_cbs run_cb ms ?c"
      using TcpConnectionByClient dec assms(3) by (simp add: execute_def)
    then show ?thesis
      using c assms(2) run_read_cbs_keeps [of "wf_conn n" run_cb ?c ms]
      by (simp add: keeps_buffers_def)
  qed
qed

lemma wf_conn_onRead:
  assumes "wf_conn n c" and "keeps_buffers n run_cb" and "onRead disp run_cb script c = Some (Inr c')"
  shows "wf_conn n c'"
proof (cases "m_state c = Connected")
  case False
  with assms show ?thesis by (simp add: onRead_def)
next
  case True
  obtain b st failed where rd: "read_loop (m_in_buffer c) Connected script = Some (b, st, failed)"
    "roomy b" "m_size b = m_size (m_in_buffer c)"
    using read_loop_total [of "m_in_buffer c" Connected script] assms(1) by (auto simp: wf_conn_def)
  let ?c = "c\<lparr>m_in_buffer := b, m_state := st\<rparr>"
  have "wf_conn n ?c" using rd assms(1) by (simp add: wf_conn_def)
  with rd True assms(2,3) wf_conn_execute [of n ?c run_cb disp c'] show ?thesis
    by (auto simp: onRead_def Let_def split: if_splits)
qed

lemma wf_conn_onWrite:
  assumes "wf_conn n c" and "keeps_buffers n run_cb" and "onWrite run_cb script c = Some c'"
  shows "wf_conn n c'"
proof -
  define c1 where "c1 = (if m_conn_type c = TcpConnectionByClient then encode_waiting c else c)"
  have c1: "wf_conn n c1"
    using assms(1) by (simp add: c1_def encode_waiting_def split_def Let_def wf_conn_def wf_tinypb_encode)
  show ?thesis
  proof (cases "m_state c \<noteq> Connected \<or> readAvailable (m_out_buffer c1) = 0")
    case True
    with assms(1,3) c1 show ?thesis by (auto simp: onWrite_def Let_def c1_def split: if_splits)
  next
    case False
    have wf: "wf_buffer (m_out_buffer c1)" using c1 by (simp add: wf_conn_def)
    then have "content (m_out_buffer c1) \<noteq> []" using False by (simp add: content_Nil_iff)
    from write_loop_facts [OF wf this, of script "[]"] obtain b s how where
      wl: "write_loop script (m_out_buffer c1) [] = (b, s, how)" "wf_buffer b" by auto
    define c2 where "c2 = c1\<lparr>m_out_buffer := b, m_sent := m_sent c1 @ s\<rparr>"
    define c3 where "c3 = (if how = AllSent then conn_addEpollEvent (m_tid (conn_loop c2))
        (c2\<lparr>conn_event := clearEvent OUT_EVENT (conn_event c2)\<rparr>) else c2)"
    have c2: "wf_conn n c2" using c1 wl by (simp add: c2_def wf_conn_def)
    then have c3: "wf_conn n c3" by (simp add: c3_def)
    have "Some c' = (if how = WriteFailed then Some c2
        else if m_conn_type c2 = TcpConnectionByClient
             then map_option (\<lambda>c. c\<lparr>m_write_cb := []\<rparr>) (run_write_cbs run_cb 0 c3) else Some c3)"
      using assms(3) False
      unfolding onWrite_def Let_def c1_def [symmetric] wl(1) c3_def c2_def
      by (auto split: if_splits)
    then consider "c' = c2" | "c' = c3"
      | c4 where "run_write_cbs run_cb 0 c3 = Some c4" "c' = c4\<lparr>m_write_cb := []\<rparr>"
      by (cases "run_write_cbs run_cb 0 c3") (auto split: if_splits)
    then show ?thesis
    proof cases
      case 3
      with run_write_cbs_keeps [OF 3(1), of "wf_conn n"] c3 assms(2) show ?thesis
        by (simp add: keeps_buffers_def)
    qed (use c2 c3 in simp_all)
  qed
qed

interpretation conn: stepwise_invariant "conn_step disp run_cb"
  "\<lambda>_ _. keeps_buffers n run_cb" "wf_conn n" for disp run_cb n
proof unfold_locales
  fix c :: "('b, 'a) tcp_connection" and op
  assume wf: "wf_conn n c" and ok: "keeps_buffers n run_cb"
  show "wf_conn n (conn_step disp run_cb c op)"
  proof (cases op)
    case (DoRead script)
    with wf wf_conn_onRead [OF wf ok, of disp script] show ?thesis
      by (auto split: option.split sum.split)
  next
    case (DoWrite script)
    with wf wf_conn_onWrite [OF wf ok, of script] show ?thesis by (auto split: option.split)
  qed (use wf in \<open>simp_all add: shutdown_def addMessage_def addReadCb_def Let_def\<close>)
qed

end
