(* ===== verification/ConnectionProperties.thy ===== *)
theory ConnectionProperties
  imports TcpConnection
begin

text \<open>
  What holds of a single TCP connection: the server answers every request it can decode, in order,
  the client runs every registered callback at most once, writing loses nothing, closing tears the
  connection down; and the three defects of the read path and of \<open>shutdown\<close> that the model shows.
\<close>

section \<open>A connection that is stuck\<close>

text \<open>A frame that announces more bytes than the input buffer can ever hold: its header is at the
  front of the buffer and the decoder waits.\<close>

definition oversized :: "byte list \<Rightarrow> int \<Rightarrow> bool" where
  "oversized s n \<longleftrightarrow> 5 \<le> length s \<and> hd s = PB_START \<and> n \<le> sint (ntohl_at s 1)"

lemma ntohl_at_more: "off + 4 \<le> length s \<Longrightarrow> ntohl_at (s @ ys) off = ntohl_at s off"
  by (simp add: ntohl_at_def nth_append)

lemma oversized_append: "oversized s n \<Longrightarrow> oversized (s @ ys) n"
  using ntohl_at_more [of 1 s ys] by (cases s) (auto simp: oversized_def)

lemma oversized_waits:
  assumes "oversized s n" and "int (length s) < n"
  shows "parse_stream s = Some ([], s)"
proof -
  have "resync s = s" using assms(1) by (cases s) (auto simp: oversized_def)
  moreover have "next_frame s = Wait"
    using assms by (auto simp: next_frame_def oversized_def Let_def)
  ultimately show ?thesis by (simp add: parse_stream.simps [of s])
qed

lemma roomy_content: "roomy b \<Longrightarrow> int (length (content b)) < m_size b"
  using length_content [of b] by (auto simp: roomy_def wf_buffer_def readAvailable_def)

lemma execute_waiting:
  assumes "wf_conn n c" and "parse_stream (content (m_in_buffer c)) = Some ([], s)"
  shows "\<exists>b. execute disp run_cb c = Some (Inr (c\<lparr>m_in_buffer := b\<rparr>)) \<and> roomy b \<and> m_size b = n \<and> content b = s"
proof -
  from decode_content [of "m_in_buffer c" "[]" s] assms obtain b where
    "tinypb_decode (m_in_buffer c) = Some (Inr ([], b))" "roomy b" "m_size b = n" "content b = s"
    by (auto simp: wf_conn_def)
  then show ?thesis by (cases "m_conn_type c") (auto simp: execute_def)
qed

definition stuck :: "int \<Rightarrow> 'w \<Rightarrow> byte list \<Rightarrow> ('k, 'w) tcp_connection \<Rightarrow> bool" where
  "stuck n w out c \<longleftrightarrow> wf_conn n c \<and> m_world c = w \<and> content (m_out_buffer c) = out
     \<and> (m_state c \<noteq> Connected \<or> oversized (content (m_in_buffer c)) n)"

lemma stuck_onRead:
  assumes "stuck n w out c"
  shows "\<exists>c'. onRead disp run_cb script c = Some (Inr c') \<and> stuck n w out c'"
proof (cases "m_state c = Connected")
  case False
  with assms show ?thesis by (simp add: onRead_def)
next
  case True
  have wf: "wf_conn n c" and ov: "oversized (content (m_in_buffer c)) n"
    using assms True by (simp_all add: stuck_def)
  obtain b st failed ys where rd: "read_loop (m_in_buffer c) Connected script = Some (b, st, failed)"
    "roomy b" "m_size b = n" "content b = content (m_in_buffer c) @ ys"
    using read_loop_total [of "m_in_buffer c" Connected script] wf by (auto simp: wf_conn_def)
  let ?c = "c\<lparr>m_in_buffer := b, m_state := st\<rparr>"
  have wf': "wf_conn n ?c" using rd wf by (simp add: wf_conn_def)
  have ov': "oversized (content b) n" using oversized_append [OF ov] rd(4) by simp
  have world: "m_world ?c = w" "content (m_out_buffer ?c) = out"
    using assms by (simp_all add: stuck_def)
  show ?thesis
  proof (cases "failed \<or> st = Closed")
    case True
    with rd(1) \<open>m_state c = Connected\<close> wf' world ov' show ?thesis
      by (auto simp: onRead_def stuck_def Let_def conn_deleteEpollEvent_def conn_close_event_def
          call_remove_conn_cb_def split_def wf_conn_def)
  next
    case False
    have "parse_stream (content (m_in_buffer ?c)) = Some ([], content b)"
      using oversized_waits [OF ov'] roomy_content [OF rd(2)] rd(3) by simp
    from execute_waiting [OF wf' this, of disp run_cb] obtain b2 where
      "execute disp run_cb ?c = Some (Inr (?c\<lparr>m_in_buffer := b2\<rparr>))" "roomy b2" "m_size b2 = n"
      "content b2 = content b" by auto
    with False rd(1) \<open>m_state c = Connected\<close> wf' world ov' show ?thesis
      by (auto simp: onRead_def stuck_def Let_def wf_conn_def)
  qed
qed

fun read_all :: "'w dispatching \<Rightarrow> ('k, 'w) runner \<Rightarrow> ('k, 'w) tcp_connection \<Rightarrow> sock_read list
    \<Rightarrow> ('k, 'w) tcp_connection" where
  "read_all disp run_cb c script = (case onRead disp run_cb script c of Some (Inr c') \<Rightarrow> c' | _ \<Rightarrow> c)"

interpretation stuck_conn: stepwise_invariant "read_all disp run_cb" "\<lambda>_ _. True" "stuck n w out"
  for disp run_cb n w out
proof unfold_locales
  fix c :: "('b, 'a) tcp_connection" and script
  assume "stuck n w out c"
  from stuck_onRead [OF this, of disp run_cb script] show "stuck n w out (read_all disp run_cb c script)"
    by auto
qed

section \<open>Client callbacks\<close>

text \<open>The callbacks a list of messages triggers, for the registrations \<open>cbs\<close>.\<close>

fun deliveries :: "(cstring \<rightharpoonup> 'k) \<Rightarrow> tinypb_protocol list \<Rightarrow> ('k \<times> tinypb_protocol) list" where
  "deliveries cbs [] = []"
| "deliveries cbs (m # ms) =
     (case cbs (m_msg_id m) of
        None \<Rightarrow> deliveries cbs ms
      | Some k \<Rightarrow> (k, m) # deliveries (cbs(m_msg_id m := None)) ms)"

lemma deliveries_registered:
  "(k, m) \<in> set (deliveries cbs ms) \<Longrightarrow> cbs (m_msg_id m) = Some k \<and> m \<in> set ms"
  by (induction cbs ms rule: deliveries.induct) (auto split: option.splits if_splits)

lemma deliveries_distinct: "distinct (map (m_msg_id \<circ> snd) (deliveries cbs ms))"
proof (induction cbs ms rule: deliveries.induct)
  case (2 cbs m ms)
  show ?case
  proof (cases "cbs (m_msg_id m)")
    case None
    with 2(1) show ?thesis by simp
  next
    case (Some k)
    have "m_msg_id m \<notin> (m_msg_id \<circ> snd) ` set (deliveries (cbs(m_msg_id m := None)) ms)"
      using deliveries_registered [of _ _ "cbs(m_msg_id m := None)" ms] by fastforce
    with 2(2) [OF Some] Some show ?thesis by (simp del: fun_upd_apply)
  qed
qed simp

definition recording :: "('k, ('k \<times> abstract_protocol) list) runner" where
  "recording k m c = c\<lparr>m_world := m_world c @ [(k, m)]\<rparr>"

lemma run_read_cbs_recording:
  "run_read_cbs recording ms c = c\<lparr>m_world := m_world c @ map (\<lambda>(k, m). (k, TinyPB m)) (deliveries (m_read_cb c) ms),
     m_read_cb := m_read_cb c |` (- (m_msg_id ` set ms))\<rparr>"
proof (induction ms arbitrary: c)
  case Nil
  have "m_read_cb c |` UNIV = m_read_cb c" by (simp add: restrict_map_def)
  then show ?case by simp
next
  case (Cons m ms)
  show ?case
  proof (cases "m_read_cb c (m_msg_id m)")
    case None
    then have "m_read_cb c |` (- (m_msg_id ` set ms)) = m_read_cb c |` (- (m_msg_id ` set (m # ms)))"
      by (auto simp: restrict_map_def)
    with None Cons [of c] show ?thesis by (simp add: Let_def)
  next
    case (Some k)
    have "(m_read_cb c)(m_msg_id m := None) |` (- (m_msg_id ` set ms))
        = m_read_cb c |` (- (m_msg_id ` set (m # ms)))"
      by (auto simp: restrict_map_def)
    with Some Cons show ?thesis by (simp add: Let_def recording_def)
  qed
qed
section \<open>A sample connection\<close>

definition block :: "byte list" where
  "block = replicate 1024 0"

lemma length_block [simp]: "length block = 1024"
  by (simp add: block_def)

definition sample_loop :: "'k handler event_loop" where
  "sample_loop = EventLoop_new 1 (WakeupFdEvent_new 4) (listen IN_EVENT OnTimer (FdEvent_new 5))"

definition sample_conn :: "TcpConnectionType \<Rightarrow> 'w \<Rightarrow> ('k, 'w) tcp_connection" where
  "sample_conn conn_type w = setRemoveConnCb (setState Connected
     (TcpConnection_new 0 1 sample_loop (FdEvent_new 9) block block conn_type w))"

lemma sample_conn_facts:
  "m_state (sample_conn ty w) = Connected" "m_conn_type (sample_conn ty w) = ty"
  "m_world (sample_conn ty w) = w" "m_in_buffer (sample_conn ty w) = TcpBuffer_new block"
  "m_out_buffer (sample_conn ty w) = TcpBuffer_new block" "m_remove_conn_cb (sample_conn ty w)"
  "m_removals (sample_conn ty w) = 0" "m_read_cb (sample_conn ty w) = Map.empty"
  "m_fd (conn_event (sample_conn ty w)) = 9" "m_write_cb (sample_conn ty w) = []"
  "m_sent (sample_conn ty w) = []"
  by (simp_all add: sample_conn_def setRemoveConnCb_def setState_def TcpConnection_new_def Let_def)
    (simp_all add: FdEvent_new_def listenReadEvent_def)

lemma sample_buffer_facts:
  "writeAvailable (TcpBuffer_new block) = 1024" "roomy (TcpBuffer_new block)"
  "m_size (TcpBuffer_new block) = 1024"
  using wf_TcpBuffer_new [of block]
  by (simp_all add: roomy_def) (simp_all add: TcpBuffer_new_def writeAvailable_def)

lemma wf_sample_conn: "wf_conn 1024 (sample_conn ty w)"
  by (simp add: wf_conn_def sample_conn_facts sample_buffer_facts wf_TcpBuffer_new)

lemma length_wire: "length (wire m) = pk_size (with_id m)"
  by (simp add: wire_def encodeMessage_eq Let_def)

lemma parse_one: "encodable m \<Longrightarrow> parse_stream (wire m) = Some ([received m], [])"
  using tinypb.parse_all [of "[m]" "[]"] by (simp add: parse_stream_Nil)

lemma echo_request_wire:
  "length (wire (echo_request [8, 1])) = 37" "encodable (echo_request [8, 1])"
  by (simp_all add: length_wire encodable_def echo_request_def TinyPBProtocol_new_def pk_size_def
      with_id_def)

section \<open>Properties\<close>

text \<open>
  When a segment that leaves room in the input buffer arrives on a server connection and
  completes some requests, each of them is dispatched once, in the order received, with the state
  left by the one before; the encoded responses, carrying the ids and method names of the requests,
  are appended to the output buffer in that order, the unfinished rest stays in the input buffer,
  and the connection waits for the socket to become writable.
\<close>

theorem server_answers_in_order:
  assumes "wf_conn n c" and "m_state c = Connected" and "m_conn_type c = TcpConnectionByServer"
    and "bs \<noteq> []" and "int (length bs) < writeAvailable (m_in_buffer c)"
    and "parse_stream (content (m_in_buffer c) @ bs) = Some (reqs, rest)"
  shows "\<exists>c' resps w'. onRead (dispatching d) run_cb (Bytes bs # script) c = Some (Inr c')
     \<and> dispatch_all (dispatching d) reqs (m_world c) = Inr (resps, w') \<and> m_world c' = w'
     \<and> map m_msg_id resps = map m_msg_id reqs \<and> map m_method_name resps = map m_method_name reqs
     \<and> content (m_out_buffer c') = content (m_out_buffer c) @ concat (map wire resps)
     \<and> content (m_in_buffer c') = rest
     \<and> (reqs = [] \<or> listens OUT_EVENT (conn_event c')
          \<and> getHandler OUT_EVENT (conn_event c') = Some (OnWrite (m_this c)))"
proof -
  obtain resps w' where all: "dispatch_all (dispatching d) reqs (m_world c) = Inr (resps, w')"
    "map m_msg_id resps = map m_msg_id reqs" "map m_method_name resps = map m_method_name reqs"
    using dispatch_all_total [of d reqs "m_world c"] by blast
  from server_onRead [OF assms all(1), of run_cb script] all show ?thesis by auto
qed

theorem server_answers_in_order_witness:
  "\<exists>c'. onRead (dispatching echo_dispatcher) (\<lambda>(_ :: nat) _ c. c) [Bytes (wire (echo_request [8, 1]))]
         (sample_conn TcpConnectionByServer (Runtime_new, 5)) = Some (Inr c')
     \<and> content (m_in_buffer c') = [] \<and> listens OUT_EVENT (conn_event c')"
proof -
  let ?m = "echo_request [8, 1]" and ?c = "sample_conn TcpConnectionByServer (Runtime_new, 5)"
  have "wire ?m \<noteq> []" using echo_request_wire(1) by auto
  moreover have "int (length (wire ?m)) < writeAvailable (m_in_buffer ?c)"
    by (simp add: echo_request_wire sample_conn_facts sample_buffer_facts)
  moreover have "parse_stream (content (m_in_buffer ?c) @ wire ?m) = Some ([received ?m], [])"
    by (simp add: sample_conn_facts content_TcpBuffer_new parse_one echo_request_wire)
  ultimately show ?thesis
    using server_answers_in_order [OF wf_sample_conn, of TcpConnectionByServer "(Runtime_new, 5)" "wire ?m"
        "[received ?m]" "[]" echo_dispatcher "\<lambda>(_ :: nat) _ c. c" "[]"]
    by (auto simp: sample_conn_facts)
qed

text \<open>
  C34: A segment that fills the free part of the input buffer exactly is lost: \<open>read\<close> takes it out of
  the socket, \<open>moveWriteIndex\<close> refuses to move to the end of the block, and the connection is left as
  if nothing had arrived, whatever the bytes were.
\<close>

theorem full_segment_is_lost:
  assumes "wf_conn n c" and "m_state c = Connected"
    and "int (length bs) = writeAvailable (m_in_buffer c)"
    and "parse_stream (content (m_in_buffer c)) = Some ([], content (m_in_buffer c))"
  shows "\<exists>b. onRead disp run_cb [Bytes bs] c = Some (Inr (c\<lparr>m_in_buffer := b\<rparr>))
     \<and> content b = content (m_in_buffer c)"
proof -
  obtain b1 where b1: "read_loop (m_in_buffer c) Connected [Bytes bs] = Some (b1, Connected, False)" "roomy b1"
    "m_size b1 = n" "content b1 = content (m_in_buffer c)"
    using read_loop_full_segment [of "m_in_buffer c" bs Connected] assms(1,3)
    by (auto simp: wf_conn_def)
  let ?c = "c\<lparr>m_in_buffer := b1\<rparr>"
  have "wf_conn n ?c" using assms(1) b1 by (simp add: wf_conn_def)
  from execute_waiting [OF this, of "content b1" disp run_cb] b1(4) assms(4) obtain b2 where
    "execute disp run_cb ?c = Some (Inr (c\<lparr>m_in_buffer := b2\<rparr>))" "content b2 = content b1"
    by auto
  moreover have "c\<lparr>m_in_buffer := b1, m_state := Connected\<rparr> = ?c" using assms(2) by (cases c) simp
  moreover have "onRead disp run_cb [Bytes bs] c
      = execute disp run_cb (c\<lparr>m_in_buffer := b1, m_state := Connected\<rparr>)"
    using b1(1) assms(2) by (simp add: onRead_def Let_def)
  ultimately show ?thesis using b1(4) by metis
qed

theorem full_segment_is_lost_witness:
  "\<exists>b. onRead (dispatching echo_dispatcher) (\<lambda>(_ :: nat) _ c. c) [Bytes (replicate 1024 2)]
          (sample_conn TcpConnectionByServer (Runtime_new, 5))
        = Some (Inr ((sample_conn TcpConnectionByServer (Runtime_new, 5))\<lparr>m_in_buffer := b\<rparr>))
     \<and> content b = []"
  using full_segment_is_lost [OF wf_sample_conn, of TcpConnectionByServer "(Runtime_new, 5)" "replicate 1024 2"
      "dispatching echo_dispatcher" "\<lambda>(_ :: nat) _ c. c"]
  by (simp add: sample_conn_facts sample_buffer_facts content_TcpBuffer_new parse_stream_Nil)

text \<open>
  C35: A frame at least as long as the input buffer (1024 bytes for every connection of the program)
  is never received.  Once its header is at the front of the buffer, no further input, in whatever
  segments, makes the connection dispatch a message or answer: it waits until it is closed.
\<close>

theorem oversized_frame_blocks_connection:
  assumes "wf_conn n c" and "oversized (content (m_in_buffer c)) n"
  shows "let c' = run_steps (read_all disp run_cb) c scripts
         in m_world c' = m_world c \<and> content (m_out_buffer c') = content (m_out_buffer c)
            \<and> (m_state c' \<noteq> Connected \<or> oversized (content (m_in_buffer c')) n)"
proof -
  have "stuck n (m_world c) (content (m_out_buffer c)) c" using assms by (simp add: stuck_def)
  then have "stuck n (m_world c) (content (m_out_buffer c)) (run_steps (read_all disp run_cb) c scripts)"
    by (rule stuck_conn.inv_run) simp
  then show ?thesis by (simp add: stuck_def Let_def)
qed

definition large_header :: "byte list" where
  "large_header = [PB_START] @ htonl_bytes 1024"

lemma oversized_large_header: "oversized large_header 1024"
  using ntohl_at_append [of "[PB_START]" 1 1024 "[]"]
  by (simp add: oversized_def large_header_def)

theorem oversized_frame_blocks_connection_witness:
  "let c = (sample_conn TcpConnectionByServer (Runtime_new, 5))
             \<lparr>m_in_buffer := fst (writeToBuffer (TcpBuffer_new block) large_header)\<rparr>;
       c' = run_steps (read_all (dispatching echo_dispatcher) (\<lambda>(_ :: nat) _ c. c)) c
              [[Bytes (replicate 100 7)], [Bytes (wire (echo_request [8, 1]))]]
   in m_world c' = (Runtime_new, 5) \<and> content (m_out_buffer c') = []"
proof -
  let ?b = "fst (writeToBuffer (TcpBuffer_new block) large_header)"
  let ?c = "(sample_conn TcpConnectionByServer (Runtime_new, 5) :: (nat, runtime \<times> nat) tcp_connection)
              \<lparr>m_in_buffer := ?b\<rparr>"
  have b: "wf_buffer ?b" "content ?b = large_header"
    by (simp_all add: wf_writeToBuffer wf_TcpBuffer_new content_writeToBuffer content_TcpBuffer_new)
  have "m_write_index ?b = 5" "m_size ?b = 1024"
    by (simp_all add: writeToBuffer_def TcpBuffer_new_def writeAvailable_def large_header_def)
  with b have "wf_conn 1024 ?c"
    by (simp add: wf_conn_def roomy_def sample_conn_facts wf_TcpBuffer_new)
  moreover have "oversized (content (m_in_buffer ?c)) 1024"
    using b(2) oversized_large_header by simp
  ultimately show ?thesis
    using oversized_frame_blocks_connection [of 1024 ?c "dispatching echo_dispatcher" "\<lambda>(_ :: nat) _ c. c"
        "[[Bytes (replicate 100 7)], [Bytes (wire (echo_request [8, 1]))]]"]
    by (simp add: Let_def sample_conn_facts content_TcpBuffer_new del: run_steps.simps read_all.simps)
qed

text \<open>
  C18: Through any sequence of reads, writes, registrations and shutdowns, with any closures that keep
  the buffers sound, the input buffer keeps the size it was created with and a free byte behind its
  write index, so the loop of \<open>onRead\<close> ends on every input, and the output buffer stays well-formed.
\<close>

theorem connection_buffers_sound:
  assumes "wf_conn n c" and "keeps_buffers n run_cb"
  shows "let c' = run_steps (conn_step disp run_cb) c ops
         in wf_conn n c' \<and> readAvailable (m_in_buffer c') < n
            \<and> read_loop (m_in_buffer c') (m_state c') script \<noteq> None"
proof -
  let ?c = "run_steps (conn_step disp run_cb) c ops"
  have "run_allowed (conn_step disp run_cb) (\<lambda>_ _. keeps_buffers n run_cb) c ops"
    using assms(2) by (induction ops arbitrary: c) auto
  from conn.inv_run [OF assms(1) this] have wf: "wf_conn n ?c" .
  moreover from this have "readAvailable (m_in_buffer ?c) < n"
    by (auto simp: wf_conn_def roomy_def wf_buffer_def readAvailable_def)
  moreover have "read_loop (m_in_buffer ?c) (m_state ?c) script \<noteq> None"
    using read_loop_total [of "m_in_buffer ?c" "m_state ?c" script] wf by (auto simp: wf_conn_def)
  ultimately show ?thesis by (simp add: Let_def)
qed

theorem connection_buffers_sound_witness:
  "wf_conn 1024 (run_steps (conn_step (dispatching echo_dispatcher) (\<lambda>(_ :: nat) _ c. c))
      (sample_conn TcpConnectionByServer (Runtime_new, 5))
      [DoRead [Bytes (replicate 100 7)], DoShutdown 1])"
  using connection_buffers_sound [OF wf_sample_conn, of "\<lambda>(_ :: nat) _ c. c" "dispatching echo_dispatcher"
      TcpConnectionByServer "(Runtime_new, 5)" "[DoRead [Bytes (replicate 100 7)], DoShutdown 1]"]
  by (simp add: keeps_buffers_def Let_def del: run_steps.simps conn_step.simps)

text \<open>
  A client connection runs, for the messages a segment completes, the callback registered for the
  message's id, in the order of the messages; no callback runs for a second message with its id,
  messages without a registration are dropped, and a callback that ran is no longer registered.
\<close>

theorem client_callbacks_run_once:
  assumes "wf_conn n c" and "m_state c = Connected" and "m_conn_type c = TcpConnectionByClient"
    and "bs \<noteq> []" and "int (length bs) < writeAvailable (m_in_buffer c)"
    and "parse_stream (content (m_in_buffer c) @ bs) = Some (ms, rest)"
  shows "\<exists>c'. onRead disp recording (Bytes bs # script) c = Some (Inr c')
     \<and> m_world c' = m_world c @ map (\<lambda>(k, m). (k, TinyPB m)) (deliveries (m_read_cb c) ms)
     \<and> distinct (map (m_msg_id \<circ> snd) (deliveries (m_read_cb c) ms))
     \<and> (\<forall>(k, m) \<in> set (deliveries (m_read_cb c) ms). m_read_cb c (m_msg_id m) = Some k \<and> m \<in> set ms)
     \<and> m_read_cb c' = m_read_cb c |` (- (m_msg_id ` set ms))
     \<and> content (m_in_buffer c') = rest"
proof -
  obtain b1 where b1: "read_loop (m_in_buffer c) Connected (Bytes bs # script) = Some (b1, Connected, False)"
    "roomy b1" "content b1 = content (m_in_buffer c) @ bs"
    using read_loop_segment [OF _ assms(4,5), of Connected script] assms(1) by (auto simp: wf_conn_def)
  obtain b2 where b2: "tinypb_decode b1 = Some (Inr (ms, b2))" "content b2 = rest"
    using decode_content [OF b1(2), of ms rest] b1(3) assms(6) by auto
  let ?c = "run_read_cbs recording ms (c\<lparr>m_state := Connected, m_in_buffer := b2\<rparr>)"
  have "onRead disp recording (Bytes bs # script) c = Some (Inr ?c)"
    using b1(1) b2(1) assms(2,3) by (simp add: onRead_def execute_def Let_def)
  with b2(2) deliveries_distinct [of "m_read_cb c" ms] deliveries_registered [of _ _ "m_read_cb c" ms]
  show ?thesis by (auto simp: run_read_cbs_recording)
qed

theorem client_callbacks_run_once_witness:
  "\<exists>c'. onRead (\<lambda>_ _. Inl NullPointer) recording [Bytes (wire (echo_request [8, 1]))]
         ((sample_conn TcpConnectionByClient []) \<lparr>m_read_cb := [ascii ''7'' \<mapsto> (3 :: nat)]\<rparr>) = Some (Inr c')
     \<and> m_world c' = [(3, TinyPB (received (echo_request [8, 1])))] \<and> m_read_cb c' = Map.empty"
proof -
  let ?m = "echo_request [8, 1]"
  let ?c = "(sample_conn TcpConnectionByClient [] :: (nat, (nat \<times> abstract_protocol) list) tcp_connection)
              \<lparr>m_read_cb := [ascii ''7'' \<mapsto> 3]\<rparr>"
  have id: "m_msg_id (received ?m) = ascii ''7''"
    by (simp add: received_def encodeMessage_def Let_def echo_request_def ascii_def)
  have "wire ?m \<noteq> []" using echo_request_wire(1) by auto
  moreover have "int (length (wire ?m)) < writeAvailable (m_in_buffer ?c)"
    by (simp add: echo_request_wire sample_conn_facts sample_buffer_facts)
  moreover have "parse_stream (content (m_in_buffer ?c) @ wire ?m) = Some ([received ?m], [])"
    by (simp add: sample_conn_facts content_TcpBuffer_new parse_one echo_request_wire)
  moreover have "wf_conn 1024 ?c" using wf_sample_conn by simp
  ultimately obtain c' where "onRead (\<lambda>_ _. Inl NullPointer) recording [Bytes (wire ?m)] ?c = Some (Inr c')"
    "m_world c' = m_world ?c @ map (\<lambda>(k, m). (k, TinyPB m)) (deliveries (m_read_cb ?c) [received ?m])"
    "m_read_cb c' = m_read_cb ?c |` (- (m_msg_id ` set [received ?m]))"
    using client_callbacks_run_once [of 1024 ?c "wire ?m" "[received ?m]" "[]" "\<lambda>_ _. Inl NullPointer" "[]"]
    by (auto simp: sample_conn_facts)
  then show ?thesis by (auto simp: id sample_conn_facts restrict_map_def fun_eq_iff)
qed

text \<open>
  Whatever a socket accepts of the output buffer, \<open>onWrite\<close> of a server connection sends a prefix
  of its content and keeps the rest for the next writable event; it stops watching for that event
  exactly when everything was sent.
\<close>

theorem onWrite_loses_nothing:
  assumes "wf_conn n c" and "m_state c = Connected" and "m_conn_type c = TcpConnectionByServer"
    and "content (m_out_buffer c) \<noteq> []"
  shows "\<exists>c' s. onWrite run_cb script c = Some c' \<and> wf_conn n c' \<and> m_sent c' = m_sent c @ s
     \<and> content (m_out_buffer c) = s @ content (m_out_buffer c')
     \<and> (content (m_out_buffer c') = [] \<and> conn_event c' = clearEvent OUT_EVENT (conn_event c)
        \<or> content (m_out_buffer c') \<noteq> [] \<and> conn_event c' = conn_event c)"
proof -
  have wf: "wf_buffer (m_out_buffer c)" using assms(1) by (simp add: wf_conn_def)
  then have "readAvailable (m_out_buffer c) \<noteq> 0" using assms(4) by (simp add: content_Nil_iff)
  moreover obtain b s how where wl: "write_loop script (m_out_buffer c) [] = (b, s, how)" "wf_buffer b"
    "content (m_out_buffer c) = s @ content b" "how = AllSent \<longleftrightarrow> content b = []"
    using write_loop_facts [OF wf assms(4), of script "[]"] by auto
  ultimately show ?thesis
    using assms(1-3) by (cases how) (auto simp: onWrite_def Let_def wf_conn_def)
qed

theorem onWrite_loses_nothing_witness:
  "\<exists>c' s. onWrite (\<lambda>(_ :: nat) _ c. c) [Accept 2, WriteBlocks]
        ((sample_conn TcpConnectionByServer ()) \<lparr>m_out_buffer := fst (writeToBuffer (TcpBuffer_new block) [1, 2, 3])\<rparr>)
      = Some c' \<and> m_sent c' = s \<and> [1, 2, 3] = s @ content (m_out_buffer c')"
proof -
  let ?b = "fst (writeToBuffer (TcpBuffer_new block) [1, 2, 3])"
  let ?c = "(sample_conn TcpConnectionByServer () :: (nat, unit) tcp_connection) \<lparr>m_out_buffer := ?b\<rparr>"
  have b: "wf_buffer ?b" "content ?b = [1, 2, 3]"
    by (simp_all add: wf_writeToBuffer wf_TcpBuffer_new content_writeToBuffer content_TcpBuffer_new)
  have "wf_conn 1024 ?c" using b(1) by (simp add: wf_conn_def sample_conn_facts sample_buffer_facts)
  with b(2) show ?thesis
    using onWrite_loses_nothing [of 1024 ?c "\<lambda>(_ :: nat) _ c. c" "[Accept 2, WriteBlocks]"]
    by (auto simp: sample_conn_facts)
qed

lemma teardown_in_sync:
  assumes "in_sync (conn_loop c)" and "0 < m_fd (conn_event c)"
  shows "in_sync (conn_loop (conn_close_event (conn_deleteEpollEvent (m_tid (conn_loop c)) c)))
     \<and> m_fd (conn_event c) \<notin> m_listen_fds (conn_loop (conn_close_event (conn_deleteEpollEvent (m_tid (conn_loop c)) c)))"
  using assms in_sync_delete [OF assms(1), of "conn_event c"]
  by (auto simp: conn_close_event_def conn_deleteEpollEvent_def deleteEpollEvent_def isInLoopThread_def
      close_event_def DELETE_FROM_EPOLL_def in_sync_def Let_def)

text \<open>
  When the peer closes, \<open>onRead\<close> takes the descriptor out of the epoll set before it closes it, so
  the loop stays in step with the kernel, runs the removal callback once and leaves the connection
  closed; every later event or \<open>shutdown\<close> on it does nothing.
\<close>

theorem peer_close_tears_down:
  assumes "wf_conn n c" and "m_state c = Connected" and "in_sync (conn_loop c)"
    and "0 < m_fd (conn_event c)" and "m_remove_conn_cb c"
  shows "\<exists>c'. onRead disp run_cb (Bytes [] # script) c = Some (Inr c') \<and> m_state c' = Closed
     \<and> m_fd (conn_event c) \<notin> m_listen_fds (conn_loop c') \<and> in_sync (conn_loop c')
     \<and> \<not> listens ev (conn_event c') \<and> m_removals c' = m_removals c + 1
     \<and> onRead disp run_cb script' c' = Some (Inr c') \<and> onWrite run_cb script'' c' = Some c'
     \<and> shutdown caller c' = c'"
proof -
  let ?b = "m_in_buffer c"
  have free: "0 < writeAvailable ?b" using assms(1) by (simp add: wf_conn_def roomy_def writeAvailable_def)
  have "\<exists>b. read_loop ?b Connected (Bytes [] # script) = Some (b, Closed, False)"
    using free by (subst read_loop.simps) (simp add: Let_def)
  then obtain b where rd: "read_loop ?b Connected (Bytes [] # script) = Some (b, Closed, False)" ..
  define c1 where "c1 = c\<lparr>m_in_buffer := b, m_state := Closed\<rparr>"
  define c2 where "c2 = conn_close_event (conn_deleteEpollEvent (m_tid (conn_loop c1)) c1)"
  have loop: "in_sync (conn_loop c2)" "m_fd (conn_event c) \<notin> m_listen_fds (conn_loop c2)"
    using teardown_in_sync [of c1] assms(3,4) by (simp_all add: c1_def c2_def)
  have state: "m_state c2 = Closed" "m_remove_conn_cb c2" "m_removals c2 = m_removals c"
    "\<not> listens ev (conn_event c2)"
    using assms(5) listens_close_event [of ev "conn_event c"]
    by (simp_all add: c2_def c1_def conn_close_event_def conn_deleteEpollEvent_def split_def Let_def)
  have "onRead disp run_cb (Bytes [] # script) c = Some (Inr (call_remove_conn_cb c2))"
    using rd assms(2) by (simp add: onRead_def Let_def c1_def c2_def)
  with loop state show ?thesis
    by (simp add: call_remove_conn_cb_def) (simp add: onRead_def onWrite_def shutdown_def)
qed

text \<open>
  The constructor of a server's connection hands the event to the other thread's loop before \<open>onAccept\<close>
  sets the state and the removal callback.  When that thread is fast enough to see the peer close after
  the state was set and before the callback was, it closes the connection without removing it, and as
  no later event does anything with a closed connection, it stays in the server's set for good.
\<close>

theorem registered_before_ready:
  assumes "caller \<noteq> m_tid l" and "c0 = TcpConnection_new name caller l e b1 b2 TcpConnectionByServer w"
    and "wf_conn n c" and "m_state c = Connected" and "\<not> m_remove_conn_cb c"
  shows "AddFd (nat (m_fd e)) \<in> set (m_pending_tasks (conn_loop c0)) \<and> m_state c0 = NotConnected \<and> \<not> m_remove_conn_cb c0"
    and "\<exists>c'. onRead disp run_cb (Bytes [] # script) c = Some (Inr c') \<and> m_state c' = Closed \<and> m_removals c' = m_removals c
     \<and> onRead disp run_cb script' c' = Some (Inr c') \<and> onWrite run_cb script'' c' = Some c'"
proof -
  show "AddFd (nat (m_fd e)) \<in> set (m_pending_tasks (conn_loop c0)) \<and> m_state c0 = NotConnected \<and> \<not> m_remove_conn_cb c0"
    using assms(1) by (simp add: assms(2) TcpConnection_new_def Let_def listenReadEvent_def conn_addEpollEvent_def
        addEpollEvent_def isInLoopThread_def setNonBlocking_def listen_def)
  let ?b = "m_in_buffer c"
  have free: "0 < writeAvailable ?b" using assms(3) by (simp add: wf_conn_def roomy_def writeAvailable_def)
  have "\<exists>b. read_loop ?b Connected (Bytes [] # script) = Some (b, Closed, False)"
    using free by (subst read_loop.simps) (simp add: Let_def)
  then obtain b where rd: "read_loop ?b Connected (Bytes [] # script) = Some (b, Closed, False)" ..
  define c2 where "c2 = conn_close_event (conn_deleteEpollEvent (m_tid (conn_loop c)) (c\<lparr>m_in_buffer := b, m_state := Closed\<rparr>))"
  have state: "m_state c2 = Closed" "\<not> m_remove_conn_cb c2" "m_removals c2 = m_removals c"
    using assms(5) by (simp_all add: c2_def conn_close_event_def conn_deleteEpollEvent_def split_def Let_def)
  have "onRead disp run_cb (Bytes [] # script) c = Some (Inr c2)"
    using rd assms(4) state(2) by (simp add: onRead_def Let_def c2_def call_remove_conn_cb_def)
  with state show "\<exists>c'. onRead disp run_cb (Bytes [] # script) c = Some (Inr c') \<and> m_state c' = Closed \<and> m_removals c' = m_removals c
     \<and> onRead disp run_cb script' c' = Some (Inr c') \<and> onWrite run_cb script'' c' = Some c'"
    by (intro exI [of _ c2]) (simp add: onRead_def onWrite_def)
qed

lemma sample_conn_in_sync: "in_sync (conn_loop (sample_conn ty w))"
  by (simp add: sample_conn_def setRemoveConnCb_def setState_def TcpConnection_new_def Let_def
      listenReadEvent_def conn_addEpollEvent_def sample_loop_def in_sync_new in_sync_addEpollEvent new_fds)

theorem peer_close_tears_down_witness:
  "\<exists>c'. onRead (dispatching echo_dispatcher) (\<lambda>(_ :: nat) _ c. c) [Bytes []]
        (sample_conn TcpConnectionByServer (Runtime_new, 5)) = Some (Inr c')
     \<and> m_state c' = Closed \<and> 9 \<notin> m_listen_fds (conn_loop c') \<and> m_removals c' = 1"
  using peer_close_tears_down [OF wf_sample_conn, of TcpConnectionByServer "(Runtime_new, 5)"
      "dispatching echo_dispatcher" "\<lambda>(_ :: nat) _ c. c" "[]" IN_EVENT "[]" "[]" 1]
  by (auto simp: sample_conn_facts sample_conn_in_sync)

text \<open>
  \<open>shutdown\<close> tests for \<open>Closed\<close> and \<open>NotConnected\<close> but leaves the state \<open>HalfClosed\<close>, so a second call
  goes through the whole sequence again: it closes the descriptor number a second time, when it may
  belong to another connection, and runs the removal callback again.
\<close>

theorem second_shutdown_repeats_everything:
  assumes "m_state c = Connected" and "0 < m_fd (conn_event c)" and "m_remove_conn_cb c"
    and "caller = m_tid (conn_loop c)"
  shows "let c2 = shutdown caller (shutdown caller c)
         in m_removals c2 = m_removals c + 2
            \<and> length (filter (\<lambda>x. x = CloseFd (m_fd (conn_event c))) (m_epoll_calls (conn_loop c2)))
                = length (filter (\<lambda>x. x = CloseFd (m_fd (conn_event c))) (m_epoll_calls (conn_loop c))) + 2"
  using assms
  by (auto simp: shutdown_def conn_deleteEpollEvent_def conn_close_event_def close_event_def
      call_remove_conn_cb_def deleteEpollEvent_def isInLoopThread_def DELETE_FROM_EPOLL_def Let_def)

theorem second_shutdown_repeats_everything_witness:
  "m_removals (shutdown 1 (shutdown 1 (sample_conn TcpConnectionByServer () :: (nat, unit) tcp_connection))) = 2"
proof -
  have "1 = m_tid (conn_loop (sample_conn TcpConnectionByServer () :: (nat, unit) tcp_connection))"
    by (simp add: sample_conn_def setRemoveConnCb_def setState_def TcpConnection_new_def Let_def
      listenReadEvent_def conn_addEpollEvent_def sample_loop_def addEpollEvent_def EventLoop_new_eq
      ADD_TO_EPOLL_def addTask_def loop_wakeup_def)
  from second_shutdown_repeats_everything [OF _ _ _ this] show ?thesis
    by (simp add: sample_conn_facts Let_def)
qed

end
