(* ===== verification/IOThread.thy ===== *)
theory IOThread
  imports EventLoop
begin

text \<open>
  The threads of the sub-reactors: the start-up and shut-down handshake of one \<open>IOThread\<close>
  (\<open>include/rapidrpc/net/io_thread.h\<close>, \<open>src/net/io_thread.cc\<close>) as a step relation over the two
  threads and the two semaphores, and the round-robin choice of \<open>IOThreadGroup\<close>
  (\<open>src/net/io_thread_group.cc\<close>).
\<close>

section \<open>The handshake\<close>

text \<open>Where the owner (constructor, \<open>start\<close>, destructor) and the thread (\<open>Main\<close>) stand.\<close>

datatype owner_pc = Spawning | WaitingInit | Ready | Joining | Destroyed

datatype thread_pc = NotSpawned | CreatingLoop | PostingInit | WaitingStart | Looping | Exited

record io_thread =
  owner :: owner_pc
  thread :: thread_pc
  m_init_semaphore :: nat
  m_start_semaphore :: nat
  has_event_loop :: bool
  has_tid :: bool
  loop_stopped :: bool
  starts :: nat

definition IOThread_new :: io_thread where
  "IOThread_new = \<lparr>owner = Spawning, thread = NotSpawned, m_init_semaphore = 0, m_start_semaphore = 0,
     has_event_loop = False, has_tid = False, loop_stopped = False, starts = 0\<rparr>"

text \<open>\<open>start\<close> is a call by the owner, counted in \<open>starts\<close>; the destructor begins with the stop of the
  loop.\<close>

definition IOThread_start :: "io_thread \<Rightarrow> io_thread" where
  "IOThread_start s = s\<lparr>m_start_semaphore := m_start_semaphore s + 1, starts := starts s + 1\<rparr>"

definition IOThread_begin_destroy :: "io_thread \<Rightarrow> io_thread" where
  "IOThread_begin_destroy s = s\<lparr>owner := Joining, loop_stopped := True\<rparr>"

text \<open>The steps of the constructor, of \<open>start\<close> and of the destructor, each as a guarded update.  The calls
  of the semaphores succeed here; \<open>sem_destroy\<close>, which the destructor calls before \<open>join\<close>, is the empty
  operation that glibc has (\<open>semaphore_destroyed_in_use\<close> below shows that the thread may still need the
  semaphore, which POSIX leaves undefined).\<close>

definition owner_step :: "io_thread \<Rightarrow> io_thread list" where
  "owner_step s =
     (case owner s of
        Spawning \<Rightarrow> [s\<lparr>owner := WaitingInit, thread := CreatingLoop\<rparr>]
      | WaitingInit \<Rightarrow>
          (if m_init_semaphore s > 0
           then [s\<lparr>owner := Ready, m_init_semaphore := m_init_semaphore s - 1\<rparr>] else [])
      | Ready \<Rightarrow> [IOThread_start s, IOThread_begin_destroy s]
      | Joining \<Rightarrow>
          (if thread s = Exited then [s\<lparr>owner := Destroyed, has_event_loop := False\<rparr>] else [])
      | Destroyed \<Rightarrow> [])"

text \<open>The early returns of the constructor: when the first \<open>sem_init\<close> fails there is no thread, and when
  \<open>sem_wait\<close> fails (it may be interrupted by a signal) the thread need not have come to its \<open>sem_post\<close>.\<close>

definition owner_failure_step :: "io_thread \<Rightarrow> io_thread list" where
  "owner_failure_step s =
     (case owner s of
        Spawning \<Rightarrow> [s\<lparr>owner := Ready\<rparr>]
      | WaitingInit \<Rightarrow> [s\<lparr>owner := Ready\<rparr>]
      | _ \<Rightarrow> [])"

text \<open>\<open>Main\<close>: create the loop, record the thread id, post, wait for the start, loop until stopped.\<close>

definition thread_step :: "io_thread \<Rightarrow> io_thread list" where
  "thread_step s =
     (case thread s of
        NotSpawned \<Rightarrow> []
      | CreatingLoop \<Rightarrow> [s\<lparr>thread := PostingInit, has_event_loop := True, has_tid := True\<rparr>]
      | PostingInit \<Rightarrow> [s\<lparr>thread := WaitingStart, m_init_semaphore := m_init_semaphore s + 1\<rparr>]
      | WaitingStart \<Rightarrow>
          (if m_start_semaphore s > 0
           then [s\<lparr>thread := Looping, m_start_semaphore := m_start_semaphore s - 1\<rparr>] else [])
      | Looping \<Rightarrow> (if loop_stopped s then [s\<lparr>thread := Exited\<rparr>] else [])
      | Exited \<Rightarrow> [])"

text \<open>Any thread may stop the loop of another through \<open>getEventLoop\<close>.\<close>

inductive io_step :: "io_thread \<Rightarrow> io_thread \<Rightarrow> bool" where
  owner: "s' \<in> set (owner_step s) \<Longrightarrow> io_step s s'"
| thread: "s' \<in> set (thread_step s) \<Longrightarrow> io_step s s'"
| stop: "has_event_loop s \<Longrightarrow> \<not> loop_stopped s \<Longrightarrow> io_step s (s\<lparr>loop_stopped := True\<rparr>)"

inductive_cases io_stepE: "io_step s s'"

inductive_simps io_step_iff: "io_step s s'"

inductive io_reachable :: "io_thread \<Rightarrow> bool" where
  init: "io_reachable IOThread_new"
| step: "io_reachable s \<Longrightarrow> io_step s s' \<Longrightarrow> io_reachable s'"

text \<open>What holds in every reachable state, by the place of the thread.\<close>

definition io_inv :: "io_thread \<Rightarrow> bool" where
  "io_inv s \<longleftrightarrow>
     (owner s = Spawning \<longleftrightarrow> thread s = NotSpawned)
     \<and> (thread s \<in> {PostingInit, WaitingStart, Looping, Exited} \<longrightarrow> has_tid s)
     \<and> (thread s \<in> {PostingInit, WaitingStart, Looping, Exited} \<and> owner s \<noteq> Destroyed \<longrightarrow> has_event_loop s)
     \<and> (owner s \<in> {Ready, Joining, Destroyed} \<longrightarrow> thread s \<in> {WaitingStart, Looping, Exited})
     \<and> (m_init_semaphore s > 0 \<longrightarrow> thread s \<in> {WaitingStart, Looping, Exited})
     \<and> (owner s = WaitingInit \<and> thread s \<in> {WaitingStart, Looping, Exited} \<longrightarrow> m_init_semaphore s > 0)
     \<and> (owner s \<in> {Spawning, WaitingInit} \<longrightarrow> starts s = 0)
     \<and> m_start_semaphore s + (if thread s \<in> {Looping, Exited} then 1 else 0) = starts s
     \<and> (owner s \<in> {Joining, Destroyed} \<longrightarrow> loop_stopped s)
     \<and> (owner s = Destroyed \<longrightarrow> thread s = Exited)"

lemma io_inv_new: "io_inv IOThread_new"
  by (simp add: io_inv_def IOThread_new_def)

lemma io_inv_owner: "io_inv s \<Longrightarrow> s' \<in> set (owner_step s) \<Longrightarrow> io_inv s'"
  unfolding owner_step_def
  by (cases "owner s"; cases "thread s")
    (auto simp: io_inv_def IOThread_start_def IOThread_begin_destroy_def split: if_splits)

lemma io_inv_stop: "io_inv s \<Longrightarrow> io_inv (s\<lparr>loop_stopped := True\<rparr>)"
  by (auto simp: io_inv_def)

lemma io_inv_thread: "io_inv s \<Longrightarrow> s' \<in> set (thread_step s) \<Longrightarrow> io_inv s'"
  unfolding thread_step_def by (cases "thread s"; cases "owner s") (auto simp: io_inv_def split: if_splits)

lemma io_reachable_inv: "io_reachable s \<Longrightarrow> io_inv s"
  by (induction rule: io_reachable.induct) (auto simp: io_inv_new elim!: io_stepE intro: io_inv_owner io_inv_thread io_inv_stop)

section \<open>Round robin\<close>

record io_thread_group =
  g_size :: int
  g_threads :: "nat list"
  m_index :: int

text \<open>The members are numbered in the order they are created; a negative size is a negative length
  for \<open>reserve\<close>.\<close>

definition IOThreadGroup_new :: "int \<Rightarrow> fault + io_thread_group" where
  "IOThreadGroup_new sz =
     (if sz < 0 then Inl LengthError
      else Inr \<lparr>g_size = sz, g_threads = [0..<nat sz], m_index = 0\<rparr>)"

definition getIOThread :: "io_thread_group \<Rightarrow> fault + nat \<times> io_thread_group" where
  "getIOThread g =
     (let ret = m_index g in
      if g_size g = 0 then Inl DivisionByZero
      else if ret < 0 \<or> int (length (g_threads g)) \<le> ret then Inl OutOfRange
      else Inr (g_threads g ! nat ret, g\<lparr>m_index := (m_index g + 1) mod g_size g\<rparr>))"

fun getIOThreads :: "nat \<Rightarrow> io_thread_group \<Rightarrow> fault + nat list \<times> io_thread_group" where
  "getIOThreads 0 g = Inr ([], g)"
| "getIOThreads (Suc k) g =
     (case getIOThread g of
        Inl e \<Rightarrow> Inl e
      | Inr (t, g) \<Rightarrow> map_sum id (\<lambda>(ts, g). (t # ts, g)) (getIOThreads k g))"

definition group_at :: "nat \<Rightarrow> nat \<Rightarrow> io_thread_group" where
  "group_at n i = \<lparr>g_size = int n, g_threads = [0..<n], m_index = int (i mod n)\<rparr>"

lemma getIOThread_at:
  assumes "0 < n"
  shows "getIOThread (group_at n i) = Inr (i mod n, group_at n (Suc i))"
proof -
  have "i mod n < n" using assms by simp
  moreover have "(int (i mod n) + 1) mod int n = int (Suc i mod n)"
    by (simp add: zmod_int mod_simps add.commute)
  ultimately show ?thesis
    using assms by (simp add: getIOThread_def group_at_def Let_def not_le)
qed

lemma getIOThreads_at:
  "0 < n \<Longrightarrow> getIOThreads k (group_at n i) = Inr (map (\<lambda>j. j mod n) [i..<i + k], group_at n (i + k))"
proof (induction k arbitrary: i)
  case 0
  then show ?case by simp
next
  case (Suc k)
  have "[i..<i + Suc k] = i # [Suc i..<Suc i + k]" by (simp add: upt_conv_Cons)
  with Suc.IH [of "Suc i"] Suc.prems show ?case by (simp add: getIOThread_at)
qed

text \<open>Any \<open>n\<close> successive numbers hit every residue once.\<close>

lemma filter_residue_base: "t < n \<Longrightarrow> filter (\<lambda>j. j mod n = t) [0..<n] = [t]"
proof -
  assume t: "t < n"
  have "filter (\<lambda>j. j mod n = t) [0..<n] = filter (\<lambda>j. j = t) [0..<n]"
    by (rule filter_cong) simp_all
  moreover have "[0..<n] = [0..<t] @ t # [Suc t..<n]"
    using t by (metis less_imp_le_nat upt_add_eq_append upt_conv_Cons le0 le_add_diff_inverse)
  moreover have "filter (\<lambda>j. j = t) ([0..<t] @ t # [Suc t..<n]) = [t]"
    by (simp add: filter_empty_conv)
  ultimately show ?thesis by metis
qed

lemma count_residue: "t < n \<Longrightarrow> length (filter (\<lambda>j. j mod n = t) [i..<i + n]) = 1"
proof (induction i)
  case 0
  then show ?case by (simp add: filter_residue_base)
next
  case (Suc i)
  have "[i..<i + n] = i # [Suc i..<i + n]" using Suc.prems by (simp add: upt_conv_Cons)
  moreover have "[Suc i..<Suc i + n] = [Suc i..<i + n] @ [i + n]" using Suc.prems by simp
  ultimately show ?case using Suc by (simp split: if_splits)
qed

lemma count_residues:
  "t < n \<Longrightarrow> length (filter (\<lambda>j. j mod n = t) [i..<i + k * n]) = k"
proof (induction k arbitrary: i)
  case 0
  then show ?case by simp
next
  case (Suc k)
  have "[i..<i + Suc k * n] = [i..<i + n] @ [i + n..<(i + n) + k * n]"
    using upt_add_eq_append [of i "i + n" "k * n"] by (simp only: le_add1 mult_Suc add.assoc)
  with Suc.IH [of "i + n"] Suc.prems count_residue [OF Suc.prems, of i] show ?case by simp
qed

section \<open>Properties\<close>

text \<open>
  The server's connections are spread evenly: a group of \<open>n\<close> threads hands out, in any run of
  \<open>k * n\<close> calls of \<open>getIOThread\<close>, each of its threads exactly \<open>k\<close> times, wherever its index stands.
  A group of size 0 divides by zero.
\<close>

theorem getIOThread_fair:
  assumes "t < n"
  shows "(\<exists>ts g. getIOThreads (k * n) (group_at n i) = Inr (ts, g)
            \<and> set ts \<subseteq> set (g_threads (group_at n i)) \<and> length (filter (\<lambda>x. x = t) ts) = k)
     \<and> IOThreadGroup_new (int n) = Inr (group_at n 0)
     \<and> map_sum id getIOThread (IOThreadGroup_new 0) = Inr (Inl DivisionByZero)"
proof -
  have n: "0 < n" using assms by simp
  let ?ts = "map (\<lambda>j. j mod n) [i..<i + k * n]"
  have "filter (\<lambda>x. x = t) ?ts = map (\<lambda>j. j mod n) (filter (\<lambda>j. j mod n = t) [i..<i + k * n])"
    by (simp add: filter_map comp_def)
  then have "length (filter (\<lambda>x. x = t) ?ts) = k" using count_residues [OF assms, of i k] by simp
  moreover have "set ?ts \<subseteq> set (g_threads (group_at n i))" using n by (auto simp: group_at_def)
  ultimately show ?thesis
    using getIOThreads_at [OF n, of "k * n" i]
    by (auto simp: IOThreadGroup_new_def group_at_def getIOThread_def)
qed

theorem getIOThread_fair_witness:
  "\<exists>ts g. getIOThreads (2 * 4) (group_at 4 3) = Inr (ts, g) \<and> length (filter (\<lambda>x. x = 1) ts) = 2"
  using getIOThread_fair [of 1 4 2 3] by auto

text \<open>
  In every reachable state of the handshake, once the constructor has returned the event loop and
  the thread id are there (\<open>getEventLoop\<close> never returns null), and the thread runs its loop only after
  \<open>start\<close> was called.
\<close>

theorem io_thread_handshake:
  assumes "io_reachable s"
  shows "(owner s \<in> {Ready, Joining} \<longrightarrow> has_event_loop s \<and> has_tid s)
     \<and> (thread s = Looping \<longrightarrow> 0 < starts s \<and> has_event_loop s)
     \<and> (owner s = Destroyed \<longrightarrow> thread s = Exited)"
  using io_reachable_inv [OF assms] by (auto simp: io_inv_def split: if_splits)

lemma reach_step: "io_reachable s \<Longrightarrow> s' \<in> set (owner_step s @ thread_step s) \<Longrightarrow> io_reachable s'"
  by (auto intro: io_reachable.step io_step.intros)

definition parked :: io_thread where
  "parked = IOThread_new\<lparr>owner := Ready, thread := WaitingStart, has_event_loop := True, has_tid := True\<rparr>"

lemma parked_reachable: "io_reachable parked"
proof -
  let ?s1 = "IOThread_new\<lparr>owner := WaitingInit, thread := CreatingLoop\<rparr>"
  let ?s2 = "?s1\<lparr>thread := PostingInit, has_event_loop := True, has_tid := True\<rparr>"
  let ?s3 = "?s2\<lparr>thread := WaitingStart, m_init_semaphore := 1\<rparr>"
  have "io_reachable ?s1"
    by (rule reach_step [OF io_reachable.init]) (simp add: owner_step_def IOThread_new_def)
  then have "io_reachable ?s2" by (rule reach_step) (simp add: thread_step_def IOThread_new_def)
  then have "io_reachable ?s3" by (rule reach_step) (simp add: thread_step_def IOThread_new_def)
  then show ?thesis by (rule reach_step) (simp add: owner_step_def IOThread_new_def parked_def)
qed

theorem io_thread_handshake_witness:
  "has_event_loop parked \<and> has_tid parked"
  using io_thread_handshake [OF parked_reachable] by (simp add: parked_def)

text \<open>
  The guarantee of the handshake needs the semaphores to work: both early returns of the constructor
  can leave an object that looks made but has no event loop, so that \<open>getEventLoop\<close> gives a null pointer.
\<close>

theorem early_return_without_loop:
  "\<exists>s'. s' \<in> set (owner_failure_step IOThread_new) \<and> owner s' = Ready \<and> thread s' = NotSpawned \<and> \<not> has_event_loop s'"
  "\<exists>s s'. io_reachable s \<and> s' \<in> set (owner_failure_step s) \<and> owner s' = Ready \<and> thread s' = CreatingLoop \<and> \<not> has_event_loop s'"
proof -
  let ?s = "IOThread_new\<lparr>owner := WaitingInit, thread := CreatingLoop\<rparr>"
  show "\<exists>s'. s' \<in> set (owner_failure_step IOThread_new) \<and> owner s' = Ready \<and> thread s' = NotSpawned \<and> \<not> has_event_loop s'"
    by (simp add: owner_failure_step_def IOThread_new_def)
  have "io_reachable ?s"
    by (rule reach_step [OF io_reachable.init]) (simp add: owner_step_def IOThread_new_def)
  then show "\<exists>s s'. io_reachable s \<and> s' \<in> set (owner_failure_step s) \<and> owner s' = Ready \<and> thread s' = CreatingLoop \<and> \<not> has_event_loop s'"
    by (intro exI [of _ ?s] exI [of _ "?s\<lparr>owner := Ready\<rparr>"]) (simp add: owner_failure_step_def IOThread_new_def)
qed

text \<open>
  The destructor destroys the start semaphore right after it stopped the loop.  The thread may not have
  got through its \<open>sem_wait\<close> by then, whether \<open>start\<close> was called or not, and goes on to use the destroyed
  semaphore.
\<close>

theorem semaphore_destroyed_in_use:
  "io_reachable (parked\<lparr>owner := Joining, loop_stopped := True\<rparr>)"
  "io_reachable (parked\<lparr>m_start_semaphore := 1, starts := 1, owner := Joining, loop_stopped := True\<rparr>)"
  "thread parked = WaitingStart"
proof -
  show "io_reachable (parked\<lparr>owner := Joining, loop_stopped := True\<rparr>)"
    by (rule reach_step [OF parked_reachable]) (simp add: owner_step_def parked_def IOThread_begin_destroy_def)
  have "io_reachable (parked\<lparr>m_start_semaphore := 1, starts := 1\<rparr>)"
    by (rule reach_step [OF parked_reachable]) (simp add: owner_step_def parked_def IOThread_new_def IOThread_start_def)
  then show "io_reachable (parked\<lparr>m_start_semaphore := 1, starts := 1, owner := Joining, loop_stopped := True\<rparr>)"
    by (rule reach_step) (simp add: owner_step_def parked_def IOThread_begin_destroy_def)
qed (simp add: parked_def)

text \<open>
  Destroying a thread that was started always completes: from every reachable state in which the
  destructor waits there is a step, and the thread reaches its end.  Destroying one that was never
  started never completes: \<open>stop\<close> does not post the start semaphore the thread waits on, so
  \<open>join\<close> waits for ever.
\<close>

theorem io_thread_destruction:
  assumes "io_reachable s" and "owner s = Joining"
  shows "if starts s = 0 then \<nexists>s'. io_step s s'
         else \<exists>s'. io_step\<^sup>*\<^sup>* s s' \<and> owner s' = Destroyed"
proof -
  note inv = io_reachable_inv [OF assms(1), unfolded io_inv_def]
  show ?thesis
  proof (cases "starts s = 0")
    case True
    then have "thread s = WaitingStart" "m_start_semaphore s = 0" "loop_stopped s"
      using inv assms(2) by (auto split: if_splits)
    with True assms(2) show ?thesis by (auto simp: io_step_iff owner_step_def thread_step_def)
  next
    case False
    have exited: "\<exists>s'. io_step\<^sup>*\<^sup>* s s' \<and> owner s' = Destroyed"
      if "thread s = Exited" "owner s = Joining" for s
      using that by (intro exI [of _ "s\<lparr>owner := Destroyed, has_event_loop := False\<rparr>"])
        (auto simp: owner_step_def intro!: r_into_rtranclp io_step.owner)
    have looping: "\<exists>s'. io_step\<^sup>*\<^sup>* s s' \<and> owner s' = Destroyed"
      if "thread s = Looping" "owner s = Joining" "loop_stopped s" for s
    proof -
      have "io_step s (s\<lparr>thread := Exited\<rparr>)"
        using that by (intro io_step.thread) (simp add: thread_step_def)
      with exited [of "s\<lparr>thread := Exited\<rparr>"] that show ?thesis
        by (auto intro: converse_rtranclp_into_rtranclp)
    qed
    have "thread s \<in> {WaitingStart, Looping, Exited}" "loop_stopped s" using inv assms(2) by auto
    then consider "thread s = WaitingStart" | "thread s = Looping" | "thread s = Exited" by auto
    then have "\<exists>s'. io_step\<^sup>*\<^sup>* s s' \<and> owner s' = Destroyed"
    proof cases
      case 1
      then have "0 < m_start_semaphore s" using inv False by (auto split: if_splits)
      then have "io_step s (s\<lparr>thread := Looping, m_start_semaphore := m_start_semaphore s - 1\<rparr>)"
        using 1 by (intro io_step.thread) (simp add: thread_step_def)
      with looping [of "s\<lparr>thread := Looping, m_start_semaphore := m_start_semaphore s - 1\<rparr>"]
        assms(2) \<open>loop_stopped s\<close> show ?thesis
        by (auto intro: converse_rtranclp_into_rtranclp)
    qed (use looping exited assms(2) \<open>loop_stopped s\<close> in blast)+
    with False show ?thesis by simp
  qed
qed

theorem io_thread_destruction_witness:
  "(\<nexists>s'. io_step (parked\<lparr>owner := Joining, loop_stopped := True\<rparr>) s')
   \<and> (\<exists>s'. io_step\<^sup>*\<^sup>* (parked\<lparr>m_start_semaphore := 1, starts := 1, owner := Joining, loop_stopped := True\<rparr>) s'
        \<and> owner s' = Destroyed)"
proof -
  note semaphore_destroyed_in_use(1,2)
  moreover have "starts parked = 0" by (simp add: parked_def IOThread_new_def)
  ultimately show ?thesis
    using io_thread_destruction [of "parked\<lparr>owner := Joining, loop_stopped := True\<rparr>"]
      io_thread_destruction [of "parked\<lparr>m_start_semaphore := 1, starts := 1, owner := Joining, loop_stopped := True\<rparr>"]
    by simp
qed

end
