(* ===== verification/TcpServer.thy ===== *)
theory TcpServer
  imports TcpConnection IOThread
begin

text \<open>
  The acceptor and the server (\<open>src/net/tcp/tcp_acceptor.cc\<close>, \<open>src/net/tcp/tcp_server.cc\<close>): a new
  connection is given to the next I/O thread, registered in that thread's loop from the main thread,
  and counted; a connection that closes removes itself through its callback.  The server owns the
  loops of its threads, the events of the descriptors and the connections; an operation of a
  connection runs on the current loop, event and application state, and gives them back.
\<close>

section \<open>TcpAcceptor\<close>

record tcp_acceptor =
  m_family :: nat
  m_listenfd :: int
  m_backlog :: int

text \<open>The system calls of the constructor are given by their results; \<open>None\<close> is \<open>exit(-1)\<close>.  The
  result of \<open>setsockopt\<close> is only logged.\<close>

definition TcpAcceptor_new :: "pton \<Rightarrow> (cstring \<Rightarrow> bool) \<Rightarrow> (nat \<Rightarrow> int) \<Rightarrow> (int \<Rightarrow> net_addr \<Rightarrow> int)
    \<Rightarrow> (int \<Rightarrow> int \<Rightarrow> int) \<Rightarrow> net_addr option \<Rightarrow> int \<Rightarrow> tcp_acceptor option" where
  "TcpAcceptor_new inet_pton exists_file sys_socket sys_bind sys_listen paddr backlog =
     (case paddr of
        None \<Rightarrow> None
      | Some addr \<Rightarrow>
          if \<not> addr_valid inet_pton exists_file addr then None
          else
            let family = getFamily addr;
                listenfd = sys_socket family
            in if listenfd < 0 then None
               else if sys_bind listenfd addr < 0 then None
               else if sys_listen listenfd backlog < 0 then None
               else Some \<lparr>m_family = family, m_listenfd = listenfd, m_backlog = backlog\<rparr>)"

text \<open>\<open>accept\<close>: the result of \<open>::accept\<close> with whether \<open>errno\<close> is \<open>EAGAIN\<close>, and the peer address it
  stores.  For IPv4 that errno does not count as a failure, and the address is taken from storage
  that the kernel did not fill in.\<close>

definition acceptor_accept :: "tcp_acceptor \<Rightarrow> int \<Rightarrow> bool \<Rightarrow> net_addr \<Rightarrow> net_addr \<Rightarrow> int \<times> net_addr" where
  "acceptor_accept a clientfd again peer clientAddr =
     (if m_family a = AF_INET
      then if clientfd < 0 \<and> \<not> again then (- 1, clientAddr) else (clientfd, peer)
      else if m_family a = AF_UNIX
      then if clientfd < 0 then (- 1, clientAddr) else (clientfd, peer)
      else if m_family a = AF_INET6
      then if clientfd < 0 then (- 1, clientAddr) else (clientfd, peer)
      else (- 1, clientAddr))"

section \<open>TcpServer\<close>

text \<open>\<open>m_connections\<close> is the set of connection objects, by number, with the thread each was given to;
  the server holds the only \<open>shared_ptr\<close>, so erasing an object destroys it.\<close>

record ('k, 'w) tcp_server =
  m_acceptor :: tcp_acceptor
  main_tid :: int
  main_loop :: "'k handler event_loop"
  m_io_thread_group :: io_thread_group
  io_loops :: "'k handler event_loop list"
  server_events :: "'k handler fd_event_group"
  m_client_counts :: int
  m_connections :: "nat \<rightharpoonup> nat \<times> ('k, 'w) tcp_connection"
  next_connection :: nat
  server_world :: 'w

text \<open>\<open>init\<close>: the thread group of the configured size and the listening event.  The acceptor, the
  main loop and the loops of the threads are made by their own constructors.\<close>

definition TcpServer_init :: "tcp_acceptor \<Rightarrow> 'k handler event_loop \<Rightarrow> int \<Rightarrow> (nat \<Rightarrow> 'k handler event_loop)
    \<Rightarrow> 'k handler fd_event_group \<Rightarrow> 'w \<Rightarrow> fault + ('k, 'w) tcp_server" where
  "TcpServer_init acceptor l io_threads loops events w =
     (case IOThreadGroup_new io_threads of
        Inl e \<Rightarrow> Inl e
      | Inr g \<Rightarrow>
          (case getFdEvent events (m_listenfd acceptor) of
             Inl e \<Rightarrow> Inl e
           | Inr (e, events) \<Rightarrow>
               (let e = setNonBlocking e;
                    e = listen IN_EVENT OnAccept e;
                    l = addEpollEvent (m_tid l) (nat (m_fd e)) e l
                in Inr \<lparr>m_acceptor = acceptor, main_tid = m_tid l, main_loop = l,
                        m_io_thread_group = g, io_loops = map loops (g_threads g),
                        server_events = events[nat (m_fd e) := e], m_client_counts = 0,
                        m_connections = Map.empty, next_connection = 0, server_world = w\<rparr>)))"

definition empty_addr :: "nat \<Rightarrow> net_addr" where
  "empty_addr family =
     (if family = AF_INET then IpNetAddr \<lparr>m_ip = [], m_port = 0, m_addr = zero_sockaddr 4\<rparr>
      else if family = AF_INET6 then Ip6NetAddr \<lparr>m_ip = [], m_port = 0, m_addr = zero_sockaddr 16\<rparr>
      else UnixNetAddr \<lparr>sun_family = 0, sun_path = [], m_path = []\<rparr>)"

text \<open>\<open>onAccept\<close>, with the outcome of \<open>::accept\<close> and the blocks the two buffers reserve.\<close>

definition onAccept :: "int \<Rightarrow> bool \<Rightarrow> net_addr \<Rightarrow> byte list \<Rightarrow> byte list \<Rightarrow> ('k, 'w) tcp_server
    \<Rightarrow> fault + ('k, 'w) tcp_server" where
  "onAccept clientfd again peer in_block out_block s =
     (let (client_fd, client_addr) =
            acceptor_accept (m_acceptor s) clientfd again peer (empty_addr (m_family (m_acceptor s)))
      in if client_fd < 0 then Inr s
         else
           (case getIOThread (m_io_thread_group s) of
              Inl e \<Rightarrow> Inl e
            | Inr (t, g) \<Rightarrow>
                (case getFdEvent (server_events s) client_fd of
                   Inl e \<Rightarrow> Inl e
                 | Inr (e, events) \<Rightarrow>
                     (let conn = TcpConnection_new (next_connection s) (main_tid s) (io_loops s ! t) e in_block out_block
                            TcpConnectionByServer (server_world s);
                          conn = setState Connected conn;
                          conn = setRemoveConnCb conn
                      in Inr (s\<lparr>m_io_thread_group := g,
                                io_loops := (io_loops s)[t := conn_loop conn],
                                server_events := events[nat client_fd := conn_event conn],
                                m_client_counts := m_client_counts s + 1,
                                m_connections := (m_connections s)(next_connection s \<mapsto> (t, conn)),
                                next_connection := next_connection s + 1\<rparr>)))))"

text \<open>\<open>removeConnection\<close> with a weak pointer: nothing for an object that is gone.\<close>

definition removeConnection :: "nat \<Rightarrow> ('k, 'w) tcp_server \<Rightarrow> ('k, 'w) tcp_server" where
  "removeConnection i s =
     (case m_connections s i of
        None \<Rightarrow> s
      | Some _ \<Rightarrow> s\<lparr>m_connections := (m_connections s)(i := None),
                    m_client_counts := m_client_counts s - 1\<rparr>)"

text \<open>An operation of connection \<open>i\<close>, and the removal its callback asks for.\<close>

definition with_connection :: "nat \<Rightarrow> (('k, 'w) tcp_connection \<Rightarrow> ('k, 'w) tcp_connection)
    \<Rightarrow> ('k, 'w) tcp_server \<Rightarrow> ('k, 'w) tcp_server" where
  "with_connection i f s =
     (case m_connections s i of
        None \<Rightarrow> s
      | Some (t, conn) \<Rightarrow>
          (let fd = nat (m_fd (conn_event conn));
               conn = conn\<lparr>conn_loop := io_loops s ! t, conn_event := server_events s ! fd,
                           m_world := server_world s\<rparr>;
               conn' = f conn;
               s = s\<lparr>m_connections := (m_connections s)(i \<mapsto> (t, conn')),
                     io_loops := (io_loops s)[t := conn_loop conn'],
                     server_events := (server_events s)[fd := conn_event conn'],
                     server_world := m_world conn'\<rparr>
           in if m_removals conn < m_removals conn' then removeConnection i s else s))"

datatype ('k, 'w) server_op =
    Accepted int bool net_addr "byte list" "byte list"
  | OnConnection nat "('k, 'w) tcp_connection \<Rightarrow> ('k, 'w) tcp_connection"

fun server_step :: "('k, 'w) tcp_server \<Rightarrow> ('k, 'w) server_op \<Rightarrow> ('k, 'w) tcp_server" where
  "server_step s (Accepted fd again peer b1 b2) =
     (case onAccept fd again peer b1 b2 s of Inl e \<Rightarrow> s | Inr s' \<Rightarrow> s')"
| "server_step s (OnConnection i f) = with_connection i f s"

section \<open>Bookkeeping\<close>

definition server_inv :: "nat \<Rightarrow> ('k, 'w) tcp_server \<Rightarrow> bool" where
  "server_inv n s \<longleftrightarrow>
     finite (dom (m_connections s)) \<and> m_client_counts s = int (card (dom (m_connections s)))
     \<and> (\<forall>i \<in> dom (m_connections s). i < next_connection s)
     \<and> (\<forall>(t, c) \<in> ran (m_connections s). t < n)
     \<and> length (io_loops s) = n \<and> (\<exists>k. m_io_thread_group s = group_at n k)
     \<and> m_client_counts s \<le> int (next_connection s)"

lemma ran_upd_subset: "ran (m(i \<mapsto> y)) \<subseteq> insert y (ran m)"
  by (auto simp: ran_def split: if_splits)

lemma ran_drop_subset: "ran (m(i := None)) \<subseteq> ran m"
  by (auto simp: ran_def split: if_splits)

lemma server_inv_removeConnection:
  assumes "server_inv n s"
  shows "server_inv n (removeConnection i s)"
proof (cases "m_connections s i")
  case None
  with assms show ?thesis by (simp add: removeConnection_def)
next
  case (Some p)
  then have "i \<in> dom (m_connections s)" by auto
  then have "int (card (dom (m_connections s) - {i})) = int (card (dom (m_connections s))) - 1"
    using assms card_Suc_Diff1 [of "dom (m_connections s)" i] by (simp add: server_inv_def)
  with Some assms ran_drop_subset [of "m_connections s" i] show ?thesis
    by (auto simp: removeConnection_def server_inv_def)
qed

lemma server_inv_with_connection:
  assumes "server_inv n s"
  shows "server_inv n (with_connection i f s)"
proof (cases "m_connections s i")
  case None
  with assms show ?thesis by (simp add: with_connection_def)
next
  case (Some p)
  then obtain t conn where p: "m_connections s i = Some (t, conn)" by (cases p) auto
  have "t < n" using assms p by (auto simp: server_inv_def ran_def)
  then have upd: "server_inv n (s\<lparr>m_connections := (m_connections s)(i \<mapsto> (t, c)), io_loops := ls,
      server_events := es, server_world := w\<rparr>)" if "length ls = length (io_loops s)" for c ls es w
    using assms p that ran_upd_subset [of "m_connections s" i "(t, c)"]
    by (auto simp: server_inv_def insert_absorb domI)
  show ?thesis
    using p upd server_inv_removeConnection [OF upd]
    by (auto simp: with_connection_def Let_def)
qed

lemma server_inv_onAccept:
  assumes "server_inv n s" and "onAccept fd again peer b1 b2 s = Inr s'"
  shows "server_inv n s'"
proof -
  obtain client_fd client_addr where acc: "acceptor_accept (m_acceptor s) fd again peer
      (empty_addr (m_family (m_acceptor s))) = (client_fd, client_addr)" by fastforce
  show ?thesis
  proof (cases "client_fd < 0")
    case True
    with acc assms show ?thesis by (simp add: onAccept_def)
  next
    case False
    then obtain t g e events where pick: "getIOThread (m_io_thread_group s) = Inr (t, g)"
      and ev: "getFdEvent (server_events s) client_fd = Inr (e, events)"
      using acc assms(2) by (auto simp: onAccept_def split: sum.splits)
    obtain k where k: "m_io_thread_group s = group_at n k" using assms(1) by (auto simp: server_inv_def)
    have n: "0 < n" using pick k by (cases n) (auto simp: getIOThread_def group_at_def)
    then have t: "t < n" "g = group_at n (Suc k)" using pick k by (auto simp: getIOThread_at)
    have new: "next_connection s \<notin> dom (m_connections s)" using assms(1) by (auto simp: server_inv_def)
    define conn where "conn = setRemoveConnCb (setState Connected
        (TcpConnection_new (next_connection s) (main_tid s) (io_loops s ! t) e b1 b2 TcpConnectionByServer (server_world s)))"
    have s': "s' = s\<lparr>m_io_thread_group := g, io_loops := (io_loops s)[t := conn_loop conn],
        server_events := events[nat client_fd := conn_event conn],
        m_client_counts := m_client_counts s + 1,
        m_connections := (m_connections s)(next_connection s \<mapsto> (t, conn)),
        next_connection := next_connection s + 1\<rparr>"
      using assms(2) acc False pick ev by (simp add: onAccept_def Let_def conn_def)
    show ?thesis
      using assms(1) new t ran_upd_subset [of "m_connections s" "next_connection s" "(t, conn)"]
      unfolding s' by (auto simp: server_inv_def less_Suc_eq)
  qed
qed

interpretation server: stepwise_invariant server_step "\<lambda>_ _. True" "server_inv n" for n
proof unfold_locales
  fix s :: "('a, 'b) tcp_server" and op
  assume inv: "server_inv n s"
  show "server_inv n (server_step s op)"
    by (cases op) (use inv in \<open>auto simp: server_inv_with_connection split: sum.split
        intro: server_inv_onAccept\<close>)
qed

lemma server_inv_init:
  assumes "TcpServer_init acceptor l io_threads loops events w = Inr s"
  shows "server_inv (nat io_threads) s"
proof -
  from assms have "0 \<le> io_threads"
    by (auto simp: TcpServer_init_def IOThreadGroup_new_def split: if_splits)
  then have g: "IOThreadGroup_new io_threads = Inr (group_at (nat io_threads) 0)"
    by (simp add: IOThreadGroup_new_def group_at_def)
  then have "m_io_thread_group s = group_at (nat io_threads) 0 \<and> m_connections s = Map.empty
      \<and> m_client_counts s = 0 \<and> length (io_loops s) = nat io_threads"
    using assms by (auto simp: TcpServer_init_def Let_def group_at_def split: sum.splits)
  then show ?thesis by (auto simp: server_inv_def)
qed

section \<open>Properties\<close>

text \<open>
  C22: From the start of the server on, whatever connections are accepted and whatever the connections
  do, \<open>m_client_counts\<close> is the number of live connections, and each of them belongs to one of the
  configured I/O threads.
\<close>

theorem client_counts_exact:
  assumes "TcpServer_init acceptor l io_threads loops events w = Inr s0"
  shows "let s = run_steps server_step s0 ops
         in m_client_counts s = int (card (dom (m_connections s)))
            \<and> (\<forall>(t, c) \<in> ran (m_connections s). t < nat io_threads)"
proof -
  have "server_inv (nat io_threads) (run_steps server_step s0 ops)"
    by (rule server.inv_run [OF server_inv_init [OF assms]]) simp
  then show ?thesis by (simp add: server_inv_def Let_def)
qed

definition sample_acceptor :: tcp_acceptor where
  "sample_acceptor = \<lparr>m_family = AF_INET, m_listenfd = 6, m_backlog = 1000\<rparr>"

definition io_loop :: "nat \<Rightarrow> 'k handler event_loop" where
  "io_loop t = EventLoop_new (int t + 10) (WakeupFdEvent_new (20 + int t)) (FdEvent_new (30 + int t))"

definition sample_server :: "(unit, nat) tcp_server" where
  "sample_server = \<lparr>m_acceptor = sample_acceptor, main_tid = 1, main_loop = io_loop 0,
     m_io_thread_group = group_at 4 0, io_loops = map io_loop [0..<4],
     server_events = FdEventGroup_new 128, m_client_counts = 0, m_connections = Map.empty,
     next_connection = 0, server_world = 5\<rparr>"

lemma sample_init:
  "\<exists>s. TcpServer_init sample_acceptor (io_loop 0) 4 io_loop (FdEventGroup_new 128) (5 :: nat)
     = Inr (s :: (unit, nat) tcp_server)"
proof -
  have "getFdEvent (FdEventGroup_new 128 :: unit handler fd_event_group) 6
      = Inr (FdEventGroup_new 128 ! 6, FdEventGroup_new 128)"
    using getFdEvent_hit(1) [OF wf_group_new, of 6 128] by (simp add: FdEventGroup_new_def)
  then show ?thesis
    by (simp add: TcpServer_init_def IOThreadGroup_new_def sample_acceptor_def Let_def)
qed

theorem client_counts_exact_witness:
  "\<exists>s0 :: (unit, nat) tcp_server. \<forall>ops. let s = run_steps server_step s0 ops
     in m_client_counts s = int (card (dom (m_connections s)))"
proof -
  obtain s0 :: "(unit, nat) tcp_server" where
    "TcpServer_init sample_acceptor (io_loop 0) 4 io_loop (FdEventGroup_new 128) 5 = Inr s0"
    using sample_init by blast
  from client_counts_exact [OF this] show ?thesis by (auto simp: Let_def)
qed

text \<open>
  C30: An accepted connection goes to the next thread of the round-robin order and is counted.  It is
  connected, its descriptor is non-blocking and watched for reading, and because \<open>onAccept\<close> runs in the
  main thread, the registration is queued in the loop of that thread, which is woken; the main loop, the
  loops of the other threads and the other connections are as before.  When \<open>accept\<close> fails (also with
  \<open>EAGAIN\<close>, which IPv4 does not count as a failure), or the address family is none of the three, nothing
  changes.
\<close>

theorem onAccept_assigns_next_thread:
  assumes "server_inv n s" and "m_io_thread_group s = group_at n k" and "0 < n"
    and "main_tid s \<noteq> m_tid (io_loops s ! (k mod n))"
    and "0 \<le> fd \<Longrightarrow> getFdEvent (server_events s) fd = Inr (e, events) \<and> m_fd e = fd"
  shows "if fd < 0 \<or> m_family (m_acceptor s) \<notin> {AF_INET, AF_UNIX, AF_INET6}
     then onAccept fd again peer b1 b2 s = Inr s
     else \<exists>s' c. onAccept fd again peer b1 b2 s = Inr s'
       \<and> m_connections s' = (m_connections s)(next_connection s \<mapsto> (k mod n, c))
       \<and> m_client_counts s' = m_client_counts s + 1 \<and> next_connection s \<notin> dom (m_connections s)
       \<and> m_state c = Connected \<and> nonblocking (conn_event c) \<and> listens IN_EVENT (conn_event c)
       \<and> getHandler IN_EVENT (conn_event c) = Some (OnRead (next_connection s))
       \<and> server_events s' = events[nat fd := conn_event c]
       \<and> io_loops s' = (io_loops s)[k mod n := addTask (AddFd (nat fd)) True (io_loops s ! (k mod n))]
       \<and> main_loop s' = main_loop s \<and> m_io_thread_group s' = group_at n (Suc k)"
proof (cases "fd < 0 \<or> m_family (m_acceptor s) \<notin> {AF_INET, AF_UNIX, AF_INET6}")
  case True
  then have "fst (acceptor_accept (m_acceptor s) fd again peer addr) < 0" for addr
    by (auto simp: acceptor_accept_def)
  with True show ?thesis by (simp add: onAccept_def split_def Let_def)
next
  case False
  then have accept: "acceptor_accept (m_acceptor s) fd again peer addr = (fd, peer)" "\<not> fd < 0" for addr
    by (auto simp: acceptor_accept_def)
  moreover have "k mod n < length (io_loops s)" "next_connection s \<notin> dom (m_connections s)"
    using assms(1,3) by (auto simp: server_inv_def)
  ultimately show ?thesis
    using assms(2,4,5) getIOThread_at [OF assms(3), of k] nonblocking_setNonBlocking [of e] False
    by (simp add: onAccept_def Let_def TcpConnection_new_def listenReadEvent_def
        conn_addEpollEvent_def addEpollEvent_def isInLoopThread_def setState_def setRemoveConnCb_def)
      (rule exI, rule conjI [OF refl], simp)
qed

lemma server_inv_sample: "server_inv 4 sample_server"
  unfolding server_inv_def sample_server_def by auto

theorem onAccept_assigns_next_thread_witness:
  "onAccept (- 1) True (UnixNetAddr_path []) [] [] sample_server = Inr sample_server
   \<and> (\<exists>s' c. onAccept 9 False (UnixNetAddr_path []) [] [] sample_server = Inr s'
        \<and> m_connections s' = [0 \<mapsto> (0, c)] \<and> m_state c = Connected \<and> m_client_counts s' = 1)"
proof
  have tid: "main_tid sample_server \<noteq> m_tid (io_loops sample_server ! (0 mod 4))"
    and group: "m_io_thread_group sample_server = group_at 4 0"
    by (simp_all add: sample_server_def io_loop_def EventLoop_new_eq)
  show "onAccept (- 1) True (UnixNetAddr_path []) [] [] sample_server = Inr sample_server"
    using onAccept_assigns_next_thread [OF server_inv_sample group _ tid, where fd = "- 1"] by simp
  have "getFdEvent (server_events sample_server) 9 = Inr (FdEventGroup_new 128 ! 9, FdEventGroup_new 128)
      \<and> m_fd ((FdEventGroup_new 128 :: unit handler fd_event_group) ! 9) = 9"
    using getFdEvent_hit [OF wf_group_new, of 9 128] by (simp add: FdEventGroup_new_def sample_server_def)
  from onAccept_assigns_next_thread [OF server_inv_sample group _ tid, of 9, OF _ this]
  show "\<exists>s' c. onAccept 9 False (UnixNetAddr_path []) [] [] sample_server = Inr s'
        \<and> m_connections s' = [0 \<mapsto> (0, c)] \<and> m_state c = Connected \<and> m_client_counts s' = 1"
    by (simp add: sample_server_def sample_acceptor_def) blast
qed

lemma onRead_eof:
  assumes "wf_conn n c" and "m_state c = Connected" and "m_remove_conn_cb c"
  shows "\<exists>c'. onRead disp run_cb [Bytes []] c = Some (Inr c') \<and> m_removals c' = m_removals c + 1"
proof -
  have free: "0 < writeAvailable (m_in_buffer c)"
    using assms(1) by (simp add: wf_conn_def roomy_def writeAvailable_def)
  have "\<exists>b. read_loop (m_in_buffer c) Connected [Bytes []] = Some (b, Closed, False)"
    using free by (subst read_loop.simps) (simp add: Let_def)
  then obtain b where "read_loop (m_in_buffer c) Connected [Bytes []] = Some (b, Closed, False)" ..
  with assms(2,3) show ?thesis
    by (simp add: onRead_def Let_def call_remove_conn_cb_def conn_close_event_def conn_deleteEpollEvent_def split_def)
qed



end
