(* ===== verification/Timer.thy ===== *)
theory Timer
  imports FdEvent
begin

text \<open>
  Timed tasks (\<open>include/rapidrpc/net/timer_event.h\<close>, \<open>src/net/timer_event.cc\<close>) and the timer of an
  event loop (\<open>include/rapidrpc/net/timer.h\<close>, \<open>src/net/timer.cc\<close>): a multimap from arrival times to
  events, and a timerfd armed for the earliest of them.  \<open>shared_ptr<TimerEvent>\<close> is the number of
  an object in a heap, so that several holders see the same event.  The successive results of
  \<open>getNowMs\<close> are a function \<open>m_clock\<close> of the number of readings; nothing is assumed about them.
\<close>

section \<open>TimerEvent\<close>

record 'task timer_event =
  m_arrive_time :: int
  m_interval :: int
  m_is_repeat :: bool
  te_is_canceled :: bool
  m_task :: "'task option"

definition setCanceled :: "bool \<Rightarrow> 'task timer_event \<Rightarrow> 'task timer_event" where
  "setCanceled v e = e\<lparr>te_is_canceled := v, m_task := None\<rparr>"

section \<open>Timer\<close>

text \<open>The timerfd: the \<open>it_value\<close> of the last \<open>timerfd_settime\<close> (seconds and nanoseconds, both 0 when
  it is stopped), the clock reading that value was computed from, and whether an expiration has
  not been read yet.  As documented for Linux, setting the timer discards such an expiration.\<close>

record 'task timer =
  m_pending_events :: "(int \<times> nat) list"
  m_heap :: "nat \<Rightarrow> 'task timer_event"
  m_clock :: "nat \<Rightarrow> int"
  m_readings :: nat
  m_it_value :: "int \<times> int"
  m_armed_at :: int
  m_expired :: bool

definition Timer_new :: "(nat \<Rightarrow> int) \<Rightarrow> (nat \<Rightarrow> 'task timer_event) \<Rightarrow> 'task timer" where
  "Timer_new clock heap =
     \<lparr>m_pending_events = [], m_heap = heap, m_clock = clock, m_readings = 0, m_it_value = (0, 0),
      m_armed_at = 0, m_expired = False\<rparr>"

text \<open>The constructor makes the timer an \<open>FdEvent\<close> whose read callback is \<open>onTimer\<close>, unless
  \<open>timerfd_create\<close> failed.\<close>

definition Timer_fd_event :: "int \<Rightarrow> 'k handler fd_event" where
  "Timer_fd_event fd =
     (let e = FdEvent_new (- 1) in
      if fd < 0 then e else listen IN_EVENT OnTimer (e\<lparr>m_fd := fd\<rparr>))"

definition getNowMs :: "'task timer \<Rightarrow> int \<times> 'task timer" where
  "getNowMs t = (m_clock t (m_readings t), t\<lparr>m_readings := m_readings t + 1\<rparr>)"

definition timerfd_settime :: "int \<times> int \<Rightarrow> int \<Rightarrow> 'task timer \<Rightarrow> 'task timer" where
  "timerfd_settime v now t = t\<lparr>m_it_value := v, m_armed_at := now, m_expired := False\<rparr>"

definition resetArriveTime :: "nat \<Rightarrow> 'task timer \<Rightarrow> 'task timer" where
  "resetArriveTime i t =
     (let (now, t) = getNowMs t;
          e = m_heap t i
      in t\<lparr>m_heap := (m_heap t)(i := e\<lparr>m_arrive_time := now + m_interval e\<rparr>)\<rparr>)"

definition TimerEvent_new :: "nat \<Rightarrow> int \<Rightarrow> bool \<Rightarrow> 'task option \<Rightarrow> 'task timer \<Rightarrow> 'task timer" where
  "TimerEvent_new i interval is_repeat cb t =
     resetArriveTime i
       (t\<lparr>m_heap := (m_heap t)(i := \<lparr>m_arrive_time = 0, m_interval = interval, m_is_repeat = is_repeat,
                                      te_is_canceled = False, m_task = cb\<rparr>)\<rparr>)"

definition cancelTimerEvent :: "nat \<Rightarrow> 'task timer \<Rightarrow> 'task timer" where
  "cancelTimerEvent i t = t\<lparr>m_heap := (m_heap t)(i := setCanceled True (m_heap t i))\<rparr>"

text \<open>\<open>std::multimap::emplace\<close> inserts after the entries with an equal key.\<close>

fun emplace :: "int \<Rightarrow> 'v \<Rightarrow> (int \<times> 'v) list \<Rightarrow> (int \<times> 'v) list" where
  "emplace k v [] = [(k, v)]"
| "emplace k v ((k', v') # r) = (if k < k' then (k, v) # (k', v') # r else (k', v') # emplace k v r)"

definition resetTimer :: "'task timer \<Rightarrow> 'task timer" where
  "resetTimer t =
     (case m_pending_events t of
        [] \<Rightarrow> timerfd_settime (0, 0) (m_armed_at t) t
      | (first, _) # _ \<Rightarrow>
          (let (now, t) = getNowMs t;
               interval = (if first > now then first - now else 100)
           in timerfd_settime (interval div 1000, (interval mod 1000) * 1000000) now t))"

definition addTimerEvent :: "nat \<Rightarrow> 'task timer \<Rightarrow> 'task timer" where
  "addTimerEvent i t =
     (let arrive_time = m_arrive_time (m_heap t i);
          is_reset_timerfd = (case m_pending_events t of
                                [] \<Rightarrow> True
                              | (first, _) # _ \<Rightarrow> arrive_time < first);
          t = t\<lparr>m_pending_events := emplace arrive_time i (m_pending_events t)\<rparr>
      in if is_reset_timerfd then resetTimer t else t)"

text \<open>The loop over \<open>equal_range(arrive_time)\<close> erases the first entry that points to the event.\<close>

definition deleteTimerEvent :: "nat \<Rightarrow> 'task timer \<Rightarrow> 'task timer" where
  "deleteTimerEvent i t =
     (let t = cancelTimerEvent i t;
          arrive_time = m_arrive_time (m_heap t i)
      in if (arrive_time, i) \<in> set (m_pending_events t)
         then let t = t\<lparr>m_pending_events := remove1 (arrive_time, i) (m_pending_events t)\<rparr>;
                  is_reset_timerfd = (case m_pending_events t of
                                        [] \<Rightarrow> True
                                      | (first, _) # _ \<Rightarrow> first \<noteq> arrive_time)
              in if is_reset_timerfd then resetTimer t else t
         else t)"

text \<open>\<open>onTimer\<close> first reads the timerfd, again and again while that fails with \<open>EAGAIN\<close>: without an
  unread expiration it waits for the armed time, or for ever when the timer is stopped.  Then it
  takes the due events that are not cancelled and re-adds the repeating ones.\<close>

fun repeat_events :: "nat list \<Rightarrow> 'task timer \<Rightarrow> 'task timer" where
  "repeat_events [] t = t"
| "repeat_events (i # is) t =
     repeat_events is
       (if m_is_repeat (m_heap t i) then addTimerEvent i (resetArriveTime i t) else t)"

definition onTimer_collect :: "'task timer \<Rightarrow> (nat list \<times> 'task timer) option" where
  "onTimer_collect t =
     (if \<not> m_expired t \<and> m_it_value t = (0, 0) then None
      else
        let t = t\<lparr>m_expired := False\<rparr>;
            (now, t) = getNowMs t;
            due = takeWhile (\<lambda>(k, _). k \<le> now) (m_pending_events t);
            events = filter (\<lambda>i. \<not> te_is_canceled (m_heap t i)) (map snd due);
            t = t\<lparr>m_pending_events := dropWhile (\<lambda>(k, _). k \<le> now) (m_pending_events t)\<rparr>;
            t = resetTimer t
        in Some (events, repeat_events events t))"

text \<open>The tasks run one after the other; each is looked up when its turn comes, so a task that an
  earlier one cancelled is skipped.  \<open>task\<close> reads the task of an event out of the program state,
  \<open>exec\<close> is its effect.\<close>

fun run_due :: "('s \<Rightarrow> nat \<Rightarrow> 'task option) \<Rightarrow> ('task \<Rightarrow> 's \<Rightarrow> 's) \<Rightarrow> nat list \<Rightarrow> 's \<Rightarrow> 's" where
  "run_due task exec [] s = s"
| "run_due task exec (i # is) s =
     run_due task exec is (case task s i of None \<Rightarrow> s | Some cb \<Rightarrow> exec cb s)"

definition onTimer :: "('task \<Rightarrow> 'task timer \<Rightarrow> 'task timer) \<Rightarrow> 'task timer \<Rightarrow> 'task timer option" where
  "onTimer exec t =
     map_option (\<lambda>(events, t). run_due (\<lambda>t i. m_task (m_heap t i)) exec events t) (onTimer_collect t)"

section \<open>The multimap\<close>

lemma set_emplace [simp]: "set (emplace k v xs) = insert (k, v) (set xs)"
  by (induction xs) (auto split: if_splits)

lemma distinct_emplace:
  "v \<notin> snd ` set xs \<Longrightarrow> distinct (map snd xs) \<Longrightarrow> distinct (map snd (emplace k v xs))"
  by (induction xs) (auto simp: rev_image_eqI split: if_splits)

lemma sorted_emplace: "sorted (map fst xs) \<Longrightarrow> sorted (map fst (emplace k v xs))"
  by (induction xs) (fastforce split: if_splits)+

lemma hd_emplace:
  "sorted (map fst xs) \<Longrightarrow> fst (hd (emplace k v xs)) = (if xs = [] then k else min k (fst (hd xs)))"
  by (cases xs) auto

lemma emplace_not_Nil [simp]: "emplace k v xs \<noteq> []"
  by (induction xs) (auto split: if_splits)

text \<open>Due entries form a prefix.\<close>

lemma dropWhile_sorted:
  "sorted (map fst xs) \<Longrightarrow> dropWhile (\<lambda>(k, _). k \<le> now) xs = filter (\<lambda>(k, _). \<not> k \<le> now) (xs :: (int \<times> nat) list)"
  by (induction xs) (auto simp: filter_id_conv intro!: filter_True [symmetric])

lemma takeWhile_sorted:
  "sorted (map fst xs) \<Longrightarrow> takeWhile (\<lambda>(k, _). k \<le> now) xs = filter (\<lambda>(k, _). k \<le> now) (xs :: (int \<times> nat) list)"
  by (induction xs) (auto simp: filter_empty_conv intro!: filter_False [symmetric])

lemma sorted_dropWhile_keys:
  "sorted (map fst xs) \<Longrightarrow> sorted (map fst (dropWhile P xs))"
  by (metis dropWhile_eq_drop drop_map sorted_wrt_drop)

section \<open>Well-formedness\<close>

abbreviation pending_ids :: "'task timer \<Rightarrow> nat set" where
  "pending_ids t \<equiv> snd ` set (m_pending_events t)"

definition wf_pending :: "'task timer \<Rightarrow> bool" where
  "wf_pending t \<longleftrightarrow> sorted (map fst (m_pending_events t)) \<and> distinct (map snd (m_pending_events t))
     \<and> (\<forall>(k, i) \<in> set (m_pending_events t). m_arrive_time (m_heap t i) = k)"

text \<open>The time, by the clock the value was computed from, at which the timerfd expires.\<close>

definition deadline :: "'task timer \<Rightarrow> int" where
  "deadline t = m_armed_at t + 1000 * fst (m_it_value t) + snd (m_it_value t) div 1000000"

text \<open>The timerfd is armed exactly when an event is pending, with a value \<open>timerfd_settime\<close> accepts,
  and it expires no later than the first event is due, or 100 ms after it was set when that event
  was overdue.\<close>

definition timely :: "'task timer \<Rightarrow> bool" where
  "timely t \<longleftrightarrow> (m_pending_events t = [] \<longleftrightarrow> m_it_value t = (0, 0))
     \<and> 0 \<le> fst (m_it_value t) \<and> 0 \<le> snd (m_it_value t) \<and> snd (m_it_value t) < 1000000000
     \<and> (m_pending_events t = [] \<or> deadline t \<le> max (fst (hd (m_pending_events t))) (m_armed_at t + 100))"

definition wf_timer :: "'task timer \<Rightarrow> bool" where
  "wf_timer t \<longleftrightarrow> wf_pending t \<and> timely t"

lemma resetTimer_keeps [simp]:
  "m_pending_events (resetTimer t) = m_pending_events t" "m_heap (resetTimer t) = m_heap t"
  "m_clock (resetTimer t) = m_clock t"
  by (simp_all add: resetTimer_def timerfd_settime_def getNowMs_def Let_def split: list.split)

lemma itimerspec_facts:
  fixes n :: int
  assumes "0 < n"
  shows "0 \<le> n div 1000" and "0 \<le> n mod 1000 * 1000000" and "n mod 1000 * 1000000 < 1000000000"
    and "(n div 1000, n mod 1000 * 1000000) \<noteq> (0, 0)"
    and "1000 * (n div 1000) + n mod 1000 * 1000000 div 1000000 = n"
proof -
  have "n mod 1000 < 1000" by simp
  then show "n mod 1000 * 1000000 < 1000000000" by simp
  have sum: "1000 * (n div 1000) + n mod 1000 = n" by simp
  then show "1000 * (n div 1000) + n mod 1000 * 1000000 div 1000000 = n" by simp
  show "(n div 1000, n mod 1000 * 1000000) \<noteq> (0, 0)" using sum assms by auto
qed (use assms in \<open>simp_all add: pos_imp_zdiv_nonneg_iff\<close>)

lemma timely_resetTimer: "timely (resetTimer t)"
proof (cases "m_pending_events t")
  case Nil
  then show ?thesis by (simp add: timely_def) (simp add: resetTimer_def timerfd_settime_def)
next
  case (Cons p r)
  define now where "now = m_clock t (m_readings t)"
  define n where "n = (if fst p > now then fst p - now else 100)"
  have "0 < n" by (simp add: n_def)
  note facts = itimerspec_facts [OF this]
  have it: "m_it_value (resetTimer t) = (n div 1000, n mod 1000 * 1000000)"
    and at: "m_armed_at (resetTimer t) = now"
    using Cons by (simp_all add: resetTimer_def getNowMs_def timerfd_settime_def split_def Let_def now_def n_def)
  have "deadline (resetTimer t) = now + n"
    using facts(5) unfolding deadline_def it at by simp
  moreover have "now + n \<le> max (fst p) (now + 100)" by (simp add: n_def)
  ultimately show ?thesis
    using facts Cons unfolding timely_def by (simp add: it at)
qed

lemma m_expired_resetTimer [simp]: "\<not> m_expired (resetTimer t)"
  by (simp add: resetTimer_def timerfd_settime_def split_def Let_def split: list.split)

lemma timely_cong:
  assumes "m_pending_events t' = [] \<longleftrightarrow> m_pending_events t = []"
    and "m_pending_events t = [] \<or> fst (hd (m_pending_events t)) \<le> fst (hd (m_pending_events t'))"
    and "m_it_value t' = m_it_value t" and "m_armed_at t' = m_armed_at t"
  shows "timely t \<Longrightarrow> timely t'"
  using assms by (auto simp: timely_def deadline_def)

lemma resetArriveTime_facts [simp]:
  "m_pending_events (resetArriveTime i t) = m_pending_events t"
  "m_it_value (resetArriveTime i t) = m_it_value t" "m_armed_at (resetArriveTime i t) = m_armed_at t"
  "m_expired (resetArriveTime i t) = m_expired t" "m_clock (resetArriveTime i t) = m_clock t"
  "j \<noteq> i \<Longrightarrow> m_heap (resetArriveTime i t) j = m_heap t j"
  "m_arrive_time (m_heap (resetArriveTime i t) i) = m_clock t (m_readings t) + m_interval (m_heap t i)"
  "te_is_canceled (m_heap (resetArriveTime i t) j) = te_is_canceled (m_heap t j)"
  "m_is_repeat (m_heap (resetArriveTime i t) j) = m_is_repeat (m_heap t j)"
  "m_interval (m_heap (resetArriveTime i t) j) = m_interval (m_heap t j)"
  "m_task (m_heap (resetArriveTime i t) j) = m_task (m_heap t j)"
  by (simp_all add: resetArriveTime_def getNowMs_def Let_def)

lemma wf_resetArriveTime: "wf_timer t \<Longrightarrow> i \<notin> pending_ids t \<Longrightarrow> wf_timer (resetArriveTime i t)"
  unfolding wf_timer_def
proof (elim conjE, intro conjI)
  assume "wf_pending t" and i: "i \<notin> pending_ids t"
  moreover have "m_arrive_time (m_heap (resetArriveTime i t) j) = m_arrive_time (m_heap t j)"
    if "(k, j) \<in> set (m_pending_events t)" for k j
    using that i by (subst resetArriveTime_facts(6)) (auto simp: image_iff)
  ultimately show "wf_pending (resetArriveTime i t)" by (auto simp: wf_pending_def)
qed (rule timely_cong, simp_all)

lemma addTimerEvent_keeps [simp]:
  "m_heap (addTimerEvent i t) = m_heap t" "m_clock (addTimerEvent i t) = m_clock t"
  by (simp_all add: addTimerEvent_def Let_def)

lemma pending_addTimerEvent:
  "m_pending_events (addTimerEvent i t) = emplace (m_arrive_time (m_heap t i)) i (m_pending_events t)"
  by (simp add: addTimerEvent_def Let_def)

lemma wf_addTimerEvent:
  assumes "wf_timer t" and "i \<notin> pending_ids t"
  shows "wf_timer (addTimerEvent i t)"
proof -
  let ?k = "m_arrive_time (m_heap t i)"
  have P: "wf_pending t" and T: "timely t" using assms(1) by (simp_all add: wf_timer_def)
  have "wf_pending (addTimerEvent i t)"
    using P assms(2)
    by (auto simp: wf_pending_def pending_addTimerEvent sorted_emplace distinct_emplace)
  moreover have "timely (addTimerEvent i t)"
  proof (cases "m_pending_events t = [] \<or> ?k < fst (hd (m_pending_events t))")
    case True
    then show ?thesis
      by (cases "m_pending_events t") (auto simp: addTimerEvent_def Let_def timely_resetTimer)
  next
    case False
    then have "addTimerEvent i t = t\<lparr>m_pending_events := emplace ?k i (m_pending_events t)\<rparr>"
      by (cases "m_pending_events t") (auto simp: addTimerEvent_def Let_def)
    then show ?thesis
      using T P False by (auto intro: timely_cong [of _ t] simp: hd_emplace wf_pending_def)
  qed
  ultimately show ?thesis by (simp add: wf_timer_def)
qed

lemma cancelTimerEvent_facts [simp]:
  "m_pending_events (cancelTimerEvent i t) = m_pending_events t"
  "m_arrive_time (m_heap (cancelTimerEvent i t) j) = m_arrive_time (m_heap t j)"
  "m_it_value (cancelTimerEvent i t) = m_it_value t" "m_armed_at (cancelTimerEvent i t) = m_armed_at t"
  "te_is_canceled (m_heap (cancelTimerEvent i t) j) \<longleftrightarrow> j = i \<or> te_is_canceled (m_heap t j)"
  "m_task (m_heap (cancelTimerEvent i t) i) = None"
  by (simp_all add: cancelTimerEvent_def setCanceled_def)

lemma wf_cancelTimerEvent: "wf_timer t \<Longrightarrow> wf_timer (cancelTimerEvent i t)"
  unfolding wf_timer_def
  by (intro conjI, simp add: wf_pending_def, elim conjE, rule timely_cong [of _ t]) simp_all

lemma pending_deleteTimerEvent:
  "m_pending_events (deleteTimerEvent i t) = remove1 (m_arrive_time (m_heap t i), i) (m_pending_events t)"
  by (auto simp: deleteTimerEvent_def Let_def remove1_idem)

lemma heap_deleteTimerEvent: "m_heap (deleteTimerEvent i t) = m_heap (cancelTimerEvent i t)"
  by (auto simp: deleteTimerEvent_def Let_def)

lemma sorted_hd: "sorted (map fst xs) \<Longrightarrow> x \<in> set xs \<Longrightarrow> fst (hd xs) \<le> fst x"
  by (cases xs) auto

lemma distinct_snd_remove1: "distinct (map snd xs) \<Longrightarrow> distinct (map snd (remove1 x xs))"
  by (auto simp: distinct_map intro: inj_on_subset dest: set_remove1_subset [THEN subsetD])

lemma wf_deleteTimerEvent:
  assumes "wf_timer t"
  shows "wf_timer (deleteTimerEvent i t)"
proof -
  let ?k = "m_arrive_time (m_heap t i)"
  have P: "wf_pending t" and T: "timely (cancelTimerEvent i t)"
    using assms wf_cancelTimerEvent [OF assms] by (simp_all add: wf_timer_def)
  have "wf_pending (deleteTimerEvent i t)"
    using P by (auto simp: wf_pending_def pending_deleteTimerEvent heap_deleteTimerEvent
        sorted_map_remove1 distinct_snd_remove1 dest!: notin_set_remove1 set_remove1_subset [THEN subsetD])
  moreover have "timely (deleteTimerEvent i t)"
  proof (cases "(?k, i) \<in> set (m_pending_events t)")
    case False
    then show ?thesis using T by (simp add: deleteTimerEvent_def Let_def)
  next
    case True
    let ?r = "remove1 (?k, i) (m_pending_events t)"
    let ?c = "(cancelTimerEvent i t)\<lparr>m_pending_events := ?r\<rparr>"
    have eq: "deleteTimerEvent i t =
      (if ?r = [] \<or> fst (hd ?r) \<noteq> ?k then resetTimer ?c else ?c)"
      using True by (cases ?r) (auto simp: deleteTimerEvent_def Let_def)
    have old: "fst (hd (m_pending_events t)) \<le> ?k"
      using sorted_hd [of "m_pending_events t", OF _ True] P by (simp add: wf_pending_def)
    show ?thesis
    proof (cases "?r = [] \<or> fst (hd ?r) \<noteq> ?k")
      case True
      then show ?thesis unfolding eq by (simp add: timely_resetTimer)
    next
      case False
      have "timely ?c"
        using T
        by (rule timely_cong [rotated -1]) (use False old True in \<open>auto\<close>)
      with False show ?thesis unfolding eq by simp
    qed
  qed
  ultimately show ?thesis by (simp add: wf_timer_def)
qed

lemma repeat_events_facts:
  assumes "wf_timer t" and "distinct is" and "set is \<inter> pending_ids t = {}"
  shows "wf_timer (repeat_events is t)
     \<and> pending_ids (repeat_events is t) = pending_ids t \<union> {i \<in> set is. m_is_repeat (m_heap t i)}"
  using assms
proof (induction "is" arbitrary: t)
  case Nil
  then show ?case by simp
next
  case (Cons i "is")
  define t1 where "t1 = (if m_is_repeat (m_heap t i) then addTimerEvent i (resetArriveTime i t) else t)"
  have i: "i \<notin> pending_ids t" and d: "distinct is" "i \<notin> set is" using Cons.prems(2,3) by auto
  have wf1: "wf_timer t1"
    unfolding t1_def using Cons.prems(1) i
    by (simp add: wf_addTimerEvent wf_resetArriveTime)
  have ids1: "pending_ids t1 = pending_ids t \<union> (if m_is_repeat (m_heap t i) then {i} else {})"
    by (auto simp: t1_def pending_addTimerEvent)
  have rep1: "m_is_repeat (m_heap t1 j) = m_is_repeat (m_heap t j)" for j by (simp add: t1_def)
  have "set is \<inter> pending_ids t1 = {}" using Cons.prems(3) d by (auto simp: ids1)
  from Cons.IH [OF wf1 d(1) this] show ?case
    by (auto simp: rep1 ids1 simp flip: t1_def)
qed

text \<open>What \<open>onTimer\<close> takes and what it leaves, in terms of the clock reading it makes.\<close>

definition due_ids :: "'task timer \<Rightarrow> nat list" where
  "due_ids t = map snd (filter (\<lambda>(k, i). k \<le> m_clock t (m_readings t) \<and> \<not> te_is_canceled (m_heap t i))
     (m_pending_events t))"

lemma onTimer_collect_None:
  "onTimer_collect t = None \<longleftrightarrow> \<not> m_expired t \<and> m_it_value t = (0, 0)"
  by (simp add: onTimer_collect_def Let_def split_def)

lemma filter_map_snd_due:
  "filter (\<lambda>i. \<not> c i) (map snd (filter (\<lambda>(k, _). k \<le> now) xs)) = map snd (filter (\<lambda>(k, i). k \<le> now \<and> \<not> c i) xs)"
  by (induction xs) auto

lemma onTimer_collect_facts:
  assumes wf: "wf_timer t" and some: "onTimer_collect t = Some (events, t')"
  shows "events = due_ids t" and "wf_timer t'"
    and "pending_ids t' = {i. \<exists>k. (k, i) \<in> set (m_pending_events t) \<and> m_clock t (m_readings t) < k}
           \<union> {i \<in> set events. m_is_repeat (m_heap t i)}"
proof -
  let ?now = "m_clock t (m_readings t)" and ?P = "m_pending_events t"
  let ?later = "filter (\<lambda>(k, _). \<not> k \<le> ?now) ?P"
  define t1 where "t1 = t\<lparr>m_expired := False, m_readings := m_readings t + 1, m_pending_events := ?later\<rparr>"
  define t2 where "t2 = resetTimer t1"
  have P: "sorted (map fst ?P)" "distinct (map snd ?P)"
    "\<And>k i. (k, i) \<in> set ?P \<Longrightarrow> m_arrive_time (m_heap t i) = k"
    using wf by (auto simp: wf_timer_def wf_pending_def)
  have sp: "events = due_ids t" "t' = repeat_events (due_ids t) t2"
    using some unfolding onTimer_collect_def getNowMs_def Let_def due_ids_def
    by (auto simp: takeWhile_sorted [OF P(1)] dropWhile_sorted [OF P(1)] filter_map_snd_due
        t2_def t1_def split: if_splits)
  show "events = due_ids t" by (fact sp(1))
  have "wf_pending t1"
    using P by (auto simp: wf_pending_def t1_def sorted_filter distinct_map_filter)
  then have "wf_timer t2"
    using timely_resetTimer [of t1] by (auto simp: wf_timer_def wf_pending_def t2_def)
  moreover have ids: "pending_ids t2 = {i. \<exists>k. (k, i) \<in> set ?P \<and> ?now < k}"
    by (force simp: t2_def t1_def)
  moreover have "distinct (due_ids t)" using P(2) by (simp add: due_ids_def distinct_map_filter)
  moreover have "set (due_ids t) \<inter> pending_ids t2 = {}"
    unfolding ids due_ids_def using P(3) by (fastforce dest: P(3))
  moreover have "m_is_repeat (m_heap t2 i) = m_is_repeat (m_heap t i)" for i
    by (simp add: t2_def t1_def)
  ultimately show "wf_timer t'"
    and "pending_ids t' = {i. \<exists>k. (k, i) \<in> set ?P \<and> ?now < k} \<union> {i \<in> set events. m_is_repeat (m_heap t i)}"
    using repeat_events_facts [of t2 "due_ids t"] sp by auto
qed

section \<open>Runs of a timer\<close>

text \<open>What happens to a timer: events are created, added, deleted, cancelled, the timerfd expires,
  and \<open>onTimer\<close> handles it.  A program creates an event, and adds it, when it is not pending.\<close>

datatype 'task timer_op =
    Create nat int bool "'task option"
  | Add nat
  | Delete nat
  | Cancel nat
  | Expire
  | Fire

fun timer_step :: "'task timer \<Rightarrow> 'task timer_op \<Rightarrow> 'task timer" where
  "timer_step t (Create i interval is_repeat cb) = TimerEvent_new i interval is_repeat cb t"
| "timer_step t (Add i) = addTimerEvent i t"
| "timer_step t (Delete i) = deleteTimerEvent i t"
| "timer_step t (Cancel i) = cancelTimerEvent i t"
| "timer_step t Expire = t\<lparr>m_expired := (m_it_value t \<noteq> (0, 0))\<rparr>"
| "timer_step t Fire = (case onTimer_collect t of None \<Rightarrow> t | Some (_, t') \<Rightarrow> t')"

fun timer_allowed :: "'task timer \<Rightarrow> 'task timer_op \<Rightarrow> bool" where
  "timer_allowed t (Create i _ _ _) \<longleftrightarrow> i \<notin> pending_ids t"
| "timer_allowed t (Add i) \<longleftrightarrow> i \<notin> pending_ids t"
| "timer_allowed t _ \<longleftrightarrow> True"

lemma wf_TimerEvent_new:
  "wf_timer t \<Longrightarrow> i \<notin> pending_ids t \<Longrightarrow> wf_timer (TimerEvent_new i interval rep cb t)"
  unfolding TimerEvent_new_def
  by (rule wf_resetArriveTime)
    (force simp: wf_timer_def wf_pending_def timely_def deadline_def)+

interpretation timer: stepwise_invariant timer_step timer_allowed wf_timer
proof unfold_locales
  fix t :: "'a timer" and op
  assume wf: "wf_timer t" and ok: "timer_allowed t op"
  show "wf_timer (timer_step t op)"
  proof (cases op)
    case Expire
    with wf show ?thesis by (auto simp: wf_timer_def wf_pending_def timely_def deadline_def)
  next
    case Fire
    with wf onTimer_collect_facts(2) [OF wf] show ?thesis by (auto split: option.split)
  qed (use wf ok in \<open>simp_all add: wf_TimerEvent_new wf_addTimerEvent wf_deleteTimerEvent
        wf_cancelTimerEvent\<close>)
qed

lemma wf_Timer_new: "wf_timer (Timer_new clock heap)"
  by (simp add: wf_timer_def wf_pending_def timely_def Timer_new_def)

text \<open>With a log as the program state, \<open>run_due\<close> runs the tasks of the events in order.\<close>

lemma run_due_log:
  "run_due (\<lambda>_. task) (\<lambda>cb l. l @ [cb]) events l = l @ List.map_filter task events"
  by (induction events arbitrary: l) (auto simp: List.map_filter_simps split: option.split)

section \<open>Properties\<close>

text \<open>
  C20: However events are created, added, deleted, cancelled and fired, with any clock, the pending
  events stay sorted by arrival time, the timerfd is armed exactly when there are some, with a value
  the kernel accepts, and it expires no later than the first of them is due (or 100 ms after it was
  set, when that event was overdue already).
\<close>

theorem timer_armed_for_first_event:
  assumes "run_allowed timer_step timer_allowed (Timer_new clock heap) ops"
  shows "let t = run_steps timer_step (Timer_new clock heap) ops
         in sorted (map fst (m_pending_events t)) \<and> timely t"
  using timer.inv_run [OF wf_Timer_new assms] by (simp add: wf_timer_def wf_pending_def Let_def)

definition sample_ops :: "nat timer_op list" where
  "sample_ops = [Create 0 50 False (Some 7), Add 0, Create 1 20 True (Some 8), Add 1, Expire]"

definition sample_timer :: "nat timer" where
  "sample_timer = run_steps timer_step
     (Timer_new (\<lambda>n. 25 * int n) (\<lambda>_. \<lparr>m_arrive_time = 0, m_interval = 0, m_is_repeat = False,
        te_is_canceled = False, m_task = None\<rparr>)) sample_ops"

lemma sample_timer_fields:
  "m_pending_events sample_timer = [(50, 0), (70, 1)]" "m_expired sample_timer"
  "m_clock sample_timer = (\<lambda>n. 25 * int n)" "m_readings sample_timer = 3"
  "m_it_value sample_timer = (0, 25000000)"
  "m_is_repeat (m_heap sample_timer 1)" "\<not> m_is_repeat (m_heap sample_timer 0)"
  "\<not> te_is_canceled (m_heap sample_timer 0)" "\<not> te_is_canceled (m_heap sample_timer 1)"
  "m_arrive_time (m_heap sample_timer 0) = 50"
  by (simp_all add: sample_timer_def sample_ops_def Timer_new_def TimerEvent_new_def
      resetArriveTime_def addTimerEvent_def resetTimer_def getNowMs_def timerfd_settime_def Let_def)

lemma sample_allowed:
  "run_allowed timer_step timer_allowed
     (Timer_new (\<lambda>n. 25 * int n) (\<lambda>_. \<lparr>m_arrive_time = 0, m_interval = 0, m_is_repeat = False,
        te_is_canceled = False, m_task = None\<rparr>)) sample_ops"
  by (simp add: sample_ops_def Timer_new_def TimerEvent_new_def
      resetArriveTime_def addTimerEvent_def resetTimer_def getNowMs_def timerfd_settime_def Let_def)

lemma wf_sample_timer: "wf_timer sample_timer"
  unfolding sample_timer_def by (rule timer.inv_run [OF wf_Timer_new sample_allowed])

theorem timer_armed_for_first_event_witness:
  "sorted (map fst (m_pending_events sample_timer)) \<and> timely sample_timer"
  using timer_armed_for_first_event [OF sample_allowed] by (simp add: Let_def sample_timer_def)

text \<open>
  C25: \<open>onTimer\<close> takes exactly the pending events that are due at the time it reads and not cancelled,
  in order of their arrival times.  Afterwards the events not yet due are still pending, the
  repeating ones among the due are pending again, the one-shot ones are gone.
\<close>

theorem onTimer_takes_due_events:
  assumes "wf_timer t" and "onTimer_collect t = Some (events, t')"
  shows "events = map snd (filter (\<lambda>(k, i). k \<le> m_clock t (m_readings t) \<and> \<not> te_is_canceled (m_heap t i))
                     (m_pending_events t))
     \<and> pending_ids t' = {i. \<exists>k. (k, i) \<in> set (m_pending_events t) \<and> m_clock t (m_readings t) < k}
           \<union> {i \<in> set events. m_is_repeat (m_heap t i)}
     \<and> run_due (\<lambda>_. task) (\<lambda>cb log. log @ [cb]) events [] = List.map_filter task events"
  using onTimer_collect_facts [OF assms] run_due_log [of task events "[]"] by (simp add: due_ids_def)

theorem onTimer_takes_due_events_witness:
  "\<exists>t'. onTimer_collect sample_timer = Some ([0, 1], t') \<and> pending_ids t' = {1}"
proof -
  have "onTimer_collect sample_timer \<noteq> None"
    by (simp add: onTimer_collect_None sample_timer_fields)
  then obtain events t' where some: "onTimer_collect sample_timer = Some (events, t')" by auto
  note facts = onTimer_takes_due_events [OF wf_sample_timer some, of "\<lambda>_. None"]
  have events: "events = [0, 1]"
    using facts [THEN conjunct1] sample_timer_fields by simp
  have later: "{i. \<exists>k. (k, i) \<in> set (m_pending_events sample_timer)
      \<and> m_clock sample_timer (m_readings sample_timer) < k} = {}"
    by (auto simp: sample_timer_fields)
  have again: "{i \<in> set [0, 1]. m_is_repeat (m_heap sample_timer i)} = {1}"
    using sample_timer_fields(6,7) by auto
  have "pending_ids t' = {1}"
    using facts [THEN conjunct2, THEN conjunct1] unfolding events later again by simp
  with some events show ?thesis by simp
qed

text \<open>
  An event that was deleted, or cancelled the way \<open>RpcChannel\<close> does it, is not among the due
  events of the next \<open>onTimer\<close> and has no task left to run, also when it was already taken by the
  \<open>onTimer\<close> under way; a deleted event is no longer pending.
\<close>

theorem cancelled_event_never_runs:
  assumes "wf_timer t"
  shows "i \<notin> set (due_ids (deleteTimerEvent i t)) \<and> i \<notin> set (due_ids (cancelTimerEvent i t))
     \<and> i \<notin> pending_ids (deleteTimerEvent i t)
     \<and> m_task (m_heap (deleteTimerEvent i t) i) = None \<and> m_task (m_heap (cancelTimerEvent i t) i) = None
     \<and> run_due (\<lambda>t i. m_task (m_heap t i)) exec (i # is) (cancelTimerEvent i t)
         = run_due (\<lambda>t i. m_task (m_heap t i)) exec is (cancelTimerEvent i t)"
proof -
  have "i \<notin> pending_ids (deleteTimerEvent i t)"
    using assms
    by (auto simp: pending_deleteTimerEvent wf_timer_def wf_pending_def distinct_map set_remove1_eq)
  then show ?thesis by (auto simp: due_ids_def heap_deleteTimerEvent)
qed

theorem cancelled_event_never_runs_witness:
  "0 \<in> set (due_ids sample_timer) \<and> 0 \<notin> set (due_ids (deleteTimerEvent 0 sample_timer))
   \<and> 0 \<notin> set (due_ids (cancelTimerEvent 0 sample_timer))"
proof -
  have "0 \<in> set (due_ids sample_timer)"
    unfolding due_ids_def by (simp add: sample_timer_fields)
  then show ?thesis using cancelled_event_never_runs [OF wf_sample_timer, of 0] by blast
qed

text \<open>
  When the last pending event is deleted by a task that runs before an \<open>onTimer\<close> that is already
  queued, that \<open>onTimer\<close> never returns: deleting stops the timerfd, which discards the expiration
  that queued the call, and the callback repeats its \<open>read\<close> as long as it fails with \<open>EAGAIN\<close>.
\<close>

theorem delete_before_onTimer_hangs:
  assumes "m_pending_events t = [(k, i)]" and "m_arrive_time (m_heap t i) = k"
  shows "onTimer exec (deleteTimerEvent i t) = None"
  using assms
  by (simp add: onTimer_def onTimer_collect_None deleteTimerEvent_def resetTimer_def
      timerfd_settime_def Let_def)

theorem delete_before_onTimer_hangs_witness:
  "let t = run_steps timer_step
       (Timer_new (\<lambda>n. 25 * int n) (\<lambda>_. \<lparr>m_arrive_time = 0, m_interval = 0, m_is_repeat = False,
          te_is_canceled = False, m_task = None\<rparr>)) [Create 0 50 False (Some 7), Add 0, Expire]
   in m_expired t \<and> onTimer (\<lambda>_ t. t) t \<noteq> None \<and> onTimer (\<lambda>(_ :: nat) t. t) (deleteTimerEvent 0 t) = None"
proof -
  define t :: "nat timer" where "t = run_steps timer_step
       (Timer_new (\<lambda>n. 25 * int n) (\<lambda>_. \<lparr>m_arrive_time = 0, m_interval = 0, m_is_repeat = False,
          te_is_canceled = False, m_task = None\<rparr>)) [Create 0 50 False (Some 7), Add 0, Expire]"
  have t: "m_pending_events t = [(50, 0)]" "m_arrive_time (m_heap t 0) = 50" "m_expired t"
    by (simp_all add: t_def Timer_new_def TimerEvent_new_def
      resetArriveTime_def addTimerEvent_def resetTimer_def getNowMs_def timerfd_settime_def Let_def)
  then have "onTimer (\<lambda>_ t. t) t \<noteq> None"
    by (simp add: onTimer_def onTimer_collect_None)
  with delete_before_onTimer_hangs [OF t(1,2)] t(3) show ?thesis
    unfolding t_def Let_def by blast
qed

end
