(* ===== verification/RpcChannel.thy ===== *)
theory RpcChannel
  imports TcpConnection Timer
begin

text \<open>
  The client side of a call (\<open>src/net/tcp/tcp_client.cc\<close>, \<open>src/net/rpc/rpc_channel.cc\<close>,
  \<open>include/rapidrpc/net/rpc/rpc_closure.h\<close>): \<open>RpcChannel::CallMethod\<close> prepares the request, starts the
  timeout, and connects; from then on the call lives in callbacks of the event loop.  The lambdas of
  \<open>CallMethod\<close> are the values of \<open>rpc_closure\<close> and \<open>rpc_task\<close>, interpreted by the functions below;
  the channel, its \<open>TcpClient\<close> and the loop's timer are the state of the client's connection.
\<close>

section \<open>State\<close>

text \<open>\<open>conn_cb\<close>, the write callback and the read callback of \<open>CallMethod\<close>; all capture the request
  and the channel.\<close>

datatype rpc_closure = ConnCb tinypb_protocol | WriteCb | ReadCb

datatype rpc_task = TimeoutTask tinypb_protocol

datatype RpcClosure = RpcClosure (m_callback: bool)

text \<open>The channel with its client: \<open>done_runs\<close> counts how often the user's callback ran.  \<open>m_controller\<close> is
  the object given to \<open>Init\<close>, which the callbacks use.  The \<open>controller\<close> argument of \<open>CallMethod\<close> is a pointer
  of its own: \<open>other_argument\<close> is the object behind it, or \<open>None\<close> when that is the channel's own
  controller, which is what \<open>CALL_RPC\<close> passes.\<close>

record 'pb rpc_state =
  m_connect_error_code :: int32
  m_connect_error_info :: cstring
  m_local_addr :: "net_addr option"
  m_peer_addr :: net_addr
  m_controller :: rpc_controller
  other_argument :: "rpc_controller option"
  m_response :: 'pb
  m_done :: "RpcClosure option"
  m_is_init :: bool
  m_timer_event :: nat
  m_timer :: "rpc_task timer"
  done_runs :: nat

type_synonym 'pb client = "(rpc_closure, 'pb rpc_state) tcp_connection"

text \<open>The system and protobuf calls the client makes: the texts of \<open>strerror\<close>, the result of
  \<open>getsockname\<close>, and parsing into the response object, which tells whether it succeeded and what it
  left in the object, also when it failed.\<close>

datatype connect_result = ConnectOk | EINPROGRESS | EISCONN | ECONNREFUSED | OtherErrno

record 'pb rpc_env =
  strerror :: "connect_result \<Rightarrow> cstring"
  getsockname :: "net_addr option"
  ParseResponse :: "'pb \<Rightarrow> cstring \<Rightarrow> bool \<times> 'pb"

definition on_world :: "('pb rpc_state \<Rightarrow> 'pb rpc_state) \<Rightarrow> 'pb client \<Rightarrow> 'pb client" where
  "on_world f c = c\<lparr>m_world := f (m_world c)\<rparr>"

definition closure_Run :: "RpcClosure option \<Rightarrow> 'pb client \<Rightarrow> 'pb client" where
  "closure_Run cl c =
     (case cl of
        Some r \<Rightarrow> if m_callback r then on_world (\<lambda>w. w\<lparr>done_runs := done_runs w + 1\<rparr>) c else c
      | None \<Rightarrow> c)"

definition on_controller :: "(rpc_controller \<Rightarrow> rpc_controller) \<Rightarrow> 'pb client \<Rightarrow> 'pb client" where
  "on_controller f = on_world (\<lambda>w. w\<lparr>m_controller := f (m_controller w)\<rparr>)"

definition argument_controller :: "'pb rpc_state \<Rightarrow> rpc_controller" where
  "argument_controller w = (case other_argument w of Some ctl \<Rightarrow> ctl | None \<Rightarrow> m_controller w)"

definition on_argument :: "(rpc_controller \<Rightarrow> rpc_controller) \<Rightarrow> 'pb client \<Rightarrow> 'pb client" where
  "on_argument f c =
     (case other_argument (m_world c) of
        Some ctl \<Rightarrow> on_world (\<lambda>w. w\<lparr>other_argument := Some (f ctl)\<rparr>) c
      | None \<Rightarrow> on_controller f c)"

section \<open>TcpClient\<close>

text \<open>All of this runs in the loop's own thread.\<close>

definition writeMessage :: "abstract_protocol \<Rightarrow> rpc_closure \<Rightarrow> 'pb client \<Rightarrow> 'pb client" where
  "writeMessage message write_cb c = listenWriteEvent (m_tid (conn_loop c)) (addMessage message write_cb c)"

definition readMessage :: "cstring \<Rightarrow> rpc_closure \<Rightarrow> 'pb client \<Rightarrow> 'pb client" where
  "readMessage msg_id read_cb c = listenReadEvent (m_tid (conn_loop c)) (addReadCb msg_id read_cb c)"

definition tcp_client_close :: "'pb client \<Rightarrow> 'pb client" where
  "tcp_client_close c =
     (if m_is_looping (conn_loop c)
      then conn_close_event (c\<lparr>conn_loop := stop (conn_loop c)\<rparr>) else c)"

definition initLocalAddr :: "'pb rpc_env \<Rightarrow> 'pb client \<Rightarrow> 'pb client" where
  "initLocalAddr env c =
     (if m_connect_error_code (m_world c) \<noteq> error_code OK \<or> m_state c \<noteq> Connected then c
      else on_world (\<lambda>w. w\<lparr>m_local_addr := getsockname env\<rparr>) c)"

section \<open>The callbacks of a call\<close>

definition run_conn_cb :: "rpc_closure \<Rightarrow> 'pb client \<Rightarrow> 'pb client" where
  "run_conn_cb k c =
     (case k of
        ConnCb req \<Rightarrow>
          if m_connect_error_code (m_world c) \<noteq> error_code OK
          then
            let c = on_controller (SetErrorCode (m_connect_error_code (m_world c))
                      (m_connect_error_info (m_world c))) c;
                c = closure_Run (m_done (m_world c)) c
            in tcp_client_close c
          else writeMessage (TinyPB req) WriteCb c
      | _ \<Rightarrow> c)"

definition handle_response :: "'pb rpc_env \<Rightarrow> tinypb_protocol \<Rightarrow> 'pb client \<Rightarrow> 'pb client" where
  "handle_response env resp c =
     (if m_err_code resp \<noteq> error_code OK
      then on_controller (SetErrorCode (m_err_code resp) (m_err_info resp)) c
      else
        let (ok, r) = ParseResponse env (m_response (m_world c)) (m_pb_data resp);
            c = on_world (\<lambda>w. w\<lparr>m_response := r\<rparr>) c
        in if ok then c
           else on_controller (SetError SYS_FAILED_DESERIALIZE (ascii ''Deserialize response failed'')) c)"

text \<open>The write callback gets the request object it captured as its argument.\<close>

definition run_message_cb :: "'pb rpc_env \<Rightarrow> (rpc_closure, 'pb rpc_state) runner" where
  "run_message_cb env k msg c =
     (case k of
        WriteCb \<Rightarrow> readMessage (abstract_msg_id msg) ReadCb c
      | ReadCb \<Rightarrow>
          if IsCanceled (m_controller (m_world c)) then c
          else
            let c = on_world (\<lambda>w. w\<lparr>m_timer := cancelTimerEvent (m_timer_event w) (m_timer w)\<rparr>) c
            in (case cast_TinyPB msg of
                  None \<Rightarrow> c
                | Some resp \<Rightarrow>
                    (let c = handle_response env resp c;
                         c = closure_Run (m_done (m_world c)) c
                     in tcp_client_close c))
      | ConnCb _ \<Rightarrow> c)"

definition run_timeout :: "rpc_task \<Rightarrow> 'pb client \<Rightarrow> 'pb client" where
  "run_timeout task c =
     (case task of TimeoutTask req \<Rightarrow>
        let text = ascii ''rpc call timeout, msg_id=['' @ m_msg_id req @ ascii ''], method_name=[''
                   @ m_method_name req @ ascii ''] peer_addr=['' @ toString (m_peer_addr (m_world c))
                   @ ascii ''], timeout=['' @ int_text (GetTimeout (m_controller (m_world c))) @ ascii ''ms]'';
            c = on_controller StartCancel c;
            c = on_controller (SetError SYS_RPC_CALL_TIMEOUT text) c;
            c = closure_Run (m_done (m_world c)) c
        in tcp_client_close c)"

section \<open>Connecting\<close>

definition connected :: "'pb rpc_env \<Rightarrow> 'pb client \<Rightarrow> 'pb client" where
  "connected env c =
     initLocalAddr env (on_world (\<lambda>w. w\<lparr>m_connect_error_code := error_code OK\<rparr>) (setState Connected c))"

definition enter_loop :: "'pb client \<Rightarrow> 'pb client" where
  "enter_loop c =
     (if m_is_looping (conn_loop c) then c
      else c\<lparr>conn_loop := (conn_loop c)\<lparr>m_is_looping := True\<rparr>\<rparr>)"

text \<open>\<open>connect\<close> with the result of \<open>::connect\<close>.  Entering the loop is the last thing it does; what the
  loop does then are the events below.\<close>

definition connect :: "'pb rpc_env \<Rightarrow> connect_result \<Rightarrow> rpc_closure \<Rightarrow> 'pb client \<Rightarrow> 'pb client" where
  "connect env rt conn_cb c =
     (if rt = ConnectOk then enter_loop (run_conn_cb conn_cb (connected env c))
      else if rt \<noteq> EINPROGRESS
      then run_conn_cb conn_cb (on_world (\<lambda>w. w\<lparr>m_connect_error_code := error_code SYS_FAILED_CONNECT,
                                                  m_connect_error_info := strerror env rt\<rparr>) c)
      else enter_loop (conn_addEpollEvent (m_tid (conn_loop c))
             (c\<lparr>conn_event := listen OUT_EVENT (OnConnect conn_cb) (conn_event c)\<rparr>)))"

text \<open>The one-shot handler of the writable event, with the result of the second \<open>::connect\<close>.\<close>

definition on_connect :: "'pb rpc_env \<Rightarrow> connect_result \<Rightarrow> rpc_closure \<Rightarrow> 'pb client \<Rightarrow> 'pb client" where
  "on_connect env rt conn_cb c =
     (let c = (if rt = EISCONN \<or> rt = ConnectOk then connected env c
               else on_world (\<lambda>w. w\<lparr>m_connect_error_code :=
                        error_code (if rt = ECONNREFUSED then SYS_PEER_CLOSED else SYS_FAILED_CONNECT),
                      m_connect_error_info := strerror env rt\<rparr>) c)
      in run_conn_cb conn_cb (conn_deleteEpollEvent (m_tid (conn_loop c)) c))"

section \<open>CallMethod\<close>

text \<open>\<open>rpc_controller\<close> tells whether the controller argument is one of ours, \<open>new_id\<close> is what \<open>GenMsgId\<close>
  would return, \<open>request\<close> the serialized request unless serializing fails, \<open>done\<close> the closure
  argument, and \<open>i\<close> the new timer event.\<close>

definition CallMethod_request :: "cstring \<Rightarrow> cstring \<Rightarrow> 'pb client \<Rightarrow> tinypb_protocol" where
  "CallMethod_request new_id name c =
     (let id = GetMsgId (argument_controller (m_world c))
      in setMethodName name (setMsgId (if id \<noteq> [] then id else new_id) TinyPBProtocol_new))"

definition RpcChannel_CallMethod :: "'pb rpc_env \<Rightarrow> connect_result \<Rightarrow> bool \<Rightarrow> cstring \<Rightarrow> cstring \<Rightarrow> cstring option
    \<Rightarrow> RpcClosure option \<Rightarrow> nat \<Rightarrow> 'pb client \<Rightarrow> 'pb client" where
  "RpcChannel_CallMethod env rt rpc_controller new_id name request done i c =
     (if \<not> rpc_controller then c
      else
        let req = CallMethod_request new_id name c;
            c = (if GetMsgId (argument_controller (m_world c)) \<noteq> [] then c
                 else on_argument (SetMsgId (m_msg_id req)) c)
        in if \<not> m_is_init (m_world c)
           then closure_Run done (on_argument (SetError SYS_CHANNEL_NOT_INIT (ascii ''RpcChannel not init'')) c)
           else case request of
             None \<Rightarrow> closure_Run done (on_argument (SetError SYS_FAILED_SERIALIZE
                       (ascii ''Serialize request failed'')) c)
           | Some pb_data \<Rightarrow>
               (let req = complete (setPbData pb_data req);
                    c = on_world (\<lambda>w. w\<lparr>m_timer := TimerEvent_new i (GetTimeout (argument_controller w)) False
                                            (Some (TimeoutTask req)) (m_timer w), m_timer_event := i\<rparr>) c;
                    c = on_world (\<lambda>w. w\<lparr>m_timer := addTimerEvent i (m_timer w)\<rparr>) c
                in connect env rt (ConnCb req) c))"

section \<open>Construction\<close>

text \<open>The client of a channel lives in its thread's own loop; \<open>this\<close> names the new connection.  Without an address, or when the socket
  cannot be made, it has no connection.\<close>

definition TcpClient_new :: "nat \<Rightarrow> (nat \<Rightarrow> int) \<Rightarrow> net_addr option \<Rightarrow> rpc_closure handler event_loop
    \<Rightarrow> rpc_closure handler fd_event_group \<Rightarrow> byte list \<Rightarrow> byte list \<Rightarrow> 'pb rpc_state
    \<Rightarrow> fault + 'pb client option \<times> rpc_closure handler fd_event_group" where
  "TcpClient_new this sys_socket peer_addr l events in_block out_block w =
     (case peer_addr of
        None \<Rightarrow> Inr (None, events)
      | Some addr \<Rightarrow>
          (let fd = sys_socket (getFamily addr) in
           if fd < 0 then Inr (None, events)
           else case getFdEvent events fd of
                  Inl e \<Rightarrow> Inl e
                | Inr (e, events) \<Rightarrow>
                    (let e = setNonBlocking e;
                         c = TcpConnection_new this (m_tid l) l e in_block out_block TcpConnectionByClient w
                     in Inr (Some c, events[nat fd := conn_event c]))))"

text \<open>The members of a new channel; controller and response are null until \<open>Init\<close>, the values given
  here are not read before.\<close>

definition rpc_state_new :: "net_addr \<Rightarrow> rpc_controller \<Rightarrow> 'pb \<Rightarrow> rpc_task timer \<Rightarrow> 'pb rpc_state" where
  "rpc_state_new peer ctl response t =
     \<lparr>m_connect_error_code = 0, m_connect_error_info = [], m_local_addr = None, m_peer_addr = peer,
      m_controller = ctl, other_argument = None, m_response = response, m_done = None, m_is_init = False, m_timer_event = 0,
      m_timer = t, done_runs = 0\<rparr>"

definition RpcChannel_new :: "nat \<Rightarrow> (nat \<Rightarrow> int) \<Rightarrow> net_addr \<Rightarrow> rpc_closure handler event_loop
    \<Rightarrow> rpc_closure handler fd_event_group \<Rightarrow> byte list \<Rightarrow> byte list \<Rightarrow> rpc_controller \<Rightarrow> 'pb \<Rightarrow> rpc_task timer
    \<Rightarrow> fault + 'pb client option \<times> rpc_closure handler fd_event_group" where
  "RpcChannel_new this sys_socket peer l events in_block out_block ctl response t =
     TcpClient_new this sys_socket (Some peer) l events in_block out_block (rpc_state_new peer ctl response t)"

definition Channel_Init :: "rpc_controller \<Rightarrow> 'pb \<Rightarrow> RpcClosure option \<Rightarrow> 'pb rpc_state \<Rightarrow> 'pb rpc_state" where
  "Channel_Init ctl response done w =
     (if \<not> m_is_init w
      then w\<lparr>m_controller := ctl, m_response := response, m_done := done, m_is_init := True\<rparr> else w)"

section \<open>Events\<close>

text \<open>What the loop runs for a call: its handlers, in any order, as the queue has them.\<close>

definition client_onTimer :: "'pb client \<Rightarrow> 'pb client option" where
  "client_onTimer c =
     map_option (\<lambda>(events, t).
        run_due (\<lambda>c i. m_task (m_heap (m_timer (m_world c)) i)) run_timeout events
          (on_world (\<lambda>w. w\<lparr>m_timer := t\<rparr>) c))
       (onTimer_collect (m_timer (m_world c)))"

datatype rpc_event =
    EvRead "sock_read list"
  | EvWrite "sock_write list"
  | EvTimer

text \<open>A client never dispatches.\<close>

definition no_dispatch :: "'w dispatching" where
  "no_dispatch r w = Inl NullPointer"

fun rpc_step :: "'pb rpc_env \<Rightarrow> 'pb client \<Rightarrow> rpc_event \<Rightarrow> 'pb client" where
  "rpc_step env c (EvRead script) =
     (case onRead no_dispatch (run_message_cb env) script c of Some (Inr c') \<Rightarrow> c' | _ \<Rightarrow> c)"
| "rpc_step env c (EvWrite script) =
     (case onWrite (run_message_cb env) script c of Some c' \<Rightarrow> c' | None \<Rightarrow> c)"
| "rpc_step env c EvTimer = (case client_onTimer c of Some c' \<Rightarrow> c' | None \<Rightarrow> c)"

end
