(* ===== verification/ChannelProperties.thy ===== *)
theory ChannelProperties
  imports RpcChannel
begin

text \<open>
  What a call of \<open>RpcChannel\<close> guarantees: the invariant of a call whose connection was established and
  its preservation by every event of the loop, the completion of a call by its response, by its
  timeout and by an early error, and the two places where completing or closing goes wrong.
\<close>

section \<open>What the operations leave alone\<close>

lemma conn_close_event_facts [simp]:
  "m_world (conn_close_event c) = m_world c" "m_write_cb (conn_close_event c) = m_write_cb c"
  "m_read_cb (conn_close_event c) = m_read_cb c" "m_state (conn_close_event c) = m_state c"
  "m_conn_type (conn_close_event c) = m_conn_type c" "m_in_buffer (conn_close_event c) = m_in_buffer c"
  "m_out_buffer (conn_close_event c) = m_out_buffer c" "m_sent (conn_close_event c) = m_sent c"
  by (simp_all add: conn_close_event_def split_def Let_def)

lemma tcp_client_close_facts [simp]:
  "m_world (tcp_client_close c) = m_world c" "m_write_cb (tcp_client_close c) = m_write_cb c"
  "m_read_cb (tcp_client_close c) = m_read_cb c" "m_state (tcp_client_close c) = m_state c"
  "m_conn_type (tcp_client_close c) = m_conn_type c" "m_in_buffer (tcp_client_close c) = m_in_buffer c"
  "m_out_buffer (tcp_client_close c) = m_out_buffer c" "m_sent (tcp_client_close c) = m_sent c"
  by (simp_all add: tcp_client_close_def)

lemma conn_deleteEpollEvent_facts [simp]:
  "m_world (conn_deleteEpollEvent k c) = m_world c" "m_write_cb (conn_deleteEpollEvent k c) = m_write_cb c"
  "m_read_cb (conn_deleteEpollEvent k c) = m_read_cb c" "m_state (conn_deleteEpollEvent k c) = m_state c"
  "m_conn_type (conn_deleteEpollEvent k c) = m_conn_type c"
  by (simp_all add: conn_deleteEpollEvent_def)

lemma call_remove_facts [simp]:
  "m_world (call_remove_conn_cb c) = m_world c" "m_write_cb (call_remove_conn_cb c) = m_write_cb c"
  "m_read_cb (call_remove_conn_cb c) = m_read_cb c" "m_conn_type (call_remove_conn_cb c) = m_conn_type c"
  by (simp_all add: call_remove_conn_cb_def)

lemma on_world_facts [simp]:
  "m_world (on_world f c) = f (m_world c)" "m_write_cb (on_world f c) = m_write_cb c"
  "m_read_cb (on_world f c) = m_read_cb c" "m_state (on_world f c) = m_state c"
  "m_conn_type (on_world f c) = m_conn_type c" "conn_loop (on_world f c) = conn_loop c"
  "conn_event (on_world f c) = conn_event c"
  "m_in_buffer (on_world f c) = m_in_buffer c" "m_out_buffer (on_world f c) = m_out_buffer c"
  by (simp_all add: on_world_def)

lemma closure_Run_shape:
  "\<exists>k. k \<le> 1 \<and> closure_Run cl c = on_world (\<lambda>w. w\<lparr>done_runs := done_runs w + k\<rparr>) c
     \<and> (cl = Some (RpcClosure True) \<longrightarrow> k = 1)"
proof (cases "\<exists>r. cl = Some r \<and> m_callback r")
  case True
  then show ?thesis by (intro exI [of _ 1]) (auto simp: closure_Run_def)
next
  case False
  then have "closure_Run cl c = c" by (auto simp: closure_Run_def split: option.split)
  then show ?thesis using False by (intro exI [of _ 0]) (auto simp: on_world_def)
qed

section \<open>A call is completed at most once\<close>

text \<open>The invariant of a call whose connection was established: the one timer event is one-shot;
  the request waits to be written, or its response is awaited, or nothing is registered; once the
  user's callback ran, either the call timed out and its event is gone, or the response was handled
  and the event is cancelled and nothing is registered.\<close>

definition call_inv :: "'pb client \<Rightarrow> bool" where
  "call_inv c \<longleftrightarrow> m_conn_type c = TcpConnectionByClient \<and>
     (let w = m_world c; t = m_timer w; i = m_timer_event w in
        wf_timer t \<and> pending_ids t \<subseteq> {i} \<and> \<not> m_is_repeat (m_heap t i)
        \<and> ((\<exists>m. m_write_cb c = [(m, WriteCb)]) \<and> m_read_cb c = Map.empty
           \<or> m_write_cb c = [] \<and> (m_read_cb c = Map.empty \<or> (\<exists>mid. m_read_cb c = [mid \<mapsto> ReadCb])))
        \<and> done_runs w \<le> 1
        \<and> (m_is_canceled (m_controller w) \<longrightarrow> pending_ids t = {})
        \<and> (done_runs w = 1 \<longrightarrow> m_is_canceled (m_controller w)
              \<or> te_is_canceled (m_heap t i) \<and> m_write_cb c = [] \<and> m_read_cb c = Map.empty))"

lemma call_inv_cong:
  "m_world c' = m_world c \<Longrightarrow> m_write_cb c' = m_write_cb c \<Longrightarrow> m_read_cb c' = m_read_cb c \<Longrightarrow>
     m_conn_type c' = m_conn_type c \<Longrightarrow> call_inv c' = call_inv c"
  by (simp add: call_inv_def)

lemma call_inv_same:
  "call_inv c \<Longrightarrow> m_world c' = m_world c \<Longrightarrow> m_write_cb c' = m_write_cb c \<Longrightarrow> m_read_cb c' = m_read_cb c \<Longrightarrow>
     m_conn_type c' = m_conn_type c \<Longrightarrow> call_inv c'"
  using call_inv_cong by blast

lemma handle_response_facts:
  "\<exists>ctl r. handle_response env resp c = on_world (\<lambda>w. w\<lparr>m_controller := ctl, m_response := r\<rparr>) c
     \<and> m_is_canceled ctl = m_is_canceled (m_controller (m_world c))"
proof (cases "m_err_code resp \<noteq> error_code OK")
  case True
  then show ?thesis
    by (intro exI [of _ "SetErrorCode (m_err_code resp) (m_err_info resp) (m_controller (m_world c))"]
        exI [of _ "m_response (m_world c)"])
      (simp add: handle_response_def on_controller_def on_world_def SetErrorCode_def)
next
  case False
  show ?thesis
  proof (cases "ParseResponse env (m_response (m_world c)) (m_pb_data resp)")
    case (Pair ok r)
    with False show ?thesis
      by (intro exI [of _ "if ok then m_controller (m_world c)
            else SetError SYS_FAILED_DESERIALIZE (ascii ''Deserialize response failed'') (m_controller (m_world c))"] exI [of _ r])
        (simp add: handle_response_def on_controller_def on_world_def SetError_def)
  qed
qed

text \<open>The read callback of a call that was not cancelled.\<close>

lemma read_cb_shape:
  assumes "\<not> m_is_canceled (m_controller (m_world c))"
  shows "\<exists>ctl r k. m_world (run_message_cb env ReadCb (TinyPB m) c) = (m_world c)
       \<lparr>m_timer := cancelTimerEvent (m_timer_event (m_world c)) (m_timer (m_world c)),
        m_controller := ctl, m_response := r, done_runs := done_runs (m_world c) + k\<rparr>
     \<and> k \<le> 1 \<and> \<not> m_is_canceled ctl
     \<and> m_read_cb (run_message_cb env ReadCb (TinyPB m) c) = m_read_cb c
     \<and> m_write_cb (run_message_cb env ReadCb (TinyPB m) c) = m_write_cb c
     \<and> m_conn_type (run_message_cb env ReadCb (TinyPB m) c) = m_conn_type c"
proof -
  define c1 where "c1 = on_world (\<lambda>w. w\<lparr>m_timer := cancelTimerEvent (m_timer_event w) (m_timer w)\<rparr>) c"
  obtain ctl r where h: "handle_response env m c1 = on_world (\<lambda>w. w\<lparr>m_controller := ctl, m_response := r\<rparr>) c1"
    "m_is_canceled ctl = m_is_canceled (m_controller (m_world c1))"
    using handle_response_facts [of env m c1] by (elim exE conjE)
  define c2 where "c2 = handle_response env m c1"
  obtain k where k: "k \<le> 1" "closure_Run (m_done (m_world c2)) c2 = on_world (\<lambda>w. w\<lparr>done_runs := done_runs w + k\<rparr>) c2"
    using closure_Run_shape [of "m_done (m_world c2)" c2] by (elim exE conjE)
  have run: "run_message_cb env ReadCb (TinyPB m) c = tcp_client_close (closure_Run (m_done (m_world c2)) c2)"
    using assms by (simp add: run_message_cb_def IsCanceled_def Let_def c2_def c1_def)
  have c2: "c2 = on_world (\<lambda>w. w\<lparr>m_controller := ctl, m_response := r\<rparr>) c1" using h(1) by (simp only: c2_def)
  have ctl: "\<not> m_is_canceled ctl" using h(2) assms by (simp add: c1_def)
  show ?thesis
    unfolding run k(2) unfolding c2 c1_def
    by (intro exI [of _ ctl] exI [of _ r] exI [of _ k]) (use k(1) in \<open>simp add: ctl\<close>)
qed

text \<open>The read callback keeps the invariant, together with the erasure that follows it.\<close>

lemma read_cb_inv:
  assumes inv: "call_inv c" and reg: "m_read_cb c mid = Some k"
  shows "call_inv ((run_message_cb env k (TinyPB m) c)
           \<lparr>m_read_cb := (m_read_cb (run_message_cb env k (TinyPB m) c))(mid := None)\<rparr>)"
proof -
  from inv reg have read: "m_read_cb c = [mid \<mapsto> ReadCb]" and k: "k = ReadCb" and wr: "m_write_cb c = []"
    by (auto simp: call_inv_def Let_def split: if_splits)
  show ?thesis
  proof (cases "m_is_canceled (m_controller (m_world c))")
    case True
    then have "run_message_cb env k (TinyPB m) c = c" by (simp add: run_message_cb_def k IsCanceled_def)
    with inv True read wr show ?thesis by (auto simp: call_inv_def Let_def)
  next
    case False
    obtain ctl r j where "m_world (run_message_cb env ReadCb (TinyPB m) c) = (m_world c)
       \<lparr>m_timer := cancelTimerEvent (m_timer_event (m_world c)) (m_timer (m_world c)),
        m_controller := ctl, m_response := r, done_runs := done_runs (m_world c) + j\<rparr>"
     "j \<le> 1" "\<not> m_is_canceled ctl"
     "m_read_cb (run_message_cb env ReadCb (TinyPB m) c) = m_read_cb c"
     "m_write_cb (run_message_cb env ReadCb (TinyPB m) c) = m_write_cb c"
     "m_conn_type (run_message_cb env ReadCb (TinyPB m) c) = m_conn_type c"
      using read_cb_shape [OF False] by blast
    moreover have "done_runs (m_world c) = 0" using inv False read by (auto simp: call_inv_def Let_def)
    ultimately show ?thesis
      using inv read wr wf_cancelTimerEvent [of "m_timer (m_world c)" "m_timer_event (m_world c)"]
      by (auto simp: call_inv_def Let_def k cancelTimerEvent_def setCanceled_def)
  qed
qed

lemma run_read_cbs_inv: "call_inv c \<Longrightarrow> call_inv (run_read_cbs (run_message_cb env) ms c)"
proof (induction ms arbitrary: c)
  case (Cons m ms)
  then show ?case
    using read_cb_inv [OF Cons.prems, of "m_msg_id m"] by (auto simp: Let_def split: option.split)
qed simp

lemma onRead_inv:
  assumes "call_inv c"
    and "onRead no_dispatch (run_message_cb env) script c = Some (Inr c')"
  shows "call_inv c'"
proof (cases "m_state c = Connected")
  case False
  with assms show ?thesis by (simp add: onRead_def)
next
  case True
  from True assms(2) obtain b st failed where rd: "read_loop (m_in_buffer c) Connected script = Some (b, st, failed)"
    by (cases "read_loop (m_in_buffer c) Connected script") (auto simp: onRead_def)
  let ?c = "c\<lparr>m_in_buffer := b, m_state := st\<rparr>"
  have ty: "m_conn_type c = TcpConnectionByClient" using assms(1) by (simp add: call_inv_def)
  have c: "call_inv ?c" by (rule call_inv_same [OF assms(1)]) simp_all
  show ?thesis
  proof (cases "failed \<or> st = Closed")
    case True
    define d where "d = call_remove_conn_cb (conn_close_event (conn_deleteEpollEvent (m_tid (conn_loop ?c)) ?c))"
    have d: "call_inv d" by (rule call_inv_same [OF c]) (simp_all add: d_def)
    have "c' = (if failed then ?c else d)"
      using True rd \<open>m_state c = Connected\<close> assms(2) by (auto simp: onRead_def Let_def d_def split: if_splits)
    with c d show ?thesis by (cases failed) simp_all
  next
    case False
    with rd \<open>m_state c = Connected\<close> assms(2) have "execute no_dispatch (run_message_cb env) ?c = Some (Inr c')"
      by (auto simp: onRead_def Let_def)
    then obtain ms b2 where "c' = run_read_cbs (run_message_cb env) ms (?c\<lparr>m_in_buffer := b2\<rparr>)"
      using ty by (auto simp: execute_def Let_def split: option.splits sum.splits)
    moreover have "call_inv (?c\<lparr>m_in_buffer := b2\<rparr>)" by (rule call_inv_same [OF c]) simp_all
    ultimately show ?thesis using run_read_cbs_inv by blast
  qed
qed

text \<open>Writing: the write callback registers the read callback, then the list is cleared.\<close>

lemma length_tinypb_encode [simp]: "length (fst (tinypb_encode ms b)) = length ms"
  by (induction ms arbitrary: b) (auto simp: split_def Let_def split: option.split)

lemma encode_waiting_facts [simp]:
  "m_world (encode_waiting c) = m_world c" "m_read_cb (encode_waiting c) = m_read_cb c"
  "m_conn_type (encode_waiting c) = m_conn_type c" "map snd (m_write_cb (encode_waiting c)) = map snd (m_write_cb c)"
  by (simp_all add: encode_waiting_def split_def Let_def)

lemma encode_waiting_inv:
  assumes "call_inv c"
  shows "call_inv (encode_waiting c)"
proof -
  have "(\<exists>m. m_write_cb (encode_waiting c) = [(m, WriteCb)]) \<longleftrightarrow> map snd (m_write_cb (encode_waiting c)) = [WriteCb]"
    "(\<exists>m. m_write_cb c = [(m, WriteCb)]) \<longleftrightarrow> map snd (m_write_cb c) = [WriteCb]"
    by (auto simp: map_eq_Cons_conv simp del: encode_waiting_facts)
  moreover have "m_write_cb (encode_waiting c) = [] \<longleftrightarrow> m_write_cb c = []"
    by (metis encode_waiting_facts(4) map_is_Nil_conv)
  ultimately show ?thesis using assms by (simp add: call_inv_def Let_def)
qed

lemma write_cbs_inv:
  assumes "call_inv c"
  shows "\<exists>c'. run_write_cbs (run_message_cb env) 0 c = Some c' \<and> call_inv (c'\<lparr>m_write_cb := []\<rparr>)"
proof (cases "m_write_cb c")
  case Nil
  then have "run_write_cbs (run_message_cb env) 0 c = Some c" by (simp add: run_write_cbs.simps)
  moreover have "c\<lparr>m_write_cb := []\<rparr> = c" using Nil by (cases c) simp
  ultimately show ?thesis using assms by simp
next
  case (Cons p ps)
  then obtain m where w: "m_write_cb c = [(m, WriteCb)]" using assms by (auto simp: call_inv_def Let_def)
  define c1 where "c1 = readMessage (abstract_msg_id m) ReadCb c"
  have f: "m_write_cb c1 = m_write_cb c" "m_world c1 = m_world c" "m_conn_type c1 = m_conn_type c"
    "m_read_cb c1 = (m_read_cb c)(abstract_msg_id m \<mapsto> ReadCb)"
    by (simp_all add: c1_def readMessage_def addReadCb_def)
  have "run_write_cbs (run_message_cb env) 0 c = run_write_cbs (run_message_cb env) 1 c1"
    using w by (subst run_write_cbs.simps) (simp add: run_message_cb_def c1_def)
  also have "... = Some c1" using f w by (subst run_write_cbs.simps) simp
  finally have run: "run_write_cbs (run_message_cb env) 0 c = Some c1" .
  have "call_inv (c1\<lparr>m_write_cb := []\<rparr>)"
    using assms w by (auto simp: call_inv_def Let_def f)
  with run show ?thesis by blast
qed

lemma onWrite_inv:
  assumes "call_inv c"
    and "onWrite (run_message_cb env) script c = Some c'"
  shows "call_inv c'"
proof (cases "m_state c = Connected")
  case False
  with assms show ?thesis by (simp add: onWrite_def)
next
  case True
  define c1 where "c1 = encode_waiting c"
  have c1: "call_inv c1" using encode_waiting_inv [OF assms(1)] by (simp add: c1_def)
  obtain b s how where wl: "write_loop script (m_out_buffer c1) [] = (b, s, how)" by (metis prod_cases3)
  define c2 where "c2 = c1\<lparr>m_out_buffer := b, m_sent := m_sent c1 @ s\<rparr>"
  define c3 where "c3 = (if how = AllSent then conn_addEpollEvent (m_tid (conn_loop c2))
      (c2\<lparr>conn_event := clearEvent OUT_EVENT (conn_event c2)\<rparr>) else c2)"
  have c23: "call_inv c2" "call_inv c3"
    by (rule call_inv_same [OF c1]; simp add: c2_def c3_def)+
  have ty: "m_conn_type c = TcpConnectionByClient" "m_conn_type c1 = TcpConnectionByClient"
    using assms(1) by (simp_all add: c1_def call_inv_def)
  have "Some c' = (if readAvailable (m_out_buffer c1) = 0 then Some c1 else if how = WriteFailed then Some c2
      else map_option (\<lambda>c. c\<lparr>m_write_cb := []\<rparr>) (run_write_cbs (run_message_cb env) 0 c3))"
    unfolding assms(2) [symmetric] onWrite_def Let_def c3_def c2_def c1_def [symmetric]
    using True ty by (simp add: wl)
  with write_cbs_inv [OF c23(2), of env] c1 c23 show ?thesis by (auto split: if_splits)
qed

text \<open>The timer: the only event of the call is one-shot, so after it was due nothing is pending.\<close>

lemma repeat_events_none: "\<forall>i \<in> set is. \<not> m_is_repeat (m_heap t i) \<Longrightarrow> repeat_events is t = t"
  by (induction "is") simp_all

lemma one_shot_collect:
  assumes wf: "wf_timer t" and one: "pending_ids t \<subseteq> {i}" "\<not> m_is_repeat (m_heap t i)"
    and some: "onTimer_collect t = Some (events, t')"
  shows "wf_timer t'" and "m_heap t' = m_heap t" and "pending_ids t' \<subseteq> pending_ids t"
    and "events = [] \<or> events = [i] \<and> pending_ids t \<noteq> {} \<and> pending_ids t' = {} \<and> \<not> te_is_canceled (m_heap t i)"
proof -
  note facts = onTimer_collect_facts [OF wf some]
  show "wf_timer t'" by (fact facts(2))
  have d: "distinct (map snd (m_pending_events t))" using wf by (simp add: wf_timer_def wf_pending_def)
  have short: "m_pending_events t = [] \<or> (\<exists>k. m_pending_events t = [(k, i)])"
  proof (cases "m_pending_events t")
    case (Cons p r)
    then have "snd p = i" "snd ` set r \<subseteq> {i}" using one(1) by auto
    moreover have "snd p \<notin> snd ` set r" using d Cons by simp
    ultimately have "r = []" by (cases r) auto
    with Cons \<open>snd p = i\<close> show ?thesis by (cases p) simp
  qed simp
  have ev: "events = due_ids t" by (fact facts(1))
  show "events = [] \<or> events = [i] \<and> pending_ids t \<noteq> {} \<and> pending_ids t' = {} \<and> \<not> te_is_canceled (m_heap t i)"
    using short ev one(2) by (auto simp: facts(3) due_ids_def split: if_splits)
  have norep: "\<forall>j \<in> set events. \<not> m_is_repeat (m_heap t j)"
    using short one(2) by (auto simp: ev due_ids_def split: if_splits)
  show "pending_ids t' \<subseteq> pending_ids t" unfolding facts(3) using norep by (auto intro: rev_image_eqI)
  show "m_heap t' = m_heap t"
    using some norep by (auto simp: onTimer_collect_def getNowMs_def Let_def repeat_events_none split: if_splits)
qed

lemma run_timeout_shape:
  "\<exists>ctl k. m_world (run_timeout task c) = (m_world c)\<lparr>m_controller := ctl, done_runs := done_runs (m_world c) + k\<rparr>
     \<and> k \<le> 1 \<and> m_is_canceled ctl \<and> m_read_cb (run_timeout task c) = m_read_cb c
     \<and> m_write_cb (run_timeout task c) = m_write_cb c \<and> m_conn_type (run_timeout task c) = m_conn_type c"
proof -
  obtain req where task: "task = TimeoutTask req" by (cases task)
  obtain info where c1: "run_timeout task c = tcp_client_close (closure_Run (m_done (m_world c))
      (on_controller (SetError SYS_RPC_CALL_TIMEOUT info) (on_controller StartCancel c)))"
    by (simp add: run_timeout_def task Let_def on_controller_def)
  define c2 where "c2 = on_controller (SetError SYS_RPC_CALL_TIMEOUT info) (on_controller StartCancel c)"
  obtain k where k: "k \<le> 1" "closure_Run (m_done (m_world c)) c2 = on_world (\<lambda>w. w\<lparr>done_runs := done_runs w + k\<rparr>) c2"
    using closure_Run_shape [of "m_done (m_world c)" c2] by (elim exE conjE)
  show ?thesis
    unfolding c1 c2_def [symmetric] k(2)
    by (intro exI [of _ "SetError SYS_RPC_CALL_TIMEOUT info (StartCancel (m_controller (m_world c)))"] exI [of _ k])
      (use k(1) in \<open>simp add: c2_def on_controller_def SetError_def StartCancel_def\<close>)
qed

lemma client_onTimer_inv:
  assumes inv: "call_inv c" and some: "client_onTimer c = Some c'"
  shows "call_inv c'"
proof -
  let ?t = "m_timer (m_world c)" and ?i = "m_timer_event (m_world c)"
  obtain events t' where ev: "onTimer_collect ?t = Some (events, t')"
    and c': "c' = run_due (\<lambda>c i. m_task (m_heap (m_timer (m_world c)) i)) run_timeout events
        (on_world (\<lambda>w. w\<lparr>m_timer := t'\<rparr>) c)"
    using some by (auto simp: client_onTimer_def)
  have "wf_timer ?t" "pending_ids ?t \<subseteq> {?i}" "\<not> m_is_repeat (m_heap ?t ?i)"
    using inv by (simp_all add: call_inv_def Let_def)
  note one = one_shot_collect [OF this ev]
  define c1 where "c1 = on_world (\<lambda>w. w\<lparr>m_timer := t'\<rparr>) c"
  have c1: "call_inv c1" using inv one(1-3) unfolding call_inv_def c1_def Let_def by auto
  show ?thesis
  proof (cases "events = [] \<or> m_task (m_heap t' ?i) = None")
    case True
    then have "c' = c1" using one(4) by (auto simp: c' c1_def)
    with c1 show ?thesis by simp
  next
    case False
    then obtain task where ev1: "events = [?i]" and task: "m_task (m_heap t' ?i) = Some task"
      and p: "pending_ids ?t \<noteq> {}" "pending_ids t' = {}" "\<not> te_is_canceled (m_heap ?t ?i)"
      using one(4) by auto
    have c'1: "c' = run_timeout task c1" using ev1 task by (simp add: c' c1_def)
    have zero: "done_runs (m_world c) = 0" using inv p by (auto simp: call_inv_def Let_def)
    obtain ctl k where r: "m_world c' = (m_world c1)\<lparr>m_controller := ctl, done_runs := done_runs (m_world c1) + k\<rparr>"
      "k \<le> 1" "m_is_canceled ctl" "m_read_cb c' = m_read_cb c1" "m_write_cb c' = m_write_cb c1"
      "m_conn_type c' = m_conn_type c1"
      using run_timeout_shape [of task c1] unfolding c'1 by (elim exE conjE)
    show ?thesis using c1 zero p(2) r(2,3) unfolding call_inv_def r Let_def by (simp add: c1_def)
  qed
qed

interpretation call: stepwise_invariant "rpc_step env" "\<lambda>_ _. True" call_inv for env
proof unfold_locales
  fix c :: "'a client" and e
  assume inv: "call_inv c"
  show "call_inv (rpc_step env c e)"
  proof (cases e)
    case (EvRead script)
    with inv onRead_inv [OF inv, of env script] show ?thesis by (auto split: option.split sum.split)
  next
    case (EvWrite script)
    with inv onWrite_inv [OF inv, of env script] show ?thesis by (auto split: option.split)
  next
    case EvTimer
    with inv client_onTimer_inv [OF inv] show ?thesis by (auto split: option.split)
  qed
qed

section \<open>Starting a call\<close>

text \<open>Whichever object the controller argument is, setting something in it touches nothing else.\<close>

lemma on_argument_facts [simp]:
  "argument_controller (m_world (on_argument f c)) = f (argument_controller (m_world c))"
  "m_done (m_world (on_argument f c)) = m_done (m_world c)" "m_is_init (m_world (on_argument f c)) = m_is_init (m_world c)"
  "done_runs (m_world (on_argument f c)) = done_runs (m_world c)" "m_timer (m_world (on_argument f c)) = m_timer (m_world c)"
  "m_timer_event (m_world (on_argument f c)) = m_timer_event (m_world c)"
  "m_response (m_world (on_argument f c)) = m_response (m_world c)"
  "m_peer_addr (m_world (on_argument f c)) = m_peer_addr (m_world c)"
  "m_connect_error_code (m_world (on_argument f c)) = m_connect_error_code (m_world c)"
  "m_this (on_argument f c) = m_this c" "m_in_buffer (on_argument f c) = m_in_buffer c"
  "m_out_buffer (on_argument f c) = m_out_buffer c" "m_sent (on_argument f c) = m_sent c"
  "m_write_cb (on_argument f c) = m_write_cb c" "m_read_cb (on_argument f c) = m_read_cb c"
  "m_conn_type (on_argument f c) = m_conn_type c" "conn_loop (on_argument f c) = conn_loop c"
  "conn_event (on_argument f c) = conn_event c" "m_state (on_argument f c) = m_state c"
  by (simp_all add: on_argument_def on_controller_def on_world_def argument_controller_def split: option.split)

lemma on_argument_canceled [simp]:
  "m_is_canceled (m_controller (m_world (on_argument (SetMsgId mid) c))) = m_is_canceled (m_controller (m_world c))"
  by (simp add: on_argument_def on_controller_def on_world_def SetMsgId_def split: option.split)

lemma argument_controller_kept [simp]:
  "argument_controller (w\<lparr>m_timer := t\<rparr>) = argument_controller w"
  "argument_controller (w\<lparr>m_timer_event := i\<rparr>) = argument_controller w"
  "argument_controller (w\<lparr>done_runs := n\<rparr>) = argument_controller w"
  by (simp_all add: argument_controller_def split: option.split)

lemma own_argument [simp]:
  "other_argument w = None \<Longrightarrow> argument_controller w = m_controller w"
  "other_argument (m_world c) = None \<Longrightarrow> on_argument f c = on_controller f c"
  by (simp_all add: argument_controller_def on_argument_def)

text \<open>A client before its call: its loop's timer is idle, nothing is registered.\<close>

definition fresh_client :: "'pb client \<Rightarrow> bool" where
  "fresh_client c \<longleftrightarrow> m_conn_type c = TcpConnectionByClient \<and> m_write_cb c = [] \<and> m_read_cb c = Map.empty
     \<and> m_is_init (m_world c) \<and> done_runs (m_world c) = 0 \<and> \<not> m_is_canceled (m_controller (m_world c))
     \<and> wf_timer (m_timer (m_world c)) \<and> m_pending_events (m_timer (m_world c)) = []"

text \<open>The call with its timeout running, before \<open>connect\<close>.\<close>

definition prepared :: "cstring \<Rightarrow> cstring \<Rightarrow> cstring \<Rightarrow> nat \<Rightarrow> 'pb client \<Rightarrow> 'pb client" where
  "prepared new_id name pb_data i c =
     (let req = complete (setPbData pb_data (CallMethod_request new_id name c));
          c = (if GetMsgId (argument_controller (m_world c)) \<noteq> [] then c
               else on_argument (SetMsgId (m_msg_id (CallMethod_request new_id name c))) c);
          c = on_world (\<lambda>w. w\<lparr>m_timer := TimerEvent_new i (GetTimeout (argument_controller w)) False
                                  (Some (TimeoutTask req)) (m_timer w), m_timer_event := i\<rparr>) c
      in on_world (\<lambda>w. w\<lparr>m_timer := addTimerEvent i (m_timer w)\<rparr>) c)"

lemma CallMethod_prepared:
  assumes "m_is_init (m_world c)"
  shows "RpcChannel_CallMethod env rt True new_id name (Some pb_data) done i c
     = connect env rt (ConnCb (complete (setPbData pb_data (CallMethod_request new_id name c))))
         (prepared new_id name pb_data i c)"
  using assms by (simp add: RpcChannel_CallMethod_def prepared_def Let_def on_controller_def)

definition idle_call :: "'pb client \<Rightarrow> bool" where
  "idle_call c \<longleftrightarrow> call_inv c \<and> m_write_cb c = [] \<and> m_read_cb c = Map.empty
     \<and> (done_runs (m_world c) = 0 \<or> m_is_canceled (m_controller (m_world c)))"

lemma on_controller_facts [simp]:
  "m_world (on_controller f c) = (m_world c)\<lparr>m_controller := f (m_controller (m_world c))\<rparr>"
  "m_write_cb (on_controller f c) = m_write_cb c" "m_read_cb (on_controller f c) = m_read_cb c"
  "m_conn_type (on_controller f c) = m_conn_type c" "conn_loop (on_controller f c) = conn_loop c"
  "conn_event (on_controller f c) = conn_event c" "m_state (on_controller f c) = m_state c"
  by (simp_all add: on_controller_def)

lemma addTimerEvent_heap [simp]: "m_heap (addTimerEvent i t) = m_heap t"
  by (simp add: addTimerEvent_def Let_def)

lemma TimerEvent_new_heap:
  "m_is_repeat (m_heap (TimerEvent_new i n rep cb t) i) = rep"
  "te_is_canceled (m_heap (TimerEvent_new i n rep cb t) i) = False"
  "m_task (m_heap (TimerEvent_new i n rep cb t) i) = cb"
  "m_pending_events (TimerEvent_new i n rep cb t) = m_pending_events t"
  by (simp_all add: TimerEvent_new_def)

lemma prepared_facts:
  assumes "fresh_client c"
  shows "idle_call (prepared new_id name pb_data i c)"
    and "done_runs (m_world (prepared new_id name pb_data i c)) = 0"
    and "\<not> te_is_canceled (m_heap (m_timer (m_world (prepared new_id name pb_data i c))) i)"
    and "m_task (m_heap (m_timer (m_world (prepared new_id name pb_data i c))) i)
       = Some (TimeoutTask (complete (setPbData pb_data (CallMethod_request new_id name c))))"
    and "m_timer_event (m_world (prepared new_id name pb_data i c)) = i"
    and "pending_ids (m_timer (m_world (prepared new_id name pb_data i c))) = {i}"
    and "m_done (m_world (prepared new_id name pb_data i c)) = m_done (m_world c)"
proof -
  define req where "req = complete (setPbData pb_data (CallMethod_request new_id name c))"
  define c1 where "c1 = (if GetMsgId (argument_controller (m_world c)) \<noteq> [] then c
      else on_argument (SetMsgId (m_msg_id (CallMethod_request new_id name c))) c)"
  define t where "t = TimerEvent_new i (GetTimeout (argument_controller (m_world c1))) False (Some (TimeoutTask req)) (m_timer (m_world c))"
  have c1: "m_world (prepared new_id name pb_data i c) = (m_world c1)\<lparr>m_timer := addTimerEvent i t, m_timer_event := i\<rparr>"
    "m_write_cb (prepared new_id name pb_data i c) = m_write_cb c"
    "m_read_cb (prepared new_id name pb_data i c) = m_read_cb c"
    "m_conn_type (prepared new_id name pb_data i c) = m_conn_type c"
    by (simp_all add: prepared_def Let_def req_def [symmetric] c1_def [symmetric])
      (simp_all add: t_def c1_def)
  have w: "done_runs (m_world c1) = 0" "\<not> m_is_canceled (m_controller (m_world c1))" "m_done (m_world c1) = m_done (m_world c)"
    using assms by (simp_all add: c1_def fresh_client_def)
  have p: "m_pending_events t = []" using assms by (simp add: t_def TimerEvent_new_heap fresh_client_def)
  have wf: "wf_timer t" using assms by (simp add: t_def fresh_client_def wf_TimerEvent_new)
  have ids: "pending_ids (addTimerEvent i t) = {i}" using p by (simp add: addTimerEvent_def Let_def)
  have "wf_timer (addTimerEvent i t)" using wf p by (simp add: wf_addTimerEvent)
  then show "idle_call (prepared new_id name pb_data i c)"
    using assms w ids
    by (simp add: idle_call_def call_inv_def Let_def c1 fresh_client_def) (simp add: t_def TimerEvent_new_heap)
  show "done_runs (m_world (prepared new_id name pb_data i c)) = 0"
    "m_timer_event (m_world (prepared new_id name pb_data i c)) = i"
    "pending_ids (m_timer (m_world (prepared new_id name pb_data i c))) = {i}"
    "m_done (m_world (prepared new_id name pb_data i c)) = m_done (m_world c)"
    using w ids by (simp_all add: c1)
  show "\<not> te_is_canceled (m_heap (m_timer (m_world (prepared new_id name pb_data i c))) i)"
    "m_task (m_heap (m_timer (m_world (prepared new_id name pb_data i c))) i)
       = Some (TimeoutTask (complete (setPbData pb_data (CallMethod_request new_id name c))))"
    by (simp_all add: c1 t_def TimerEvent_new_heap req_def)
qed

text \<open>A successful connection queues the request.\<close>

lemma listenWriteEvent_facts [simp]:
  "m_world (listenWriteEvent k c) = m_world c" "m_write_cb (listenWriteEvent k c) = m_write_cb c"
  "m_read_cb (listenWriteEvent k c) = m_read_cb c" "m_conn_type (listenWriteEvent k c) = m_conn_type c"
  by (simp_all add: listenWriteEvent_def conn_addEpollEvent_def)

lemma connected_facts [simp]:
  "m_connect_error_code (m_world (connected env c)) = error_code OK"
  "m_write_cb (connected env c) = m_write_cb c" "m_read_cb (connected env c) = m_read_cb c"
  "m_conn_type (connected env c) = m_conn_type c"
  "done_runs (m_world (connected env c)) = done_runs (m_world c)"
  "m_controller (m_world (connected env c)) = m_controller (m_world c)"
  by (simp_all add: connected_def initLocalAddr_def setState_def)

lemma connected_inv: "call_inv (connected env c) = call_inv c"
  by (simp add: call_inv_def connected_def initLocalAddr_def setState_def Let_def)

lemma conn_cb_success:
  assumes "idle_call c"
  shows "call_inv (run_conn_cb (ConnCb req) (connected env c))"
  using assms connected_inv [of env c]
  by (simp add: run_conn_cb_def idle_call_def writeMessage_def addMessage_def)
    (auto simp: call_inv_def Let_def)

lemma call_inv_enter_loop [simp]: "call_inv (enter_loop c) = call_inv c"
  by (simp add: enter_loop_def call_inv_def)

lemma on_connect_success:
  assumes "idle_call c" and "rt = EISCONN \<or> rt = ConnectOk"
  shows "call_inv (on_connect env rt (ConnCb req) c)"
proof -
  define d where "d = conn_deleteEpollEvent (m_tid (conn_loop (connected env c))) (connected env c)"
  have "call_inv d"
    by (rule call_inv_same [of "connected env c"]) (use assms connected_inv in \<open>auto simp: d_def idle_call_def\<close>)
  moreover have "on_connect env rt (ConnCb req) c = writeMessage (TinyPB req) WriteCb d"
    using assms(2) by (auto simp: on_connect_def d_def run_conn_cb_def Let_def)
  moreover have "m_write_cb d = []" "m_read_cb d = Map.empty"
    "done_runs (m_world d) = 0 \<or> m_is_canceled (m_controller (m_world d))"
    using assms(1) by (simp_all add: d_def idle_call_def)
  ultimately show ?thesis by (simp add: writeMessage_def addMessage_def) (auto simp: call_inv_def Let_def)
qed

lemma idle_EvTimer:
  assumes "idle_call c"
  shows "idle_call (rpc_step env c EvTimer)"
proof -
  have inv: "call_inv (rpc_step env c EvTimer)"
    using call.inv_step [where s = c and e = EvTimer and env = env] assms by (simp add: idle_call_def)
  have keep: "m_write_cb (run_due f run_timeout is d) = m_write_cb d
      \<and> m_read_cb (run_due f run_timeout is d) = m_read_cb d
      \<and> ((done_runs (m_world d) = 0 \<or> m_is_canceled (m_controller (m_world d))) \<longrightarrow>
           done_runs (m_world (run_due f run_timeout is d)) = 0
           \<or> m_is_canceled (m_controller (m_world (run_due f run_timeout is d))))" for f "is" and d :: "'a client"
  proof (induction "is" arbitrary: d)
    case (Cons j js)
    show ?case
    proof (cases "f d j")
      case (Some task)
      with Cons [of "run_timeout task d"] run_timeout_shape [of task d] show ?thesis by auto
    qed (use Cons in simp)
  qed simp
  show ?thesis
  proof (cases "onTimer_collect (m_timer (m_world c))")
    case None
    with inv assms show ?thesis by (simp add: idle_call_def client_onTimer_def)
  next
    case (Some p)
    let ?d = "on_world (\<lambda>w. w\<lparr>m_timer := snd p\<rparr>) c"
    have "rpc_step env c EvTimer = run_due (\<lambda>c i. m_task (m_heap (m_timer (m_world c)) i)) run_timeout (fst p) ?d"
      using Some by (cases p) (simp add: client_onTimer_def)
    with inv assms keep [of "\<lambda>c i. m_task (m_heap (m_timer (m_world c)) i)" "fst p" ?d] show ?thesis
      by (auto simp: idle_call_def simp del: rpc_step.simps)
  qed
qed

lemma idle_EvTimers: "idle_call c \<Longrightarrow> idle_call (run_steps (rpc_step env) c (replicate n EvTimer))"
  by (induction n arbitrary: c) (simp_all add: idle_EvTimer del: rpc_step.simps)

lemma connect_in_progress:
  assumes "idle_call c"
  shows "idle_call (connect env EINPROGRESS cb c)"
proof -
  have "call_inv (connect env EINPROGRESS cb c)"
    by (rule call_inv_same [of c])
      (use assms in \<open>auto simp: idle_call_def connect_def enter_loop_def conn_addEpollEvent_def\<close>)
  then show ?thesis
    using assms by (simp add: idle_call_def connect_def enter_loop_def conn_addEpollEvent_def)
qed

lemma done_at_most_once:
  assumes "call_inv c"
  shows "done_runs (m_world (run_steps (rpc_step env) c es)) \<le> 1"
proof -
  have "run_allowed (rpc_step env) (\<lambda>_ _. True) c es" by (induction es arbitrary: c) simp_all
  from call.inv_run [OF assms this] show ?thesis by (simp add: call_inv_def Let_def)
qed

text \<open>
  Once the connection of a call is established, at once or by the writable event after the
  timer may have fired, the user's callback runs at most once, whatever the loop does afterwards:
  any order of reads, writes and timer expirations, any bytes from the server.
\<close>

theorem call_completes_at_most_once:
  assumes "fresh_client c" and "rt = EISCONN \<or> rt = ConnectOk"
  shows "done_runs (m_world (run_steps (rpc_step env)
            (RpcChannel_CallMethod env ConnectOk True new_id name (Some pb_data) done i c) es)) \<le> 1
     \<and> done_runs (m_world (run_steps (rpc_step env)
            (on_connect env rt (ConnCb req)
              (run_steps (rpc_step env)
                (RpcChannel_CallMethod env EINPROGRESS True new_id name (Some pb_data) done i c)
                (replicate n EvTimer))) es)) \<le> 1"
proof -
  have init: "m_is_init (m_world c)" using assms(1) by (simp add: fresh_client_def)
  note idle = prepared_facts(1) [OF assms(1), of new_id name pb_data i]
  let ?req = "complete (setPbData pb_data (CallMethod_request new_id name c))"
  have "call_inv (connect env ConnectOk (ConnCb ?req) (prepared new_id name pb_data i c))"
    using conn_cb_success [OF idle, of ?req env] by (simp add: connect_def)
  moreover have "call_inv (on_connect env rt (ConnCb req) (run_steps (rpc_step env)
      (connect env EINPROGRESS (ConnCb ?req) (prepared new_id name pb_data i c)) (replicate n EvTimer)))"
    by (intro on_connect_success [OF _ assms(2)] idle_EvTimers connect_in_progress idle)
  ultimately show ?thesis
    unfolding CallMethod_prepared [OF init] by (blast intro: done_at_most_once)
qed

definition sample_env :: "nat rpc_env" where
  "sample_env = \<lparr>strerror = (\<lambda>_. [69]), getsockname = None, ParseResponse = (\<lambda>_ s. (True, length s))\<rparr>"

definition sample_client :: "nat client" where
  "sample_client =
     (TcpConnection_new 0 1 (EventLoop_new 1 (FdEvent_new 3) (FdEvent_new 4)) (FdEvent_new 7) [0, 0, 0, 0]
        [0, 0, 0, 0] TcpConnectionByClient
        \<lparr>m_connect_error_code = 0, m_connect_error_info = [], m_local_addr = None,
         m_peer_addr = UnixNetAddr_path [47, 115],
         m_controller = RpcController_new\<lparr>rc_msg_id := [55]\<rparr>, other_argument = None, m_response = 0,
         m_done = Some (RpcClosure True), m_is_init = True, m_timer_event = 0,
         m_timer = Timer_new (\<lambda>n. 1000 * int n) (\<lambda>_. \<lparr>m_arrive_time = 0, m_interval = 0,
           m_is_repeat = False, te_is_canceled = False, m_task = None\<rparr>), done_runs = 0\<rparr>)"

lemma fresh_sample_client: "fresh_client sample_client"
  by (simp add: fresh_client_def sample_client_def TcpConnection_new_def RpcController_new_def wf_Timer_new)
    (simp add: Timer_new_def)

theorem call_completes_at_most_once_witness:
  "done_runs (m_world (run_steps (rpc_step sample_env)
     (RpcChannel_CallMethod sample_env ConnectOk True [] [46] (Some []) None 0 sample_client)
     [EvWrite [Accept 100], EvTimer, EvTimer])) \<le> 1"
  using call_completes_at_most_once [OF fresh_sample_client, of EISCONN] by blast

section \<open>The response\<close>

text \<open>
  The response of a call that is not cancelled completes it: the user's callback runs, the
  timeout is cancelled and the loop is told to stop.  An error code of the server is handed to the
  controller and leaves the response object alone; otherwise the response object is what parsing made
  of it, and the controller gets the deserialization error when that failed and is left alone when it
  succeeded.
\<close>

theorem response_completes_call:
  assumes "\<not> m_is_canceled (m_controller (m_world c))" and "m_done (m_world c) = Some (RpcClosure True)"
    and "m_is_looping (conn_loop c)"
  shows "let c' = run_message_cb env ReadCb (TinyPB resp) c; w = m_world c; w' = m_world c'
     in done_runs w' = done_runs w + 1
      \<and> te_is_canceled (m_heap (m_timer w') (m_timer_event w)) \<and> m_task (m_heap (m_timer w') (m_timer_event w)) = None
      \<and> m_stop_flag (conn_loop c')
      \<and> (m_err_code resp \<noteq> 0 \<longrightarrow> m_response w' = m_response w
           \<and> GetErrorCode (m_controller w') = m_err_code resp \<and> GetErrorInfo (m_controller w') = m_err_info resp
           \<and> Failed (m_controller w'))
      \<and> (m_err_code resp = 0 \<longrightarrow>
           (case ParseResponse env (m_response w) (m_pb_data resp) of
              (ok, r) \<Rightarrow> m_response w' = r
                \<and> (if ok then m_controller w' = m_controller w
                   else Failed (m_controller w') \<and> GetErrorCode (m_controller w') = error_code SYS_FAILED_DESERIALIZE)))"
proof -
  define c1 where "c1 = on_world (\<lambda>w. w\<lparr>m_timer := cancelTimerEvent (m_timer_event w) (m_timer w)\<rparr>) c"
  define c2 where "c2 = handle_response env resp c1"
  have loop: "conn_loop c2 = conn_loop c" "m_done (m_world c2) = m_done (m_world c)"
    "m_timer (m_world c2) = m_timer (m_world c1)" "done_runs (m_world c2) = done_runs (m_world c)"
    by (simp_all add: c2_def c1_def handle_response_def split_def Let_def)
  have run: "run_message_cb env ReadCb (TinyPB resp) c = tcp_client_close (on_world (\<lambda>w. w\<lparr>done_runs := done_runs w + 1\<rparr>) c2)"
    using assms(1,2) loop(2)
    by (simp add: run_message_cb_def IsCanceled_def Let_def c1_def [symmetric] c2_def [symmetric] closure_Run_def)
  have stop: "m_stop_flag (conn_loop (run_message_cb env ReadCb (TinyPB resp) c))"
    using assms(3) loop(1)
    by (simp add: run tcp_client_close_def conn_close_event_def split_def Let_def stop_def loop_wakeup_def split: option.split)
  have timer: "m_timer (m_world c1) = cancelTimerEvent (m_timer_event (m_world c)) (m_timer (m_world c))"
    by (simp add: c1_def)
  have OK: "error_code OK = 0" by simp
  have out: "(m_err_code resp \<noteq> 0 \<longrightarrow> m_response (m_world c2) = m_response (m_world c)
        \<and> m_controller (m_world c2) = SetErrorCode (m_err_code resp) (m_err_info resp) (m_controller (m_world c)))
      \<and> (m_err_code resp = 0 \<longrightarrow> (case ParseResponse env (m_response (m_world c)) (m_pb_data resp) of
              (ok, r) \<Rightarrow> m_response (m_world c2) = r
                \<and> m_controller (m_world c2) = (if ok then m_controller (m_world c)
                     else SetError SYS_FAILED_DESERIALIZE (ascii ''Deserialize response failed'') (m_controller (m_world c)))))"
    unfolding c2_def handle_response_def OK by (auto simp: c1_def split_def Let_def)
  define w' where "w' = m_world (run_message_cb env ReadCb (TinyPB resp) c)"
  have w': "m_response w' = m_response (m_world c2)" "m_controller w' = m_controller (m_world c2)"
    "m_timer w' = cancelTimerEvent (m_timer_event (m_world c)) (m_timer (m_world c))"
    "done_runs w' = done_runs (m_world c) + 1"
    by (simp_all add: w'_def run loop timer)
  show ?thesis
    using stop out unfolding Let_def w'_def [symmetric]
    by (auto simp: w' cancelTimerEvent_def setCanceled_def SetErrorCode_def SetError_def GetErrorCode_def
        GetErrorInfo_def Failed_def split: prod.splits)
qed

theorem response_completes_call_witness:
  "done_runs (m_world (run_message_cb sample_env ReadCb (TinyPB (setPbData [1, 2] TinyPBProtocol_new))
     (enter_loop sample_client))) = 1"
proof -
  have c: "\<not> m_is_canceled (m_controller (m_world (enter_loop sample_client)))"
    "m_done (m_world (enter_loop sample_client)) = Some (RpcClosure True)"
    "m_is_looping (conn_loop (enter_loop sample_client))" "done_runs (m_world (enter_loop sample_client)) = 0"
    by (simp_all add: enter_loop_def sample_client_def TcpConnection_new_def RpcController_new_def Let_def)
  show ?thesis
    using response_completes_call [OF c(1-3), of sample_env "setPbData [1, 2] TinyPBProtocol_new"] c(4)
    by (simp add: Let_def)
qed

section \<open>Calls that are not started\<close>

text \<open>
  C31: A call without a controller of this library does nothing; one on a channel that was not
  initialised, or whose request does not serialize, sets the error, runs the closure it was given
  once, and starts neither timer nor connection.  In both cases the controller that was passed has a
  message id afterwards, its own or the generated one; the controller given to \<open>Init\<close>, if it is another
  object, is left alone.
\<close>

theorem CallMethod_rejected:
  assumes "\<not> m_is_init (m_world c) \<or> request = None"
  shows "RpcChannel_CallMethod env rt False new_id name request done i c = c
     \<and> (let c' = RpcChannel_CallMethod env rt True new_id name request done i c; w = m_world c; w' = m_world c'
        in GetErrorCode (argument_controller w') = error_code (if m_is_init w then SYS_FAILED_SERIALIZE else SYS_CHANNEL_NOT_INIT)
         \<and> Failed (argument_controller w')
         \<and> GetMsgId (argument_controller w')
             = (if GetMsgId (argument_controller w) = [] then new_id else GetMsgId (argument_controller w))
         \<and> (other_argument w \<noteq> None \<longrightarrow> m_controller w' = m_controller w)
         \<and> (other_argument w = None \<longrightarrow> argument_controller w' = m_controller w')
         \<and> done_runs w' = done_runs w + (if done = Some (RpcClosure True) then 1 else 0)
         \<and> m_timer w' = m_timer w \<and> conn_loop c' = conn_loop c \<and> m_write_cb c' = m_write_cb c)"
proof -
  have closures: "done = Some (RpcClosure True) \<or> done = Some (RpcClosure False) \<or> done = None"
    by (metis (full_types) RpcClosure.exhaust option.exhaust)
  have objects: "(other_argument (m_world (on_argument f c)) = None) = (other_argument (m_world c) = None)"
    "other_argument (m_world c) \<noteq> None \<Longrightarrow> m_controller (m_world (on_argument f c)) = m_controller (m_world c)"
    for f and c :: "'a client"
    by (auto simp: on_argument_def on_controller_def on_world_def split: option.split)
  show ?thesis
  proof (cases "m_is_init (m_world c)")
    case False
    with closures show ?thesis
      by (auto simp: RpcChannel_CallMethod_def Let_def closure_Run_def CallMethod_request_def objects
          GetErrorCode_def GetMsgId_def SetMsgId_def SetError_def Failed_def TinyPBProtocol_new_def setMsgId_def setMethodName_def)
  next
    case True
    with assms closures show ?thesis
      by (auto simp: RpcChannel_CallMethod_def Let_def closure_Run_def CallMethod_request_def objects
          GetErrorCode_def GetMsgId_def SetMsgId_def SetError_def Failed_def TinyPBProtocol_new_def setMsgId_def setMethodName_def)
  qed
qed

theorem CallMethod_rejected_witness:
  "done_runs (m_world (RpcChannel_CallMethod sample_env ConnectOk True [] [46] None
     (Some (RpcClosure True)) 0 sample_client)) = 1"
  using CallMethod_rejected [of sample_client None sample_env ConnectOk "[]" "[46]" "Some (RpcClosure True)" 0]
    fresh_sample_client by (simp add: Let_def fresh_client_def)

section \<open>A failed connection\<close>

text \<open>
  When the connection is refused at once, the user's callback runs with the connection error,
  but the timeout of the call is neither cancelled nor deleted.  If the thread's loop runs later and
  the timer finds the event due, the callback runs a second time and the controller's error has
  become the timeout.
\<close>

theorem connect_failure_completes_twice:
  assumes fresh: "fresh_client c" and "m_done (m_world c) = Some (RpcClosure True)"
    and "rt \<noteq> ConnectOk" and "rt \<noteq> EINPROGRESS"
  shows "let c1 = RpcChannel_CallMethod env rt True new_id name (Some pb_data) done i c;
            t = m_timer (m_world c1); c2 = rpc_step env c1 EvTimer
     in done_runs (m_world c1) = 1
      \<and> GetErrorCode (m_controller (m_world c1)) = error_code SYS_FAILED_CONNECT
      \<and> i \<in> pending_ids t
      \<and> (m_arrive_time (m_heap t i) \<le> m_clock t (m_readings t) \<longrightarrow>
           done_runs (m_world c2) = 2
           \<and> GetErrorCode (m_controller (m_world c2)) = error_code SYS_RPC_CALL_TIMEOUT)"
proof -
  have init: "m_is_init (m_world c)" using fresh by (simp add: fresh_client_def)
  define p where "p = prepared new_id name pb_data i c"
  define req where "req = complete (setPbData pb_data (CallMethod_request new_id name c))"
  note facts = prepared_facts [OF fresh, of new_id name pb_data i, folded p_def, folded req_def]
  define c1 where "c1 = RpcChannel_CallMethod env rt True new_id name (Some pb_data) done i c"
  have c1': "c1 = connect env rt (ConnCb req) p"
    by (simp add: c1_def CallMethod_prepared [OF init] p_def req_def)
  have ne: "error_code SYS_FAILED_CONNECT \<noteq> error_code OK" by simp
  have w1: "m_world c1 = (m_world p)\<lparr>m_connect_error_code := error_code SYS_FAILED_CONNECT,
       m_connect_error_info := strerror env rt,
       m_controller := SetErrorCode (error_code SYS_FAILED_CONNECT) (strerror env rt) (m_controller (m_world p)),
       done_runs := 1\<rparr>"
    using assms(2-4) ne facts(2,7) by (simp add: c1' connect_def run_conn_cb_def Let_def closure_Run_def del: error_code.simps)
  let ?t = "m_timer (m_world c1)"
  have t: "?t = m_timer (m_world p)" by (simp add: w1)
  have wf: "wf_timer ?t" "pending_ids ?t = {i}" "\<not> m_is_repeat (m_heap ?t i)"
    using facts(1,5,6) by (simp_all add: t idle_call_def call_inv_def Let_def)
  have fires: "done_runs (m_world (rpc_step env c1 EvTimer)) = 2
      \<and> GetErrorCode (m_controller (m_world (rpc_step env c1 EvTimer))) = error_code SYS_RPC_CALL_TIMEOUT"
    if due: "m_arrive_time (m_heap ?t i) \<le> m_clock ?t (m_readings ?t)"
  proof -
    have ne: "m_pending_events ?t \<noteq> []" using wf(2) by auto
    then have "m_it_value ?t \<noteq> (0, 0)" using wf(1) by (simp add: wf_timer_def timely_def)
    then obtain events t' where some: "onTimer_collect ?t = Some (events, t')"
      using onTimer_collect_None [of ?t] by (cases "onTimer_collect ?t") auto
    obtain k where k: "(k, i) \<in> set (m_pending_events ?t)" using wf(2) by (metis imageE insertI1 prod.collapse)
    then have "m_arrive_time (m_heap ?t i) = k" using wf(1) by (auto simp: wf_timer_def wf_pending_def)
    then have "i \<in> set events"
      using due k facts(3) onTimer_collect_facts(1) [OF wf(1) some] by (force simp: due_ids_def t)
    with one_shot_collect [OF wf(1) _ wf(3) some] wf(2) have ev: "events = [i]" "m_heap t' = m_heap ?t" by auto
    have "m_task (m_heap t' i) = Some (TimeoutTask req)" using facts(4) by (simp add: ev(2) t)
    then have "rpc_step env c1 EvTimer = run_timeout (TimeoutTask req) (on_world (\<lambda>w. w\<lparr>m_timer := t'\<rparr>) c1)"
      using some ev(1) by (simp add: client_onTimer_def)
    then show ?thesis
      using assms(2) facts(7)
      by (simp add: run_timeout_def Let_def closure_Run_def w1 GetErrorCode_def SetError_def)
  qed
  show ?thesis
    using fires wf(2) unfolding Let_def c1_def [symmetric]
    by (simp add: w1 GetErrorCode_def SetErrorCode_def del: rpc_step.simps)
qed

theorem connect_failure_completes_twice_witness:
  "done_runs (m_world (rpc_step sample_env
     (RpcChannel_CallMethod sample_env ECONNREFUSED True [] [46] (Some []) None 0 sample_client) EvTimer)) = 2"
proof -
  have d: "m_done (m_world sample_client) = Some (RpcClosure True)"
    by (simp add: sample_client_def TcpConnection_new_def Let_def)
  let ?t = "m_timer (m_world (RpcChannel_CallMethod sample_env ECONNREFUSED True [] [46] (Some []) None 0 sample_client))"
  have "m_arrive_time (m_heap ?t 0) \<le> m_clock ?t (m_readings ?t)"
    by (simp add: RpcChannel_CallMethod_def sample_client_def TcpConnection_new_def Let_def connect_def
        run_conn_cb_def closure_Run_def tcp_client_close_def RpcController_new_def Timer_new_def TimerEvent_new_def
        resetArriveTime_def getNowMs_def addTimerEvent_def resetTimer_def timerfd_settime_def GetMsgId_def GetTimeout_def
        EventLoop_new_eq ADD_TO_EPOLL_def sample_env_def)
  then show ?thesis
    using connect_failure_completes_twice [OF fresh_sample_client d, of ECONNREFUSED sample_env "[]" "[46]" "[]" None 0]
    by (simp add: Let_def del: rpc_step.simps)
qed

section \<open>Closing the client\<close>

text \<open>
  \<open>TcpClient::close\<close> closes the descriptor without deleting its event, so the loop goes on
  believing it is watched: when the same descriptor number is used again (the next connection of the
  thread), registering it is a modification, which the kernel refuses, and it is never watched.
\<close>

theorem close_leaves_stale_registration:
  assumes "m_is_looping (conn_loop c)" and "0 < m_fd (conn_event c)"
    and "m_fd (conn_event c) \<in> m_listen_fds (conn_loop c)" and "m_fd e = m_fd (conn_event c)"
  shows "let l = conn_loop (tcp_client_close c); l' = ADD_TO_EPOLL e l
     in m_fd e \<in> m_listen_fds l \<and> kernel_table (m_epoll_calls l) (m_fd e) = None
      \<and> \<not> accepted (kernel_table (m_epoll_calls l)) (last (m_epoll_calls l'))
      \<and> kernel_table (m_epoll_calls l') (m_fd e) = None"
  using assms
  by (simp add: Let_def tcp_client_close_def conn_close_event_def close_event_def stop_def loop_wakeup_def
      ADD_TO_EPOLL_def)

theorem close_leaves_stale_registration_witness:
  "kernel_table (m_epoll_calls (ADD_TO_EPOLL (FdEvent_new 7)
     (conn_loop (tcp_client_close (enter_loop (listenReadEvent 1 sample_client)))))) 7 = None"
  using close_leaves_stale_registration [of "enter_loop (listenReadEvent 1 sample_client)" "FdEvent_new 7"]
  by (simp add: Let_def enter_loop_def sample_client_def TcpConnection_new_def listenReadEvent_def
      conn_addEpollEvent_def addEpollEvent_def isInLoopThread_def ADD_TO_EPOLL_def FdEvent_new_def
      listen_def EventLoop_new_eq)

end
