(* ===== verification/Config.thy ===== *)
theory Config
  imports TcpServer
begin

text \<open>
  The configuration (\<open>include/rapidrpc/common/config.h\<close>, \<open>src/common/config.cc\<close>): the two constructors
  and what the server takes from them.  The XML document belongs to TinyXML: an element is a value
  of a type \<open>'el\<close>, with the library's \<open>FirstChildElement\<close> and \<open>GetText\<close> as parameters.
\<close>

section \<open>State\<close>

datatype LogType = AsyncLog | SyncLog

text \<open>The constructor for clients leaves the numbers unset; they are 0 here and not read.\<close>

record config =
  cfg_log_level :: cstring
  cfg_log_file_name :: cstring
  cfg_log_file_path :: cstring
  cfg_log_max_file_size :: int
  cfg_log_sync_interval :: int
  cfg_ip :: cstring
  cfg_port :: int
  cfg_io_threads :: int
  cfg_log_type :: LogType

definition Config_client :: config where
  "Config_client =
     \<lparr>cfg_log_level = ascii ''DEBUG'', cfg_log_file_name = [], cfg_log_file_path = [],
      cfg_log_max_file_size = 0, cfg_log_sync_interval = 0, cfg_ip = [], cfg_port = 0,
      cfg_io_threads = 0, cfg_log_type = SyncLog\<rparr>"

section \<open>Loading\<close>

text \<open>\<open>Exited\<close> is \<open>exit(-1)\<close> after the message about the element; \<open>stoi\<close> throws.\<close>

datatype config_error = LoadFailed | Missing string | BadNumber stoi_error

record 'el xml =
  FirstChildElement :: "'el \<Rightarrow> cstring \<Rightarrow> 'el option"
  GetText :: "'el \<Rightarrow> cstring option"

definition READ_XML_ELEMENT :: "'el xml \<Rightarrow> string \<Rightarrow> 'el \<Rightarrow> config_error + 'el" where
  "READ_XML_ELEMENT x name parent =
     (case FirstChildElement x parent (ascii name) of
        None \<Rightarrow> Inl (Missing name)
      | Some el \<Rightarrow> Inr el)"

definition READ_STR_FROM_XML_NODE :: "'el xml \<Rightarrow> string \<Rightarrow> 'el \<Rightarrow> config_error + cstring" where
  "READ_STR_FROM_XML_NODE x name parent =
     (case FirstChildElement x parent (ascii name) of
        None \<Rightarrow> Inl (Missing name)
      | Some el \<Rightarrow> (case GetText x el of None \<Rightarrow> Inl (Missing name) | Some s \<Rightarrow> Inr s))"

fun then_do :: "'e + 'a \<Rightarrow> ('a \<Rightarrow> 'e + 'b) \<Rightarrow> 'e + 'b" where
  "then_do (Inl e) f = Inl e"
| "then_do (Inr a) f = f a"

definition config_stoi :: "cstring \<Rightarrow> config_error + int" where
  "config_stoi s = (case stoi s of Inl e \<Rightarrow> Inl (BadNumber e) | Inr i \<Rightarrow> Inr i)"

text \<open>\<open>document\<close> is the loaded document, \<open>None\<close> when \<open>LoadFile\<close> fails.\<close>

definition Config_xml :: "'el xml \<Rightarrow> 'el option \<Rightarrow> config_error + config" where
  "Config_xml x document =
     (case document of
        None \<Rightarrow> Inl LoadFailed
      | Some doc \<Rightarrow>
          then_do (READ_XML_ELEMENT x ''root'' doc) (\<lambda>root.
          then_do (READ_XML_ELEMENT x ''log'' root) (\<lambda>log_element.
          then_do (READ_XML_ELEMENT x ''server'' root) (\<lambda>server_element.
          then_do (READ_STR_FROM_XML_NODE x ''log_level'' log_element) (\<lambda>log_level.
          then_do (READ_STR_FROM_XML_NODE x ''log_file_name'' log_element) (\<lambda>log_file_name.
          then_do (READ_STR_FROM_XML_NODE x ''log_file_path'' log_element) (\<lambda>log_file_path.
          then_do (READ_STR_FROM_XML_NODE x ''log_sync_interval'' log_element) (\<lambda>log_sync_interval.
          then_do (READ_STR_FROM_XML_NODE x ''log_max_file_size'' log_element) (\<lambda>log_max_file_size.
          then_do (config_stoi log_sync_interval) (\<lambda>sync_interval.
          then_do (config_stoi log_max_file_size) (\<lambda>max_file_size.
          then_do (READ_STR_FROM_XML_NODE x ''ip'' server_element) (\<lambda>ip.
          then_do (READ_STR_FROM_XML_NODE x ''port'' server_element) (\<lambda>port.
          then_do (READ_STR_FROM_XML_NODE x ''io_threads'' server_element) (\<lambda>io_threads.
          then_do (config_stoi port) (\<lambda>port.
          then_do (config_stoi io_threads) (\<lambda>io_threads.
            Inr \<lparr>cfg_log_level = log_level, cfg_log_file_name = log_file_name,
                 cfg_log_file_path = log_file_path, cfg_log_max_file_size = max_file_size,
                 cfg_log_sync_interval = sync_interval, cfg_ip = ip, cfg_port = port,
                 cfg_io_threads = io_threads, cfg_log_type = AsyncLog\<rparr>))))))))))))))))"

definition SetGlobalConfig :: "'el xml \<Rightarrow> 'el option option \<Rightarrow> config_error + config" where
  "SetGlobalConfig x xmlfile =
     (case xmlfile of Some document \<Rightarrow> Config_xml x document | None \<Rightarrow> Inr Config_client)"

section \<open>What is loaded\<close>

lemma then_do_Inr [simp]: "then_do r f = Inr b \<longleftrightarrow> (\<exists>a. r = Inr a \<and> f a = Inr b)"
  by (cases r) auto

text \<open>The text of the first child with a name; and the number it denotes.\<close>

definition child_text :: "'el xml \<Rightarrow> 'el \<Rightarrow> string \<Rightarrow> cstring option" where
  "child_text x parent name = Option.bind (FirstChildElement x parent (ascii name)) (GetText x)"

lemma READ_STR_child_text:
  "READ_STR_FROM_XML_NODE x name parent = Inr s \<longleftrightarrow> child_text x parent name = Some s"
  by (auto simp: READ_STR_FROM_XML_NODE_def child_text_def split: option.split)

lemma READ_XML_child:
  "READ_XML_ELEMENT x name parent = Inr el \<longleftrightarrow> FirstChildElement x parent (ascii name) = Some el"
  by (auto simp: READ_XML_ELEMENT_def split: option.split)

lemma config_stoi_Inr: "config_stoi s = Inr i \<longleftrightarrow> stoi s = Inr i"
  by (simp add: config_stoi_def split: sum.split)

definition child_number :: "'el xml \<Rightarrow> 'el \<Rightarrow> string \<Rightarrow> int option" where
  "child_number x parent name =
     Option.bind (child_text x parent name) (\<lambda>s. case stoi s of Inl _ \<Rightarrow> None | Inr i \<Rightarrow> Some i)"

lemma child_number_Some:
  "child_number x parent name = Some i \<longleftrightarrow> (\<exists>s. child_text x parent name = Some s \<and> stoi s = Inr i)"
  by (cases "child_text x parent name") (auto simp: child_number_def split: sum.split)

text \<open>
  C32: Loading a configuration file succeeds exactly when the document has the elements \<open>root\<close>, \<open>log\<close>
  and \<open>server\<close> and in them the eight values, the four numbers among them in the range of \<open>int\<close>; the
  result then holds just these values, and asks for the asynchronous log.
\<close>

theorem Config_xml_reads_all_values:
  "Config_xml x (Some doc) = Inr cfg \<longleftrightarrow>
     (\<exists>root log server.
        FirstChildElement x doc (ascii ''root'') = Some root
      \<and> FirstChildElement x root (ascii ''log'') = Some log
      \<and> FirstChildElement x root (ascii ''server'') = Some server
      \<and> child_text x log ''log_level'' = Some (cfg_log_level cfg)
      \<and> child_text x log ''log_file_name'' = Some (cfg_log_file_name cfg)
      \<and> child_text x log ''log_file_path'' = Some (cfg_log_file_path cfg)
      \<and> child_number x log ''log_sync_interval'' = Some (cfg_log_sync_interval cfg)
      \<and> child_number x log ''log_max_file_size'' = Some (cfg_log_max_file_size cfg)
      \<and> child_text x server ''ip'' = Some (cfg_ip cfg)
      \<and> child_number x server ''port'' = Some (cfg_port cfg)
      \<and> child_number x server ''io_threads'' = Some (cfg_io_threads cfg)
      \<and> cfg_log_type cfg = AsyncLog)"
  (is "?L \<longleftrightarrow> ?R")
proof
  assume ?L
  then show ?R
    by (auto simp: Config_xml_def READ_STR_child_text READ_XML_child config_stoi_Inr child_number_Some)
next
  assume ?R
  then obtain root log server si ms po io where parts:
    "FirstChildElement x doc (ascii ''root'') = Some root"
    "FirstChildElement x root (ascii ''log'') = Some log"
    "FirstChildElement x root (ascii ''server'') = Some server"
    "child_text x log ''log_level'' = Some (cfg_log_level cfg)"
    "child_text x log ''log_file_name'' = Some (cfg_log_file_name cfg)"
    "child_text x log ''log_file_path'' = Some (cfg_log_file_path cfg)"
    "child_text x log ''log_sync_interval'' = Some si" "stoi si = Inr (cfg_log_sync_interval cfg)"
    "child_text x log ''log_max_file_size'' = Some ms" "stoi ms = Inr (cfg_log_max_file_size cfg)"
    "child_text x server ''ip'' = Some (cfg_ip cfg)"
    "child_text x server ''port'' = Some po" "stoi po = Inr (cfg_port cfg)"
    "child_text x server ''io_threads'' = Some io" "stoi io = Inr (cfg_io_threads cfg)"
    "cfg_log_type cfg = AsyncLog"
    unfolding child_number_Some by blast
  note inr = parts(1-3) [folded READ_XML_child] parts(4-7,9,11,12,14) [folded READ_STR_child_text]
    parts(8,10,13,15) [folded config_stoi_Inr]
  show ?L
    unfolding Config_xml_def by (simp add: inr del: then_do_Inr) (simp add: parts(16) flip: config.surjective)
qed

section \<open>The number of threads\<close>

text \<open>
  The number of I/O threads of the configuration is not checked.  With 0 the server starts, but
  the first connection it accepts divides by zero; with a negative number the start ends in
  \<open>std::length_error\<close>.
\<close>

theorem io_threads_unchecked:
  assumes "cfg_io_threads cfg \<le> 0" and "0 \<le> m_listenfd acceptor" and "m_listenfd acceptor < int (length events)"
    and "m_family acceptor = AF_INET" and "0 \<le> clientfd"
  shows "if cfg_io_threads cfg < 0
     then TcpServer_init acceptor l (cfg_io_threads cfg) loops events w = Inl LengthError
     else \<exists>s. TcpServer_init acceptor l (cfg_io_threads cfg) loops events w = Inr s
        \<and> onAccept clientfd again peer in_block out_block s = Inl DivisionByZero"
  using assms
  by (auto simp: TcpServer_init_def IOThreadGroup_new_def getFdEvent_def Let_def onAccept_def
      acceptor_accept_def getIOThread_def)

theorem io_threads_unchecked_witness:
  "\<exists>s :: (unit, unit) tcp_server.
     TcpServer_init sample_acceptor (io_loop 0) (cfg_io_threads (Config_client\<lparr>cfg_io_threads := 0, cfg_log_type := AsyncLog\<rparr>)) io_loop (FdEventGroup_new 128) () = Inr s
     \<and> onAccept 9 False (UnixNetAddr_path []) [] [] s = Inl DivisionByZero"
  using io_threads_unchecked [of "Config_client\<lparr>cfg_io_threads := 0, cfg_log_type := AsyncLog\<rparr>" sample_acceptor "FdEventGroup_new 128" 9 "io_loop 0" io_loop "()"
      False "UnixNetAddr_path []" "[]" "[]"]
  by (simp add: Config_client_def sample_acceptor_def FdEventGroup_new_def)

end
