(* ===== verification/Util.thy ===== *)
theory Util
  imports NetAddr
begin

text \<open>
  The helpers of \<open>src/common/util.cc\<close>: \<open>readn\<close> and \<open>writen\<close>, which repeat a system call until all
  bytes are moved, the cached process and thread ids, and the two functions on times.  A descriptor
  is a script of the results its system calls give; \<open>None\<close> means that the call still waits when the
  script is used up.
\<close>

section \<open>Ids\<close>

text \<open>The cache of \<open>getPid\<close> and of \<open>getThreadId\<close>, where 0 means unset; the result comes with the new
  value of the cache.\<close>

definition cached_id :: "int \<Rightarrow> int \<Rightarrow> int \<times> int" where
  "cached_id sys_id g = (if g \<noteq> 0 then (g, g) else (sys_id, sys_id))"

section \<open>Writing and reading all bytes\<close>

text \<open>\<open>Interrupted\<close> is \<open>EINTR\<close> or \<open>EAGAIN\<close>.  A \<open>write\<close> takes at most the bytes it is given.  The
  result is the returned number and the bytes that went out.\<close>

datatype write_result = Wrote nat | Interrupted | WriteFails

fun writen_loop :: "write_result list \<Rightarrow> byte list \<Rightarrow> nat \<Rightarrow> (int \<times> byte list) option" where
  "writen_loop script buf bytes_written =
     (if bytes_written < length buf
      then case script of
             [] \<Rightarrow> None
           | Interrupted # script \<Rightarrow> writen_loop script buf bytes_written
           | WriteFails # script \<Rightarrow> Some (- 1, take bytes_written buf)
           | Wrote n # script \<Rightarrow>
               writen_loop script buf (bytes_written + min n (length buf - bytes_written))
      else Some (int bytes_written, take bytes_written buf))"

definition writen :: "write_result list \<Rightarrow> byte list \<Rightarrow> (int \<times> byte list) option" where
  "writen script buf = writen_loop script buf 0"

text \<open>A \<open>read\<close> that finds more bytes than it asked for leaves the others to the next one; a segment
  without bytes is the end of the file.\<close>

datatype read_result = Got "byte list" | ReadInterrupted | ReadFails

fun readn_loop :: "read_result list \<Rightarrow> nat \<Rightarrow> byte list \<Rightarrow> (int \<times> byte list) option" where
  "readn_loop script count b =
     (if length b < count
      then case script of
             [] \<Rightarrow> None
           | ReadInterrupted # script \<Rightarrow> readn_loop script count b
           | ReadFails # script \<Rightarrow> Some (- 1, b)
           | Got bs # script \<Rightarrow>
               (if bs = [] then Some (int (length b), b)
                else readn_loop script count (b @ take (count - length b) bs))
      else Some (int (length b), b))"

definition readn :: "read_result list \<Rightarrow> nat \<Rightarrow> (int \<times> byte list) option" where
  "readn script count = readn_loop script count []"

declare writen_loop.simps [simp del] readn_loop.simps [simp del]

section \<open>Times\<close>

text \<open>\<open>gettimeofday\<close> gives seconds and microseconds.\<close>

definition getNowMs_of :: "int \<Rightarrow> int \<Rightarrow> int" where
  "getNowMs_of tv_sec tv_usec = tv_sec * 1000 + tv_usec div 1000"

text \<open>The digits of the milliseconds; C++ \<open>/\<close> and \<open>%\<close> truncate towards zero.  \<open>strftime\<close> stands for
  \<open>localtime_r\<close> and \<open>strftime\<close> applied to the seconds.\<close>

definition pad3 :: "int \<Rightarrow> cstring" where
  "pad3 ms = (if ms < 10 then [48, 48] else if ms < 100 then [48] else []) @ int_text ms"

definition getFormatTime :: "(int \<Rightarrow> cstring) \<Rightarrow> int \<Rightarrow> cstring" where
  "getFormatTime strftime ms =
     (let seconds = sgn ms * (\<bar>ms\<bar> div 1000);
          ms = sgn ms * (\<bar>ms\<bar> mod 1000)
      in strftime seconds @ [46] @ pad3 ms)"

section \<open>What they guarantee\<close>

lemma writen_loop_sound:
  "w \<le> length buf \<Longrightarrow> writen_loop script buf w = Some (r, out) \<Longrightarrow>
     (r = int (length buf) \<and> out = buf) \<or> (r = - 1 \<and> (\<exists>n. out = take n buf))"
proof (induction script arbitrary: w)
  case Nil
  then show ?case by (auto simp: writen_loop.simps [of "[]"] split: if_splits)
next
  case (Cons x xs)
  show ?case
  proof (cases "w < length buf")
    case False
    with Cons.prems show ?thesis by (auto simp: writen_loop.simps [of "x # xs"])
  next
    case True
    then show ?thesis
    proof (cases x)
      case (Wrote n)
      with Cons.prems(2) True have "writen_loop xs buf (w + min n (length buf - w)) = Some (r, out)"
        by (subst (asm) writen_loop.simps) simp
      from Cons.IH [OF _ this] True show ?thesis by simp
    next
      case Interrupted
      with Cons.prems(2) True have "writen_loop xs buf w = Some (r, out)"
        by (subst (asm) writen_loop.simps) simp
      from Cons.IH [OF Cons.prems(1) this] show ?thesis .
    next
      case WriteFails
      with Cons.prems(2) True show ?thesis by (subst (asm) writen_loop.simps) auto
    qed
  qed
qed

lemma readn_loop_sound:
  "length b \<le> count \<Longrightarrow> readn_loop (map Got segments) count b = Some (r, out) \<Longrightarrow>
     [] \<notin> set segments \<Longrightarrow> r = int count \<and> out = b @ take (count - length b) (concat segments)"
proof (induction segments arbitrary: b)
  case Nil
  then show ?case by (auto simp: readn_loop.simps [of "[]"] split: if_splits)
next
  case (Cons x xs)
  show ?case
  proof (cases "length b < count")
    case True
    let ?b = "b @ take (count - length b) x"
    have "readn_loop (map Got xs) count ?b = Some (r, out)"
      using Cons.prems True by (auto simp: readn_loop.simps [of "Got x # map Got xs"] split: if_splits)
    from Cons.IH [OF _ this] Cons.prems(3) True show ?thesis
      by (cases "length x \<le> count - length b") simp_all
  next
    case False
    with Cons.prems show ?thesis by (simp add: readn_loop.simps [of "Got x # map Got xs"])
  qed
qed

lemma readn_loop_total:
  "length b \<le> count \<Longrightarrow> [] \<notin> set segments \<Longrightarrow> count \<le> length b + length (concat segments) \<Longrightarrow>
     \<exists>p. readn_loop (map Got segments) count b = Some p"
proof (induction segments arbitrary: b)
  case Nil
  then show ?case by (simp add: readn_loop.simps [of "[]"])
next
  case (Cons x xs)
  show ?case
  proof (cases "length b < count")
    case True
    have "\<exists>p. readn_loop (map Got xs) count (b @ take (count - length b) x) = Some p"
      by (rule Cons.IH) (use Cons.prems True in auto)
    with True Cons.prems show ?thesis by (simp add: readn_loop.simps [of "Got x # map Got xs"])
  next
    case False
    then show ?thesis by (simp add: readn_loop.simps [of "Got x # map Got xs"])
  qed
qed

text \<open>
  What \<open>writen\<close> reports as written, \<open>readn\<close> at the other end of the stream gets back, however the
  kernel splits the writes (with interruptions) and the reads: when \<open>writen\<close> returns the length of
  its buffer, the whole buffer went out, and from any segments of those bytes \<open>readn\<close> returns exactly
  the buffer; when it fails, a prefix went out.
\<close>

theorem writen_readn_roundtrip:
  assumes "writen script buf = Some (r, out)"
  shows "(r = int (length buf) \<and> out = buf \<or> r = - 1 \<and> (\<exists>n. out = take n buf))
     \<and> (r = int (length buf) \<and> concat segments = out \<and> [] \<notin> set segments \<longrightarrow>
          readn (map Got segments) (length buf) = Some (int (length buf), buf))"
proof -
  have w: "r = int (length buf) \<and> out = buf \<or> r = - 1 \<and> (\<exists>n. out = take n buf)"
    using writen_loop_sound [of 0 buf script r out] assms by (simp add: writen_def)
  moreover have "readn (map Got segments) (length buf) = Some (int (length buf), buf)"
    if seg: "r = int (length buf)" "concat segments = out" "[] \<notin> set segments"
  proof -
    have buf: "out = buf" using w seg(1) by auto
    obtain p where p: "readn_loop (map Got segments) (length buf) [] = Some p"
      using readn_loop_total [of "[]" "length buf" segments] seg buf by auto
    show ?thesis
      using readn_loop_sound [of "[]" "length buf" segments "fst p" "snd p"] p seg buf
      by (cases p) (simp add: readn_def)
  qed
  ultimately show ?thesis by blast
qed

theorem writen_readn_roundtrip_witness:
  "readn (map Got [[1], [2, 3]]) 3 = Some (3, [1, 2, 3])"
proof -
  have "writen [Wrote 1, Interrupted, Wrote 5] [1, 2, 3] = Some (3, [1, 2, 3])"
    by (simp add: writen_def writen_loop.simps)
  from writen_readn_roundtrip [OF this, of "[[1], [2, 3]]"] show ?thesis
    by (simp add: numeral_3_eq_3)
qed

lemma pad3_digits:
  assumes "0 \<le> ms" and "ms < 1000"
  shows "length (pad3 ms) = 3 \<and> int (dec_value (pad3 ms)) = ms"
proof -
  define n where "n = nat ms"
  have ms: "ms = int n" and n: "n < 1000" using assms by (simp_all add: n_def)
  have lead: "dec_value (48 # s) = dec_value s" for s by (simp add: dec_value_def)
  have v: "dec_value (to_string n) = n" using to_string_facts [of n] by simp
  have l: "length (to_string n) = (if n < 10 then 1 else if n < 100 then 2 else 3)"
    using n by (auto simp: to_string.simps [of n] to_string.simps [of "n div 10"] to_string.simps [of "n div 10 div 10"])
  show ?thesis using l v by (simp add: pad3_def int_text_def ms lead)
qed

end
