(* ===== verification/Log.thy ===== *)
theory Log
  imports Config Util Timer
begin

text \<open>
  The logger (\<open>include/rapidrpc/common/log.h\<close>, \<open>src/common/log.cc\<close>): log levels, the text of a log
  line, the \<open>Logger\<close> with its two buffers, and the \<open>AsyncLogger\<close> whose thread takes batches from a
  queue and writes them to files that change with the date and with their size.  The date and the time
  text (\<open>strftime\<close>) and whether \<open>fopen\<close> succeeds are arguments.
\<close>

section \<open>Levels\<close>

datatype LogLevel = Debug | Info | Error

fun level_value :: "LogLevel \<Rightarrow> int" where
  "level_value Debug = 1"
| "level_value Info = 2"
| "level_value Error = 3"

instantiation LogLevel :: linorder
begin

definition less_eq_LogLevel :: "LogLevel \<Rightarrow> LogLevel \<Rightarrow> bool" where
  "less_eq_LogLevel a b \<longleftrightarrow> level_value a \<le> level_value b"

definition less_LogLevel :: "LogLevel \<Rightarrow> LogLevel \<Rightarrow> bool" where
  "less_LogLevel a b \<longleftrightarrow> level_value a < level_value b"

instance
proof
  fix a b :: LogLevel
  assume "a \<le> b" and "b \<le> a"
  then show "a = b" by (cases a; cases b) (simp_all add: less_eq_LogLevel_def)
qed (auto simp: less_eq_LogLevel_def less_LogLevel_def)

end

fun logLevelToString :: "LogLevel \<Rightarrow> cstring" where
  "logLevelToString Debug = ascii ''DEBUG''"
| "logLevelToString Info = ascii ''INFO''"
| "logLevelToString Error = ascii ''ERROR''"

definition logLevelFromString :: "cstring \<Rightarrow> LogLevel" where
  "logLevelFromString level =
     (if level = ascii ''DEBUG'' then Debug
      else if level = ascii ''INFO'' then Info
      else if level = ascii ''ERROR'' then Error
      else Info)"

lemma level_text_roundtrip: "logLevelFromString (logLevelToString l) = l"
  by (cases l) (simp_all add: logLevelFromString_def ascii_def)

section \<open>Log lines\<close>

definition LogEvent_toString :: "LogLevel \<Rightarrow> cstring \<Rightarrow> int \<Rightarrow> int \<Rightarrow> int \<Rightarrow> runtime option \<Rightarrow> cstring" where
  "LogEvent_toString level time_str tv_usec pid tid t_runtime =
     (let ms = tv_usec div 1000;
          time_str = time_str @ [46] @ pad3 ms;
          rt = GetRuntime t_runtime
      in [91] @ logLevelToString level @ [93, 9] @ [91] @ time_str @ [93, 9]
         @ [91] @ int_text pid @ [58] @ int_text tid @ [93, 9]
         @ (if rt_msg_id rt \<noteq> [] \<and> rt_method_name rt \<noteq> []
            then [91] @ rt_msg_id rt @ [58] @ rt_method_name rt @ [93, 9] else []))"

text \<open>The line the macros build: prefix, source file and line, formatted message.\<close>

definition log_line :: "cstring \<Rightarrow> cstring \<Rightarrow> nat \<Rightarrow> cstring \<Rightarrow> cstring" where
  "log_line event file line msg = event @ [91] @ file @ [58] @ to_string line @ [93, 9] @ msg @ [10]"

section \<open>AsyncLogger\<close>

text \<open>\<open>al_disk\<close> is what the files held before, \<open>al_writes\<close> the calls of \<open>fwrite\<close> so far, each with the
  name of the file it went to.\<close>

record async_logger =
  al_buffer :: "cstring list list"
  al_file_name :: cstring
  al_file_path :: cstring
  al_max_file_size :: int
  al_date :: cstring
  al_file_handler :: "cstring option"
  al_reopen_flag :: bool
  al_no :: int
  al_stop_flag :: bool
  al_disk :: "cstring \<Rightarrow> byte list"
  al_writes :: "(cstring \<times> byte list) list"

definition AsyncLogger_new :: "(cstring \<Rightarrow> byte list) \<Rightarrow> cstring \<Rightarrow> cstring \<Rightarrow> int \<Rightarrow> async_logger" where
  "AsyncLogger_new disk name path max_file_size =
     \<lparr>al_buffer = [], al_file_name = name, al_file_path = path, al_max_file_size = max_file_size,
      al_date = [], al_file_handler = None, al_reopen_flag = False, al_no = 0, al_stop_flag = False,
      al_disk = disk, al_writes = []\<rparr>"

definition pushLogs :: "cstring list \<Rightarrow> async_logger \<Rightarrow> async_logger" where
  "pushLogs logs l = l\<lparr>al_buffer := al_buffer l @ [logs]\<rparr>"

text \<open>\<open>ftell\<close> of a stream opened for appending: the size of the file.\<close>

definition file_size :: "async_logger \<Rightarrow> cstring \<Rightarrow> int" where
  "file_size l f =
     int (length (al_disk l f) + length (concat (map snd (filter (\<lambda>(g, _). g = f) (al_writes l)))))"

definition log_file_name :: "async_logger \<Rightarrow> cstring" where
  "log_file_name l =
     al_file_path l @ al_file_name l @ [95] @ al_date l @ ascii ''_log.'' @ int_text (al_no l)"

definition fwrite_all :: "cstring list \<Rightarrow> cstring \<Rightarrow> async_logger \<Rightarrow> async_logger" where
  "fwrite_all output f l =
     l\<lparr>al_writes := al_writes l @ map (Pair f) (filter (\<lambda>msg. msg \<noteq> []) output)\<rparr>"

text \<open>One round of the thread's loop, on the date of that moment: it waits for a batch, leaves the
  loop, exits because a file does not open, uses a null stream, or has logged a batch.\<close>

datatype round_result = Waiting | LeftLoop | OpenFailed | NullStream | Logged async_logger

definition async_round :: "(cstring \<Rightarrow> bool) \<Rightarrow> cstring \<Rightarrow> async_logger \<Rightarrow> round_result" where
  "async_round can_open date l =
     (case al_buffer l of
        [] \<Rightarrow> if al_stop_flag l then LeftLoop else Waiting
      | output # rest \<Rightarrow>
          (let l = l\<lparr>al_buffer := rest\<rparr> in
           if date = al_date l \<and> al_file_handler l = None then NullStream
           else
             let l = (if date \<noteq> al_date l then l\<lparr>al_no := 0, al_reopen_flag := True, al_date := date\<rparr>
                      else if file_size l (the (al_file_handler l)) \<ge> al_max_file_size l
                      then l\<lparr>al_no := al_no l + 1, al_reopen_flag := True\<rparr>
                      else l)
             in if al_reopen_flag l
                then if \<not> can_open (log_file_name l) then OpenFailed
                     else Logged (fwrite_all output (log_file_name l)
                            (l\<lparr>al_file_handler := Some (log_file_name l), al_reopen_flag := False\<rparr>))
                else Logged (fwrite_all output (the (al_file_handler l)) l)))"

text \<open>\<open>stop\<close> sets the flag and joins the thread, which goes on with its rounds, on the given dates,
  until it leaves the loop; \<open>None\<close> when it does not within them.\<close>

fun async_join :: "(cstring \<Rightarrow> bool) \<Rightarrow> cstring list \<Rightarrow> async_logger \<Rightarrow> async_logger option" where
  "async_join can_open [] l = None"
| "async_join can_open (date # dates) l =
     (case async_round can_open date l of
        LeftLoop \<Rightarrow> Some l
      | Logged l' \<Rightarrow> async_join can_open dates l'
      | _ \<Rightarrow> None)"

definition AsyncLogger_stop :: "(cstring \<Rightarrow> bool) \<Rightarrow> cstring list \<Rightarrow> async_logger \<Rightarrow> async_logger option" where
  "AsyncLogger_stop can_open dates l = async_join can_open dates (l\<lparr>al_stop_flag := True\<rparr>)"

section \<open>Logger\<close>

text \<open>\<open>lg_printed\<close> is what went to the standard output.\<close>

record logger =
  m_set_level :: LogLevel
  m_log_type :: LogType
  lg_buffer :: "cstring list"
  lg_app_buffer :: "cstring list"
  m_async_logger :: "async_logger option"
  m_async_app_logger :: "async_logger option"
  lg_printed :: "byte list"

definition Logger_new :: "(cstring \<Rightarrow> byte list) \<Rightarrow> config \<Rightarrow> LogLevel \<Rightarrow> LogType \<Rightarrow> logger" where
  "Logger_new disk cfg level type =
     (let async = (\<lambda>suffix. if type = AsyncLog
                            then Some (AsyncLogger_new disk (cfg_log_file_name cfg @ ascii suffix)
                                   (cfg_log_file_path cfg) (cfg_log_max_file_size cfg))
                            else None)
      in \<lparr>m_set_level = level, m_log_type = type, lg_buffer = [], lg_app_buffer = [],
          m_async_logger = async ''_rpc'', m_async_app_logger = async ''_app'', lg_printed = []\<rparr>)"

text \<open>The global logger is made from the global configuration; without one the process exits.\<close>

definition GetGlobalLogger :: "(cstring \<Rightarrow> byte list) \<Rightarrow> config option \<Rightarrow> logger option \<Rightarrow> logger option" where
  "GetGlobalLogger disk cfg g_logger =
     (case g_logger of
        Some l \<Rightarrow> Some l
      | None \<Rightarrow>
          (case cfg of
             None \<Rightarrow> None
           | Some c \<Rightarrow> Some (Logger_new disk c (logLevelFromString (cfg_log_level c)) (cfg_log_type c))))"

text \<open>The timer event that \<open>init\<close> adds for the asynchronous logger: it repeats, and its task is
  \<open>syncLogs\<close>.\<close>

definition Logger_init :: "config \<Rightarrow> 'task \<Rightarrow> nat \<Rightarrow> logger \<Rightarrow> 'task timer \<Rightarrow> 'task timer" where
  "Logger_init cfg sync_logs i lg t =
     (if m_log_type lg = AsyncLog
      then addTimerEvent i (TimerEvent_new i (cfg_log_sync_interval cfg) True (Some sync_logs) t)
      else t)"

definition InitGlobalLogger :: "(cstring \<Rightarrow> byte list) \<Rightarrow> config \<Rightarrow> 'task \<Rightarrow> nat \<Rightarrow> logger option \<Rightarrow> 'task timer
    \<Rightarrow> (logger \<times> 'task timer) option" where
  "InitGlobalLogger disk cfg sync_logs i g_logger t =
     map_option (\<lambda>lg. (lg, Logger_init cfg sync_logs i lg t)) (GetGlobalLogger disk (Some cfg) g_logger)"

text \<open>\<open>printf("%s", msg.c_str())\<close> stops at a NUL.\<close>

definition pushLog :: "cstring \<Rightarrow> logger \<Rightarrow> logger" where
  "pushLog msg lg =
     (if m_log_type lg = SyncLog then lg\<lparr>lg_printed := lg_printed lg @ takeWhile (\<lambda>c. c \<noteq> 0) msg\<rparr>
      else lg\<lparr>lg_buffer := lg_buffer lg @ [msg]\<rparr>)"

definition pushAppLog :: "cstring \<Rightarrow> logger \<Rightarrow> logger" where
  "pushAppLog msg lg = lg\<lparr>lg_app_buffer := lg_app_buffer lg @ [msg]\<rparr>"

definition sync_buffer :: "cstring list \<Rightarrow> async_logger option \<Rightarrow> async_logger option" where
  "sync_buffer tmp l = (if tmp \<noteq> [] then map_option (pushLogs tmp) l else l)"

definition syncLogs :: "logger \<Rightarrow> logger" where
  "syncLogs lg =
     (let tmp = lg_buffer lg;
          lg = lg\<lparr>lg_buffer := [], m_async_logger := sync_buffer tmp (m_async_logger lg)\<rparr>;
          app_tmp = lg_app_buffer lg
      in lg\<lparr>lg_app_buffer := [], m_async_app_logger := sync_buffer app_tmp (m_async_app_logger lg)\<rparr>)"

fun stop_logger :: "(cstring \<Rightarrow> bool) \<Rightarrow> cstring list \<Rightarrow> async_logger option \<Rightarrow> async_logger option option" where
  "stop_logger can_open dates None = Some None"
| "stop_logger can_open dates (Some l) = map_option Some (AsyncLogger_stop can_open dates l)"

text \<open>\<open>None\<close> when a thread that is joined does not end.\<close>

definition flushAndStop :: "(cstring \<Rightarrow> bool) \<Rightarrow> cstring list \<Rightarrow> cstring list \<Rightarrow> logger \<Rightarrow> logger option" where
  "flushAndStop can_open dates app_dates lg =
     (if m_log_type lg = AsyncLog
      then
        let lg = syncLogs lg
        in case stop_logger can_open dates (m_async_logger lg) of
             None \<Rightarrow> None
           | Some l \<Rightarrow>
               (case stop_logger can_open app_dates (m_async_app_logger lg) of
                  None \<Rightarrow> None
                | Some l' \<Rightarrow> Some (lg\<lparr>m_async_logger := l, m_async_app_logger := l'\<rparr>))
      else Some lg)"

text \<open>The macros \<open>DEBUGLOG\<close>, \<open>INFOLOG\<close>, \<open>ERRORLOG\<close> and those for applications.\<close>

definition LOG :: "LogLevel \<Rightarrow> cstring \<Rightarrow> logger \<Rightarrow> logger" where
  "LOG level line lg = (if m_set_level lg \<le> level then pushLog line lg else lg)"

definition APPLOG :: "LogLevel \<Rightarrow> cstring \<Rightarrow> logger \<Rightarrow> logger" where
  "APPLOG level line lg = (if m_set_level lg \<le> level then pushAppLog line lg else lg)"

end
