(* ===== verification/LogProperties.thy ===== *)
theory LogProperties
  imports Log
begin

text \<open>
  What the logger guarantees: the contract between \<open>Logger\<close>, which hands over batches, and the thread
  that writes them (a locale, interpreted on \<open>AsyncLogger\<close>), from which no line is lost, repeated or
  reordered; the names of the files; and what the synchronous mode prints.
\<close>

section \<open>The contract of a log sink\<close>

text \<open>The rounds of a worker, as long as it has something to do.\<close>

fun work_all :: "(cstring \<Rightarrow> 's \<Rightarrow> 's option) \<Rightarrow> cstring list \<Rightarrow> 's \<Rightarrow> 's" where
  "work_all work [] s = s"
| "work_all work (d # ds) s = work_all work ds (case work d s of None \<Rightarrow> s | Some s' \<Rightarrow> s')"

locale log_sink =
  fixes push :: "cstring list \<Rightarrow> 's \<Rightarrow> 's"
    and work :: "cstring \<Rightarrow> 's \<Rightarrow> 's option"
    and backlog :: "'s \<Rightarrow> cstring list list"
    and written :: "'s \<Rightarrow> byte list"
    and ok :: "'s \<Rightarrow> bool"
  assumes push_backlog: "backlog (push b s) = backlog s @ [b]"
    and push_written: "written (push b s) = written s"
    and push_ok: "ok s \<Longrightarrow> ok (push b s)"
    and work_idle: "backlog s = [] \<Longrightarrow> work d s = None"
    and work_next: "ok s \<Longrightarrow> d \<noteq> [] \<Longrightarrow> backlog s = b # r \<Longrightarrow>
      \<exists>s'. work d s = Some s' \<and> ok s' \<and> backlog s' = r \<and> written s' = written s @ concat b"
begin

lemma push_text:
  "written (push b s) @ concat (concat (backlog (push b s))) = written s @ concat (concat (backlog s)) @ concat b"
  by (simp add: push_backlog push_written)

lemma work_cases:
  assumes "ok s" and "d \<noteq> []"
  obtains "backlog s = []" and "work d s = None"
  | b r s' where "backlog s = b # r" and "work d s = Some s'" and "ok s'" and "backlog s' = r"
      and "written s' = written s @ concat b"
proof (cases "backlog s")
  case Nil
  with that(1) work_idle show ?thesis by simp
next
  case (Cons b r)
  from work_next [OF assms this] that(2) [OF Cons] show ?thesis by blast
qed

lemma work_text:
  assumes "ok s" and "d \<noteq> []" and "work d s = Some s'"
  shows "ok s' \<and> written s' @ concat (concat (backlog s')) = written s @ concat (concat (backlog s))"
  by (rule work_cases [OF assms(1,2)]) (use assms(3) in simp_all)

lemma work_all_drains:
  "ok s \<Longrightarrow> [] \<notin> set ds \<Longrightarrow> length (backlog s) \<le> length ds \<Longrightarrow>
     backlog (work_all work ds s) = [] \<and> ok (work_all work ds s)
     \<and> written (work_all work ds s) = written s @ concat (concat (backlog s))"
proof (induction ds arbitrary: s)
  case (Cons d ds)
  have "d \<noteq> []" using Cons.prems(2) by auto
  from Cons.prems(1) this show ?case
    by (rule work_cases) (use Cons in auto)
qed simp

end

section \<open>The asynchronous logger is a log sink\<close>

definition async_work :: "cstring \<Rightarrow> async_logger \<Rightarrow> async_logger option" where
  "async_work d l = (case async_round (\<lambda>_. True) d l of Logged l' \<Rightarrow> Some l' | _ \<Rightarrow> None)"

definition al_written :: "async_logger \<Rightarrow> byte list" where
  "al_written l = concat (map snd (al_writes l))"

text \<open>Once a date is set, the stream of that date's file is open, under the name the number gives.\<close>

definition wf_async :: "async_logger \<Rightarrow> bool" where
  "wf_async l \<longleftrightarrow> \<not> al_reopen_flag l
     \<and> al_file_handler l = (if al_date l = [] then None else Some (log_file_name l))"

lemma concat_nonempty: "concat (filter (\<lambda>m. m \<noteq> []) ms) = concat ms"
  by (induction ms) auto

lemma async_round_logs:
  assumes "wf_async l" and "d \<noteq> []" and "al_buffer l = b # r" and "\<forall>f. can_open f"
  shows "\<exists>l'. async_round can_open d l = Logged l' \<and> wf_async l' \<and> al_buffer l' = r \<and> al_date l' = d
     \<and> al_no l' = (if d \<noteq> al_date l then 0
         else if al_max_file_size l \<le> file_size l (log_file_name l) then al_no l + 1 else al_no l)
     \<and> al_file_name l' = al_file_name l \<and> al_file_path l' = al_file_path l
     \<and> al_max_file_size l' = al_max_file_size l \<and> al_disk l' = al_disk l \<and> al_stop_flag l' = al_stop_flag l
     \<and> al_writes l' = al_writes l @ map (Pair (log_file_name l')) (filter (\<lambda>m. m \<noteq> []) b)"
  using assms
  by (auto simp: async_round_def Let_def wf_async_def fwrite_all_def log_file_name_def file_size_def)

interpretation async: log_sink pushLogs async_work al_buffer al_written wf_async
proof unfold_locales
  fix s and d :: cstring and b r
  assume "wf_async s" and "d \<noteq> []" and "al_buffer s = b # r"
  with async_round_logs [of s d b r "\<lambda>_. True"]
  show "\<exists>s'. async_work d s = Some s' \<and> wf_async s' \<and> al_buffer s' = r \<and> al_written s' = al_written s @ concat b"
    by (auto simp: async_work_def al_written_def comp_def concat_nonempty)
qed (auto simp: pushLogs_def al_written_def wf_async_def log_file_name_def async_work_def async_round_def)

lemma wf_AsyncLogger_new: "wf_async (AsyncLogger_new disk name path n)"
  by (simp add: wf_async_def AsyncLogger_new_def)

text \<open>Joining the thread drains the queue: one round for each batch, and the last one to leave.\<close>

lemma async_join_drains:
  assumes "\<forall>f. can_open f"
  shows "wf_async l \<Longrightarrow> al_stop_flag l \<Longrightarrow> [] \<notin> set ds \<Longrightarrow> length (al_buffer l) < length ds \<Longrightarrow>
     async_join can_open ds l = Some (work_all async_work ds l)"
proof (induction ds arbitrary: l)
  case (Cons d ds)
  have d: "d \<noteq> []" using Cons.prems(3) by auto
  have idle: "work_all async_work xs l = l" if "al_buffer l = []" for xs
    by (induction xs) (simp_all add: async.work_idle that)
  have T: "can_open = (\<lambda>_. True)" using assms by auto
  show ?case
  proof (cases "al_buffer l")
    case Nil
    then show ?thesis using idle [OF Nil, of "d # ds"] Cons.prems(2) by (simp add: async_round_def)
  next
    case (Cons b r)
    with async_round_logs [of l d b r "\<lambda>_. True"] Cons.prems(1) d obtain l' where
      l': "async_round (\<lambda>_. True) d l = Logged l'" "wf_async l'" "al_buffer l' = r" "al_stop_flag l'"
      using Cons.prems(2) by auto
    then show ?thesis
      using Cons.IH [OF l'(2) l'(4)] Cons.prems Cons by (simp add: T async_work_def)
  qed
qed simp

text \<open>
  C28: A batch goes into the file of the day on which it is written: on a new day the numbering starts
  again at 0, and within a day the number grows by one exactly when the current file has reached the
  maximal size.  All lines of a batch go to the same file, in order, and every line is written.
\<close>

theorem log_files_rotate:
  assumes "wf_async l" and "d \<noteq> []" and "al_buffer l = b # r"
  shows "\<exists>l'. async_round (\<lambda>_. True) d l = Logged l' \<and> wf_async l' \<and> al_buffer l' = r \<and> al_date l' = d
     \<and> al_no l' = (if d \<noteq> al_date l then 0
         else if al_max_file_size l \<le> file_size l (log_file_name l) then al_no l + 1 else al_no l)
     \<and> al_writes l' = al_writes l @ map (Pair (al_file_path l @ al_file_name l @ [95] @ d
           @ ascii ''_log.'' @ int_text (al_no l'))) (filter (\<lambda>m. m \<noteq> []) b)"
proof -
  from async_round_logs [of l d b r "\<lambda>_. True"] assms obtain l' where
    l': "async_round (\<lambda>_. True) d l = Logged l'" "wf_async l'" "al_buffer l' = r" "al_date l' = d"
    "al_no l' = (if d \<noteq> al_date l then 0
         else if al_max_file_size l \<le> file_size l (log_file_name l) then al_no l + 1 else al_no l)"
    "al_file_name l' = al_file_name l" "al_file_path l' = al_file_path l"
    "al_writes l' = al_writes l @ map (Pair (log_file_name l')) (filter (\<lambda>m. m \<noteq> []) b)"
    by auto
  then show ?thesis unfolding log_file_name_def [of l'] by auto
qed

theorem log_files_rotate_witness:
  "\<exists>l'. async_round (\<lambda>_. True) [55] (pushLogs [[65], [], [66]] (AsyncLogger_new (\<lambda>_. []) [108] [47] 10)) = Logged l'
     \<and> map snd (al_writes l') = [[65], [66]]"
  using log_files_rotate [of "pushLogs [[65], [], [66]] (AsyncLogger_new (\<lambda>_. []) [108] [47] 10)" "[55]"
      "[[65], [], [66]]" "[]"] async.push_ok [OF wf_AsyncLogger_new, of "[[65], [], [66]]" "\<lambda>_. []" "[108]" "[47]" 10]
  by (auto simp: pushLogs_def AsyncLogger_new_def)

section \<open>Runs of a logger\<close>

text \<open>Log calls of any threads, the timer's task, and rounds of the two threads, in any order.\<close>

datatype log_op =
    RpcLog LogLevel cstring
  | AppLog LogLevel cstring
  | SyncTick
  | RpcRound cstring
  | AppRound cstring

definition with_round :: "cstring \<Rightarrow> async_logger option \<Rightarrow> async_logger option" where
  "with_round d l =
     (case l of None \<Rightarrow> None | Some l \<Rightarrow> Some (case async_work d l of None \<Rightarrow> l | Some l' \<Rightarrow> l'))"

fun log_step :: "logger \<Rightarrow> log_op \<Rightarrow> logger" where
  "log_step lg (RpcLog level line) = LOG level line lg"
| "log_step lg (AppLog level line) = APPLOG level line lg"
| "log_step lg SyncTick = syncLogs lg"
| "log_step lg (RpcRound d) = lg\<lparr>m_async_logger := with_round d (m_async_logger lg)\<rparr>"
| "log_step lg (AppRound d) = lg\<lparr>m_async_app_logger := with_round d (m_async_app_logger lg)\<rparr>"

text \<open>The lines that pass the level.\<close>

fun rpc_line :: "LogLevel \<Rightarrow> log_op \<Rightarrow> cstring list" where
  "rpc_line set_level (RpcLog level line) = (if set_level \<le> level then [line] else [])"
| "rpc_line set_level _ = []"

fun app_line :: "LogLevel \<Rightarrow> log_op \<Rightarrow> cstring list" where
  "app_line set_level (AppLog level line) = (if set_level \<le> level then [line] else [])"
| "app_line set_level _ = []"

definition dated :: "log_op \<Rightarrow> bool" where
  "dated op \<longleftrightarrow> op \<noteq> RpcRound [] \<and> op \<noteq> AppRound []"

text \<open>What is on its way through one side of an asynchronous logger.\<close>

definition in_flight :: "async_logger option \<Rightarrow> cstring list \<Rightarrow> byte list" where
  "in_flight l buffer =
     (case l of None \<Rightarrow> [] | Some l \<Rightarrow> al_written l @ concat (concat (al_buffer l)) @ concat buffer)"

definition wf_side :: "nat \<Rightarrow> async_logger option \<Rightarrow> bool" where
  "wf_side n l \<longleftrightarrow> (\<exists>a. l = Some a \<and> wf_async a \<and> length (al_buffer a) \<le> n)"

lemma sync_side:
  assumes "wf_side n l"
  shows "wf_side (Suc n) (sync_buffer tmp l)" and "in_flight (sync_buffer tmp l) [] = in_flight l tmp"
  using assms async.push_ok [of _ tmp] async.push_text [of tmp]
  by (auto simp: wf_side_def sync_buffer_def in_flight_def async.push_backlog async.push_written le_Suc_eq)

lemma round_side:
  assumes "wf_side n l" and "d \<noteq> []"
  shows "wf_side n (with_round d l)" and "in_flight (with_round d l) buffer = in_flight l buffer"
proof -
  obtain a where a: "l = Some a" "wf_async a" "length (al_buffer a) \<le> n" using assms(1) by (auto simp: wf_side_def)
  show "wf_side n (with_round d l)" "in_flight (with_round d l) buffer = in_flight l buffer"
    by (rule async.work_cases [OF a(2) assms(2)];
        use a in \<open>auto simp: wf_side_def with_round_def in_flight_def\<close>)+
qed

lemma wf_side_mono: "wf_side n l \<Longrightarrow> wf_side (Suc n) l"
  by (auto simp: wf_side_def)

lemma log_step_async:
  assumes "wf_side n (m_async_logger lg)" and "wf_side n (m_async_app_logger lg)" and "m_log_type lg = AsyncLog"
    and "dated op"
  defines "lg' \<equiv> log_step lg op"
  shows "wf_side (Suc n) (m_async_logger lg') \<and> wf_side (Suc n) (m_async_app_logger lg')
     \<and> m_log_type lg' = AsyncLog \<and> m_set_level lg' = m_set_level lg
     \<and> in_flight (m_async_logger lg') (lg_buffer lg')
         = in_flight (m_async_logger lg) (lg_buffer lg) @ concat (rpc_line (m_set_level lg) op)
     \<and> in_flight (m_async_app_logger lg') (lg_app_buffer lg')
         = in_flight (m_async_app_logger lg) (lg_app_buffer lg) @ concat (app_line (m_set_level lg) op)"
proof (cases op)
  case (RpcRound d)
  then have "d \<noteq> []" using assms(4) by (simp add: dated_def)
  then show ?thesis using assms RpcRound wf_side_mono round_side by auto
next
  case (AppRound d)
  then have "d \<noteq> []" using assms(4) by (simp add: dated_def)
  then show ?thesis using assms AppRound wf_side_mono round_side by auto
next
  case SyncTick
  then show ?thesis using assms sync_side by (auto simp: syncLogs_def Let_def)
qed (use assms in \<open>auto simp: LOG_def APPLOG_def pushLog_def pushAppLog_def wf_side_mono in_flight_def wf_side_def\<close>)

lemma log_run_async:
  "wf_side n (m_async_logger lg) \<Longrightarrow> wf_side n (m_async_app_logger lg) \<Longrightarrow> m_log_type lg = AsyncLog \<Longrightarrow>
   \<forall>op \<in> set ops. dated op \<Longrightarrow>
     (let lg' = run_steps log_step lg ops in
        wf_side (n + length ops) (m_async_logger lg') \<and> wf_side (n + length ops) (m_async_app_logger lg')
      \<and> m_log_type lg' = AsyncLog
      \<and> in_flight (m_async_logger lg') (lg_buffer lg')
          = in_flight (m_async_logger lg) (lg_buffer lg) @ concat (concat (map (rpc_line (m_set_level lg)) ops))
      \<and> in_flight (m_async_app_logger lg') (lg_app_buffer lg')
          = in_flight (m_async_app_logger lg) (lg_app_buffer lg) @ concat (concat (map (app_line (m_set_level lg)) ops)))"
proof (induction ops arbitrary: lg n)
  case (Cons op ops)
  have "dated op" using Cons.prems(4) by simp
  note step = log_step_async [OF Cons.prems(1-3) this]
  then show ?case using Cons.IH [of "Suc n" "log_step lg op"] Cons.prems(4) by (auto simp: Let_def)
qed simp

lemma stop_side:
  assumes "wf_side n l" and "[] \<notin> set dates" and "n < length dates"
  shows "\<exists>a. stop_logger (\<lambda>_. True) dates l = Some (Some a) \<and> al_written a = in_flight l []"
proof -
  obtain a where a: "l = Some a" "wf_async a" "length (al_buffer a) \<le> n" using assms(1) by (auto simp: wf_side_def)
  define s where "s = a\<lparr>al_stop_flag := True\<rparr>"
  have s: "wf_async s" "al_stop_flag s" "al_buffer s = al_buffer a" "al_written s = al_written a"
    using a(2) by (simp_all add: s_def wf_async_def log_file_name_def al_written_def)
  have "async_join (\<lambda>_. True) dates s = Some (work_all async_work dates s)"
    by (rule async_join_drains) (use s a(3) assms in auto)
  moreover have "al_written (work_all async_work dates s) = al_written s @ concat (concat (al_buffer s))"
    using async.work_all_drains [of s dates] s a(3) assms by simp
  ultimately show ?thesis using s by (simp add: a(1) AsyncLogger_stop_def s_def [symmetric] in_flight_def)
qed

text \<open>
  C23: In the asynchronous mode, as long as the log files can be opened, no line is lost, repeated or
  reordered: whatever the log calls, the timer ticks and the rounds of the two threads, in any order and on any dates, \<open>flushAndStop\<close> ends
  (one round for each batch suffices), and the bytes that then have been written are those of all
  lines whose level passes, in the order of the calls, separately for the framework and the
  application.
\<close>

theorem async_log_complete:
  assumes "cfg_log_type cfg = AsyncLog" and "\<forall>op \<in> set ops. dated op"
    and "[] \<notin> set dates" and "[] \<notin> set app_dates"
    and "Suc (length ops) < length dates" and "Suc (length ops) < length app_dates"
  shows "let level = logLevelFromString (cfg_log_level cfg);
           lg = run_steps log_step (the (GetGlobalLogger disk (Some cfg) None)) ops
     in \<exists>lg' a a'. flushAndStop (\<lambda>_. True) dates app_dates lg = Some lg'
      \<and> m_async_logger lg' = Some a \<and> m_async_app_logger lg' = Some a'
      \<and> al_written a = concat (concat (map (rpc_line level) ops))
      \<and> al_written a' = concat (concat (map (app_line level) ops))"
proof -
  define level where "level = logLevelFromString (cfg_log_level cfg)"
  define lg0 where "lg0 = the (GetGlobalLogger disk (Some cfg) None)"
  define lg where "lg = run_steps log_step lg0 ops"
  have lg0: "wf_side 0 (m_async_logger lg0)" "wf_side 0 (m_async_app_logger lg0)" "m_log_type lg0 = AsyncLog"
    "m_set_level lg0 = level" "in_flight (m_async_logger lg0) (lg_buffer lg0) = []"
    "in_flight (m_async_app_logger lg0) (lg_app_buffer lg0) = []"
    using assms(1)
    by (simp_all add: lg0_def level_def GetGlobalLogger_def Logger_new_def wf_side_def wf_AsyncLogger_new in_flight_def)
      (simp_all add: AsyncLogger_new_def al_written_def)
  from log_run_async [OF lg0(1-3) assms(2)]
  have lg: "wf_side (length ops) (m_async_logger lg)" "wf_side (length ops) (m_async_app_logger lg)"
    "m_log_type lg = AsyncLog"
    "in_flight (m_async_logger lg) (lg_buffer lg) = concat (concat (map (rpc_line level) ops))"
    "in_flight (m_async_app_logger lg) (lg_app_buffer lg) = concat (concat (map (app_line level) ops))"
    by (simp_all add: lg_def Let_def lg0(4-6))
  obtain a where a: "stop_logger (\<lambda>_. True) dates (m_async_logger (syncLogs lg)) = Some (Some a)"
    "al_written a = concat (concat (map (rpc_line level) ops))"
    using stop_side [OF sync_side(1) [OF lg(1), of "lg_buffer lg"] assms(3,5)] sync_side(2) [OF lg(1), of "lg_buffer lg"]
    by (auto simp: syncLogs_def Let_def lg(4))
  obtain a' where a': "stop_logger (\<lambda>_. True) app_dates (m_async_app_logger (syncLogs lg)) = Some (Some a')"
    "al_written a' = concat (concat (map (app_line level) ops))"
    using stop_side [OF sync_side(1) [OF lg(2), of "lg_app_buffer lg"] assms(4,6)]
      sync_side(2) [OF lg(2), of "lg_app_buffer lg"]
    by (auto simp: syncLogs_def Let_def lg(5))
  show ?thesis
    using a a' lg(3) by (simp add: flushAndStop_def Let_def lg_def lg0_def level_def)
qed

theorem async_log_complete_witness:
  "let lg = run_steps log_step (the (GetGlobalLogger (\<lambda>_. [])
       (Some (Config_client\<lparr>cfg_log_type := AsyncLog, cfg_log_level := ascii ''ERROR''\<rparr>)) None))
       [RpcLog Info [65], RpcLog Error [66], SyncTick, RpcRound [55], RpcLog Error [67]]
   in \<exists>lg' a. flushAndStop (\<lambda>_. True) (replicate 7 [56]) (replicate 7 [56]) lg = Some lg'
     \<and> m_async_logger lg' = Some a \<and> al_written a = [66, 67]"
  using async_log_complete [of "Config_client\<lparr>cfg_log_type := AsyncLog, cfg_log_level := ascii ''ERROR''\<rparr>"
      "[RpcLog Info [65], RpcLog Error [66], SyncTick, RpcRound [55], RpcLog Error [67]]" "replicate 7 [56]"
      "replicate 7 [56]" "\<lambda>_. []"]
  by (auto simp: Let_def dated_def level_text_roundtrip [of Error, simplified] less_eq_LogLevel_def)

section \<open>The synchronous mode\<close>

text \<open>
  C38: In the synchronous mode, which is what clients get, the framework's lines are printed at once
  (up to a NUL), but the application's lines stay in a buffer that nothing empties: they are never
  printed or written, and \<open>flushAndStop\<close> leaves them there.
\<close>

theorem sync_log_drops_application_lines:
  assumes "SyncTick \<notin> set ops"
  shows "let lg = run_steps log_step (the (GetGlobalLogger disk (Some Config_client) None)) ops
     in flushAndStop can_open dates app_dates lg = Some lg
      \<and> lg_printed lg = concat (map (takeWhile (\<lambda>c. c \<noteq> 0)) (concat (map (rpc_line Debug) ops)))
      \<and> lg_app_buffer lg = concat (map (app_line Debug) ops)
      \<and> m_async_logger lg = None \<and> m_async_app_logger lg = None"
proof -
  have run: "m_log_type (run_steps log_step lg ops) = SyncLog
      \<and> lg_printed (run_steps log_step lg ops)
          = lg_printed lg @ concat (map (takeWhile (\<lambda>c. c \<noteq> 0)) (concat (map (rpc_line Debug) ops)))
      \<and> lg_app_buffer (run_steps log_step lg ops) = lg_app_buffer lg @ concat (map (app_line Debug) ops)
      \<and> m_async_logger (run_steps log_step lg ops) = None \<and> m_async_app_logger (run_steps log_step lg ops) = None"
    if "m_log_type lg = SyncLog" "m_set_level lg = Debug" "m_async_logger lg = None" "m_async_app_logger lg = None"
    for lg
    using that assms
  proof (induction ops arbitrary: lg)
    case (Cons op ops)
    then show ?case
      by (cases op) (auto simp: LOG_def APPLOG_def pushLog_def pushAppLog_def with_round_def)
  qed simp
  have new: "the (GetGlobalLogger disk (Some Config_client) None)
      = Logger_new disk Config_client Debug SyncLog"
    by (simp add: GetGlobalLogger_def Config_client_def logLevelFromString_def)
  show ?thesis
    using run [of "Logger_new disk Config_client Debug SyncLog"]
    by (simp add: new Logger_new_def Let_def flushAndStop_def)
qed

theorem sync_log_drops_application_lines_witness:
  "lg_app_buffer (run_steps log_step (the (GetGlobalLogger (\<lambda>_. []) (Some Config_client) None)) [AppLog Error [65]]) = [[65]]"
  using sync_log_drops_application_lines [of "[AppLog Error [65]]" "\<lambda>_. []"]
  by (simp add: Let_def less_eq_LogLevel_def)

end
