(* ===== verification/StringCoder.thy ===== *)
theory StringCoder
  imports TcpBuffer TinyPBProtocol
begin

text \<open>
  The coder for plain strings (\<open>include/rapidrpc/net/coder/string_coder.h\<close>), the second implementation
  of \<open>AbstractCoder\<close>.  It has no frames: it writes the bytes of the strings, and takes everything the
  buffer holds as one message.
\<close>

section \<open>Model\<close>

definition StringProtocol_new :: "cstring \<Rightarrow> abstract_protocol" where
  "StringProtocol_new str = StringProtocol [] str"

fun cast_String :: "abstract_protocol \<Rightarrow> cstring option" where
  "cast_String (StringProtocol _ str) = Some str"
| "cast_String (TinyPB _) = None"

text \<open>The result of the cast is used without a check.\<close>

fun string_encode :: "abstract_protocol list \<Rightarrow> tcp_buffer \<Rightarrow> fault + tcp_buffer" where
  "string_encode [] out_buffer = Inr out_buffer"
| "string_encode (message # messages) out_buffer =
     (case cast_String message of
        None \<Rightarrow> Inl NullPointer
      | Some str \<Rightarrow> string_encode messages (fst (writeToBuffer out_buffer str)))"

text \<open>The vector is created with as many zero bytes as can be read, which is also its capacity.\<close>

definition string_decode :: "tcp_buffer \<Rightarrow> fault + abstract_protocol list \<times> tcp_buffer" where
  "string_decode in_buffer =
     (if readAvailable in_buffer < 0 then Inl LengthError
      else
        let str = replicate (nat (readAvailable in_buffer)) 0;
            (s, in_buffer, _) = readFromBuffer in_buffer str (int (length str))
        in Inr ([StringProtocol (ascii ''12345'') s], in_buffer))"

section \<open>Properties\<close>

lemma string_encode_content:
  "wf_buffer b \<Longrightarrow>
     (\<exists>b'. string_encode (map StringProtocol_new strs) b = Inr b' \<and> wf_buffer b' \<and> content b' = content b @ concat strs)"
proof (induction strs arbitrary: b)
  case (Cons s strs)
  have "wf_buffer (fst (writeToBuffer b s))" using Cons.prems by (rule wf_writeToBuffer)
  from Cons.IH [OF this] Cons.prems show ?case
    by (auto simp: StringProtocol_new_def content_writeToBuffer)
qed simp

lemma string_decode_content:
  assumes "wf_buffer b"
  shows "\<exists>b'. string_decode b = Inr ([StringProtocol (ascii ''12345'') (content b)], b') \<and> wf_buffer b' \<and> content b' = []"
proof -
  have n: "0 \<le> readAvailable b" "int (length (content b)) = readAvailable b"
    using wf_buffer_bounds(3) [OF assms] length_content [OF assms] by simp_all
  show ?thesis
  proof (cases "readAvailable b = 0")
    case True
    then have "content b = []" using n(2) by simp
    with True assms show ?thesis by (simp add: string_decode_def readFromBuffer_empty)
  next
    case False
    then have len: "0 < readAvailable b" using n(1) by simp
    from readFromBuffer_some [OF assms len len, of "replicate (nat (readAvailable b)) 0"] len n show ?thesis
      by (cases "readFromBuffer b (replicate (nat (readAvailable b)) 0) (readAvailable b)")
        (auto simp: string_decode_def Let_def)
  qed
qed

text \<open>
  The string coder loses no byte but keeps no message boundary: strings that are encoded one after
  the other come out as a single message with the constant id \<open>12345\<close>, and an empty buffer decodes to
  an empty message.  Handing the encoder a message of the other protocol uses a null pointer.
\<close>

theorem string_coder_merges_messages:
  assumes "wf_buffer b" and "content b = []"
  shows "(\<exists>b' b''. string_encode (map StringProtocol_new strs) b = Inr b'
       \<and> string_decode b' = Inr ([StringProtocol (ascii ''12345'') (concat strs)], b'')
       \<and> wf_buffer b'' \<and> content b'' = [])
     \<and> string_encode (map StringProtocol_new strs @ TinyPB m # rest) b = Inl NullPointer"
proof -
  obtain b' where b': "string_encode (map StringProtocol_new strs) b = Inr b'" "wf_buffer b'" "content b' = concat strs"
    using string_encode_content [OF assms(1), of strs] assms(2) by auto
  have append: "string_encode (xs @ ys) c = (case string_encode xs c of Inl e \<Rightarrow> Inl e | Inr c' \<Rightarrow> string_encode ys c')"
    for xs ys c by (induction xs arbitrary: c) (auto split: option.split)
  show ?thesis
    using string_decode_content [OF b'(2)] b' by (auto simp: append)
qed

theorem string_coder_merges_messages_witness:
  "\<exists>b' b''. string_encode (map StringProtocol_new [[65], [66]]) (TcpBuffer_new [0, 0, 0, 0]) = Inr b'
     \<and> string_decode b' = Inr ([StringProtocol (ascii ''12345'') [65, 66]], b'')"
  using string_coder_merges_messages [OF wf_TcpBuffer_new content_TcpBuffer_new, of "[[65], [66]]" "[0, 0, 0, 0]",
      THEN conjunct1]
  by (auto simp del: string_encode.simps)

end
