(* ===== verification/ThreadGroup.thy ===== *)
theory ThreadGroup
  imports IOThread
begin

text \<open>
  A whole \<open>IOThreadGroup\<close> (\<open>src/net/io_thread_group.cc\<close>): the loops of its constructor, \<open>start\<close>, \<open>join\<close>
  and destructor over the members, as steps of the owner that interleave with the steps of the member
  threads and with other threads stopping a member's loop.
\<close>

section \<open>Model\<close>

text \<open>Where the owner stands: in one of the four loops at an index, between two calls, or past the
  destructor.\<close>

datatype group_pc =
    Constructing nat
  | Idle
  | Starting nat
  | JoiningAll nat
  | Destroying nat
  | Gone

record thread_group =
  group_pc :: group_pc
  members :: "io_thread list"

definition ThreadGroup_new :: "nat \<Rightarrow> thread_group" where
  "ThreadGroup_new sz = \<lparr>group_pc = Constructing 0, members = replicate sz IOThread_new\<rparr>"

definition set_member :: "nat \<Rightarrow> io_thread \<Rightarrow> thread_group \<Rightarrow> thread_group" where
  "set_member i s g = g\<lparr>members := (members g)[i := s]\<rparr>"

text \<open>\<open>new IOThread()\<close> returns when the member is ready.\<close>

definition group_construct :: "nat \<Rightarrow> thread_group \<Rightarrow> thread_group list" where
  "group_construct i g =
     (if i < length (members g)
      then (if owner (members g ! i) = Ready then [g\<lparr>group_pc := Constructing (Suc i)\<rparr>]
            else map (\<lambda>s. set_member i s g) (owner_step (members g ! i)))
      else [g\<lparr>group_pc := Idle\<rparr>])"

definition group_start :: "nat \<Rightarrow> thread_group \<Rightarrow> thread_group list" where
  "group_start i g =
     (if i < length (members g)
      then [(set_member i (IOThread_start (members g ! i)) g)\<lparr>group_pc := Starting (Suc i)\<rparr>]
      else [g\<lparr>group_pc := Idle\<rparr>])"

definition group_join :: "nat \<Rightarrow> thread_group \<Rightarrow> thread_group list" where
  "group_join i g =
     (if i < length (members g)
      then (if thread (members g ! i) = Exited then [g\<lparr>group_pc := JoiningAll (Suc i)\<rparr>] else [])
      else [g\<lparr>group_pc := Idle\<rparr>])"

text \<open>\<open>delete thread\<close> returns when the member's destructor has.\<close>

definition group_destroy :: "nat \<Rightarrow> thread_group \<Rightarrow> thread_group list" where
  "group_destroy i g =
     (if i < length (members g)
      then (case owner (members g ! i) of
              Ready \<Rightarrow> [set_member i (IOThread_begin_destroy (members g ! i)) g]
            | Destroyed \<Rightarrow> [g\<lparr>group_pc := Destroying (Suc i)\<rparr>]
            | _ \<Rightarrow> map (\<lambda>s. set_member i s g) (owner_step (members g ! i)))
      else [g\<lparr>group_pc := Gone\<rparr>])"

definition group_owner_step :: "thread_group \<Rightarrow> thread_group list" where
  "group_owner_step g =
     (case group_pc g of
        Constructing i \<Rightarrow> group_construct i g
      | Idle \<Rightarrow> [g\<lparr>group_pc := Starting 0\<rparr>, g\<lparr>group_pc := JoiningAll 0\<rparr>, g\<lparr>group_pc := Destroying 0\<rparr>]
      | Starting i \<Rightarrow> group_start i g
      | JoiningAll i \<Rightarrow> group_join i g
      | Destroying i \<Rightarrow> group_destroy i g
      | Gone \<Rightarrow> [])"

inductive group_step :: "thread_group \<Rightarrow> thread_group \<Rightarrow> bool" where
  owner: "g' \<in> set (group_owner_step g) \<Longrightarrow> group_step g g'"
| thread: "i < length (members g) \<Longrightarrow> s \<in> set (thread_step (members g ! i)) \<Longrightarrow>
     group_step g (set_member i s g)"
| stop: "i < length (members g) \<Longrightarrow> has_event_loop (members g ! i) \<Longrightarrow> \<not> loop_stopped (members g ! i) \<Longrightarrow>
     group_step g (set_member i ((members g ! i)\<lparr>loop_stopped := True\<rparr>) g)"

inductive_cases group_stepE: "group_step g g'"

inductive group_reachable :: "nat \<Rightarrow> thread_group \<Rightarrow> bool" for sz where
  init: "group_reachable sz (ThreadGroup_new sz)"
| step: "group_reachable sz g \<Longrightarrow> group_step g g' \<Longrightarrow> group_reachable sz g'"

section \<open>Invariant\<close>

text \<open>Every member goes through states of its own handshake, and the owner's place tells which of them
  are constructed and which destroyed.\<close>

fun phase :: "group_pc \<Rightarrow> nat \<Rightarrow> owner_pc \<Rightarrow> bool" where
  "phase (Constructing i) j p \<longleftrightarrow>
     (if j < i then p = Ready else if j = i then p \<in> {Spawning, WaitingInit, Ready} else p = Spawning)"
| "phase (Destroying i) j p \<longleftrightarrow>
     (if j < i then p = Destroyed else if j = i then p \<in> {Ready, Joining, Destroyed} else p = Ready)"
| "phase Gone j p \<longleftrightarrow> p = Destroyed"
| "phase _ j p \<longleftrightarrow> p = Ready"

definition group_inv :: "nat \<Rightarrow> thread_group \<Rightarrow> bool" where
  "group_inv sz g \<longleftrightarrow> length (members g) = sz
     \<and> (\<forall>j < sz. io_reachable (members g ! j) \<and> phase (group_pc g) j (owner (members g ! j)))
     \<and> (case group_pc g of Constructing i \<Rightarrow> i \<le> sz | Starting i \<Rightarrow> i \<le> sz | JoiningAll i \<Rightarrow> i \<le> sz
         | Destroying i \<Rightarrow> i \<le> sz | _ \<Rightarrow> True)"

lemma set_member_facts [simp]:
  "group_pc (set_member i s g) = group_pc g" "members (set_member i s g) = (members g)[i := s]"
  "set_member i s (g\<lparr>group_pc := p\<rparr>) = (set_member i s g)\<lparr>group_pc := p\<rparr>"
  by (simp_all add: set_member_def)

lemma group_inv_new: "group_inv sz (ThreadGroup_new sz)"
  by (simp add: group_inv_def ThreadGroup_new_def io_reachable.init) (simp add: IOThread_new_def)

lemma owner_thread_step: "s' \<in> set (thread_step s) \<Longrightarrow> owner s' = owner s"
  by (auto simp: thread_step_def split: thread_pc.splits if_splits)

lemma starts_thread_step: "s' \<in> set (thread_step s) \<Longrightarrow> starts s' = starts s"
  by (auto simp: thread_step_def split: thread_pc.splits if_splits)

text \<open>One member takes a step of its own that fits the phase.\<close>

lemma group_inv_member:
  assumes "group_inv sz g" and "i < sz" and "io_step (members g ! i) s" and "phase (group_pc g) i (owner s)"
  shows "group_inv sz (set_member i s g)"
  using assms io_reachable.step by (auto simp: group_inv_def nth_list_update)

lemma io_start_step: "owner s = Ready \<Longrightarrow> io_step s (IOThread_start s)"
  by (rule io_step.owner) (simp add: owner_step_def)

lemma io_begin_destroy_step: "owner s = Ready \<Longrightarrow> io_step s (IOThread_begin_destroy s)"
  by (rule io_step.owner) (simp add: owner_step_def)

lemma group_inv_owner:
  assumes inv: "group_inv sz g" and mem: "g' \<in> set (group_owner_step g)"
  shows "group_inv sz g'"
proof (cases "group_pc g")
  case (Constructing i)
  show ?thesis
  proof (cases "i < sz")
    case False
    with Constructing inv have "i = sz" by (simp add: group_inv_def)
    with Constructing inv mem show ?thesis
      by (auto simp: group_owner_step_def group_construct_def group_inv_def)
  next
    case True
    show ?thesis
    proof (cases "owner (members g ! i) = Ready")
      case ready: True
      with True Constructing inv mem have g': "g' = g\<lparr>group_pc := Constructing (Suc i)\<rparr>"
        by (simp add: group_owner_step_def group_construct_def group_inv_def)
      have "phase (Constructing (Suc i)) j (owner (members g ! j))" if "j < sz" for j
        using inv that Constructing ready by (auto simp: group_inv_def less_Suc_eq split: if_splits)
      with inv True show ?thesis by (simp add: g' group_inv_def del: phase.simps)
    next
      case False
      with True Constructing inv mem obtain s where s: "s \<in> set (owner_step (members g ! i))" "g' = set_member i s g"
        by (auto simp: group_owner_step_def group_construct_def group_inv_def)
      have "owner (members g ! i) \<in> {Spawning, WaitingInit}"
        using inv True Constructing False by (auto simp: group_inv_def)
      then have "owner s \<in> {WaitingInit, Ready}" using s(1) by (auto simp: owner_step_def split: if_splits)
      with group_inv_member [OF inv True io_step.owner [OF s(1)]] Constructing s(2) show ?thesis by auto
    qed
  qed
next
  case Idle
  with inv mem show ?thesis by (auto simp: group_owner_step_def group_inv_def)
next
  case (Starting i)
  show ?thesis
  proof (cases "i < sz")
    case True
    then have ready: "owner (members g ! i) = Ready" using inv Starting by (simp add: group_inv_def)
    have "group_inv sz (set_member i (IOThread_start (members g ! i)) g)"
      using group_inv_member [OF inv True io_start_step [OF ready]] Starting ready
      by (simp add: IOThread_start_def)
    with True Starting inv mem show ?thesis
      by (simp add: group_owner_step_def group_start_def) (simp add: group_inv_def)
  next
    case False
    with Starting inv mem show ?thesis by (simp add: group_owner_step_def group_start_def group_inv_def)
  qed
next
  case (JoiningAll i)
  with inv mem show ?thesis
    by (auto simp: group_owner_step_def group_join_def group_inv_def split: if_splits)
next
  case (Destroying i)
  show ?thesis
  proof (cases "i < sz")
    case False
    with Destroying inv have "i = sz" by (simp add: group_inv_def)
    with Destroying inv mem show ?thesis
      by (auto simp: group_owner_step_def group_destroy_def group_inv_def)
  next
    case True
    then have "owner (members g ! i) \<in> {Ready, Joining, Destroyed}"
      using inv Destroying by (auto simp: group_inv_def)
    then consider "owner (members g ! i) = Ready" | "owner (members g ! i) = Joining"
      | "owner (members g ! i) = Destroyed" by blast
    then show ?thesis
    proof cases
      case 1
      with True Destroying inv mem have "g' = set_member i (IOThread_begin_destroy (members g ! i)) g"
        by (simp add: group_owner_step_def group_destroy_def group_inv_def)
      with group_inv_member [OF inv True io_begin_destroy_step [OF 1]] Destroying show ?thesis
        by (simp add: IOThread_begin_destroy_def)
    next
      case 2
      with True Destroying inv mem obtain s where s: "s \<in> set (owner_step (members g ! i))" "g' = set_member i s g"
        by (auto simp: group_owner_step_def group_destroy_def group_inv_def)
      then have "owner s = Destroyed" using 2 by (auto simp: owner_step_def split: if_splits)
      with group_inv_member [OF inv True io_step.owner [OF s(1)]] Destroying s(2) show ?thesis by simp
    next
      case 3
      with True Destroying inv mem have g': "g' = g\<lparr>group_pc := Destroying (Suc i)\<rparr>"
        by (simp add: group_owner_step_def group_destroy_def group_inv_def)
      have "phase (Destroying (Suc i)) j (owner (members g ! j))" if "j < sz" for j
        using inv that Destroying 3 by (auto simp: group_inv_def less_Suc_eq split: if_splits)
      with inv True show ?thesis by (simp add: g' group_inv_def del: phase.simps)
    qed
  qed
next
  case Gone
  with mem show ?thesis by (simp add: group_owner_step_def)
qed

lemma group_inv_step:
  assumes "group_inv sz g" and "group_step g g'"
  shows "group_inv sz g'"
proof -
  from assms(2) consider (owner) "g' \<in> set (group_owner_step g)"
    | (thread) i s where "g' = set_member i s g" "i < length (members g)" "s \<in> set (thread_step (members g ! i))"
    | (stop) i where "g' = set_member i ((members g ! i)\<lparr>loop_stopped := True\<rparr>) g" "i < length (members g)"
        "has_event_loop (members g ! i)" "\<not> loop_stopped (members g ! i)"
    by (elim group_stepE) blast+
  then show ?thesis
  proof cases
    case owner
    then show ?thesis using group_inv_owner [OF assms(1)] by blast
  next
    case (thread i s)
    have "i < sz" "phase (group_pc g) i (owner (members g ! i))"
      using assms(1) thread(2) by (simp_all add: group_inv_def)
    with group_inv_member [OF assms(1) _ io_step.thread [OF thread(3)]] owner_thread_step [OF thread(3)] thread(1)
    show ?thesis by simp
  next
    case (stop i)
    have "i < sz" "phase (group_pc g) i (owner (members g ! i))"
      using assms(1) stop(2) by (simp_all add: group_inv_def)
    with group_inv_member [OF assms(1) _ io_step.stop [OF stop(3,4)]] stop(1) show ?thesis by simp
  qed
qed

lemma group_reachable_inv: "group_reachable sz g \<Longrightarrow> group_inv sz g"
  by (induction rule: group_reachable.induct) (auto intro: group_inv_new group_inv_step)

section \<open>Destruction\<close>

lemma set_member_same: "m = members g ! i \<Longrightarrow> set_member i m g = g"
  by (simp add: set_member_def)

lemma set_member_twice [simp]: "set_member i s (set_member i s' g) = set_member i s g"
  by (simp add: set_member_def)

text \<open>While the destructor of a member waits, the steps of that member are steps of the group.\<close>

lemma lift_join:
  assumes "io_step\<^sup>*\<^sup>* (members g ! i) m" and "owner (members g ! i) = Joining" and "loop_stopped (members g ! i)"
    and "i < length (members g)" and "group_pc g = Destroying i"
  shows "group_step\<^sup>*\<^sup>* g (set_member i m g) \<and> owner m \<in> {Joining, Destroyed} \<and> loop_stopped m"
  using assms(1)
proof (induction rule: rtranclp_induct)
  case base
  with assms(2,3) show ?case by (simp add: set_member_same)
next
  case (step y z)
  let ?g = "set_member i y g"
  have y: "members ?g ! i = y" "i < length (members ?g)" using assms(4) by simp_all
  from step.hyps(2) consider (owner) "z \<in> set (owner_step y)" | (thread) "z \<in> set (thread_step y)"
    | (stop) "\<not> loop_stopped y" by (auto elim: io_stepE)
  then have "group_step ?g (set_member i z ?g) \<and> owner z \<in> {Joining, Destroyed} \<and> loop_stopped z"
  proof cases
    case owner
    then have "owner y = Joining" "owner z = Destroyed" "loop_stopped z"
      using step.IH by (auto simp: owner_step_def split: if_splits)
    with owner y assms(5) show ?thesis
      by (auto intro!: group_step.owner simp: group_owner_step_def group_destroy_def)
  next
    case thread
    have "loop_stopped z = loop_stopped y" using thread by (auto simp: thread_step_def split: thread_pc.splits if_splits)
    with thread y group_step.thread [of i ?g z] owner_thread_step [OF thread] step.IH show ?thesis by simp
  qed (use step.IH in simp)
  with step.IH show ?case by (auto intro: rtranclp.rtrancl_into_rtrancl)
qed

lemma destroy_one:
  assumes inv: "group_inv sz g" and pc: "group_pc g = Destroying i" and i: "i < sz" and started: "0 < starts (members g ! i)"
  shows "\<exists>m. group_step\<^sup>*\<^sup>* g ((set_member i m g)\<lparr>group_pc := Destroying (Suc i)\<rparr>)"
proof -
  have len: "i < length (members g)" using inv i by (simp add: group_inv_def)
  have finish: "group_step\<^sup>*\<^sup>* h ((set_member i m h)\<lparr>group_pc := Destroying (Suc i)\<rparr>)"
    if "members h ! i = m" "owner m = Destroyed" "group_pc h = Destroying i" "i < length (members h)" for h m
    using that set_member_same [of m h i]
    by (auto intro!: r_into_rtranclp group_step.owner simp: group_owner_step_def group_destroy_def)
  have joining: "\<exists>m. group_step\<^sup>*\<^sup>* h ((set_member i m h)\<lparr>group_pc := Destroying (Suc i)\<rparr>)"
    if h: "io_reachable (members h ! i)" "owner (members h ! i) = Joining" "0 < starts (members h ! i)"
      "group_pc h = Destroying i" "i < length (members h)" for h
  proof -
    obtain m where m: "io_step\<^sup>*\<^sup>* (members h ! i) m" "owner m = Destroyed"
      using io_thread_destruction [OF h(1,2)] h(3) by auto
    have "loop_stopped (members h ! i)" using io_reachable_inv [OF h(1)] h(2) by (simp add: io_inv_def)
    with lift_join [OF m(1) h(2) _ h(5,4)] have "group_step\<^sup>*\<^sup>* h (set_member i m h)" by simp
    moreover have "group_step\<^sup>*\<^sup>* (set_member i m h) ((set_member i m h)\<lparr>group_pc := Destroying (Suc i)\<rparr>)"
      using finish [of "set_member i m h" m] h(4,5) m(2) by simp
    ultimately show ?thesis by (auto intro: rtranclp_trans)
  qed
  have "owner (members g ! i) \<in> {Ready, Joining, Destroyed}" "io_reachable (members g ! i)"
    using inv i pc by (auto simp: group_inv_def)
  then consider "owner (members g ! i) = Ready" | "owner (members g ! i) = Joining"
    | "owner (members g ! i) = Destroyed" by blast
  then show ?thesis
  proof cases
    case 1
    let ?h = "set_member i (IOThread_begin_destroy (members g ! i)) g"
    have "group_step g ?h"
      using 1 pc len by (auto intro!: group_step.owner simp: group_owner_step_def group_destroy_def)
    moreover have "io_reachable (members ?h ! i)"
      using io_reachable.step [OF \<open>io_reachable (members g ! i)\<close> io_begin_destroy_step [OF 1]] len by simp
    then obtain m where "group_step\<^sup>*\<^sup>* ?h ((set_member i m ?h)\<lparr>group_pc := Destroying (Suc i)\<rparr>)"
      using joining [of ?h] len pc started by (auto simp: IOThread_begin_destroy_def)
    ultimately show ?thesis by (auto intro: converse_rtranclp_into_rtranclp)
  next
    case 2
    with joining [of g] pc len started \<open>io_reachable (members g ! i)\<close> show ?thesis by blast
  next
    case 3
    with finish [of g "members g ! i"] pc len show ?thesis by blast
  qed
qed

lemma group_inv_steps: "group_step\<^sup>*\<^sup>* g g' \<Longrightarrow> group_inv sz g \<Longrightarrow> group_inv sz g'"
  by (induction rule: rtranclp_induct) (auto intro: group_inv_step)

lemma destroy_rest:
  "group_inv sz g \<Longrightarrow> group_pc g = Destroying i \<Longrightarrow> \<forall>j < sz. i \<le> j \<longrightarrow> 0 < starts (members g ! j) \<Longrightarrow>
     \<exists>g'. group_step\<^sup>*\<^sup>* g g' \<and> group_pc g' = Gone"
proof (induction "sz - i" arbitrary: i g)
  case 0
  then have "\<not> i < length (members g)" by (simp add: group_inv_def)
  with 0 show ?case
    by (intro exI [of _ "g\<lparr>group_pc := Gone\<rparr>"])
      (auto intro!: r_into_rtranclp group_step.owner simp: group_owner_step_def group_destroy_def)
next
  case (Suc k)
  then have i: "i < sz" by simp
  then have st: "0 < starts (members g ! i)" using Suc.prems(3) by simp
  from destroy_one [OF Suc.prems(1,2) i st] obtain m where
    m: "group_step\<^sup>*\<^sup>* g ((set_member i m g)\<lparr>group_pc := Destroying (Suc i)\<rparr>)" ..
  let ?h = "(set_member i m g)\<lparr>group_pc := Destroying (Suc i)\<rparr>"
  have "group_inv sz ?h" by (rule group_inv_steps [OF m Suc.prems(1)])
  moreover have "k = sz - Suc i" using Suc.hyps(2) by simp
  moreover have "\<forall>j < sz. Suc i \<le> j \<longrightarrow> 0 < starts (members ?h ! j)"
    using Suc.prems(3) by (simp add: nth_list_update)
  ultimately obtain g' where "group_step\<^sup>*\<^sup>* ?h g'" "group_pc g' = Gone"
    using Suc.hyps(1) [of "Suc i" ?h] by (auto simp del: set_member_facts)
  with rtranclp_trans [OF m] show ?case by blast
qed

text \<open>A member that was never started holds the destructor up.\<close>

definition held_up :: "nat \<Rightarrow> nat \<Rightarrow> thread_group \<Rightarrow> bool" where
  "held_up sz j g \<longleftrightarrow> group_inv sz g \<and> j < sz \<and> starts (members g ! j) = 0
     \<and> (\<exists>i \<le> j. group_pc g = Destroying i)"

lemma held_up_step:
  assumes "held_up sz j g" and "group_step g g'"
  shows "held_up sz j g'"
proof -
  obtain i where i: "i \<le> j" "group_pc g = Destroying i" "j < sz" "starts (members g ! j) = 0" and inv: "group_inv sz g"
    using assms(1) by (auto simp: held_up_def)
  have len: "length (members g) = sz" using inv by (simp add: group_inv_def)
  have alive: "owner (members g ! j) \<noteq> Destroyed"
  proof
    assume d: "owner (members g ! j) = Destroyed"
    have "io_inv (members g ! j)" using inv i(3) io_reachable_inv by (simp add: group_inv_def)
    with d i(4) show False by (auto simp: io_inv_def split: if_splits)
  qed
  have inv': "group_inv sz g'" by (rule group_inv_step [OF inv assms(2)])
  from assms(2) consider (owner) "g' \<in> set (group_owner_step g)"
    | (thread) k s where "g' = set_member k s g" "k < sz" "s \<in> set (thread_step (members g ! k))"
    | (stop) k where "g' = set_member k ((members g ! k)\<lparr>loop_stopped := True\<rparr>) g" "k < sz"
    using len by (elim group_stepE) auto
  then show ?thesis
  proof cases
    case owner
    then have "g' \<in> set (group_destroy i g)" using i(2) by (simp add: group_owner_step_def)
    moreover have "i < length (members g)" using i len by simp
    ultimately consider s where "g' = set_member i s g" "starts s = starts (members g ! i)"
      | "g' = g\<lparr>group_pc := Destroying (Suc i)\<rparr>" "owner (members g ! i) = Destroyed"
      using inv i by (cases "owner (members g ! i)")
        (auto simp: group_destroy_def IOThread_begin_destroy_def owner_step_def group_inv_def split: if_splits)
    then show ?thesis
    proof cases
      case 1
      with i len have "starts (members g' ! j) = 0" by (cases "i = j") simp_all
      with 1 i inv' show ?thesis by (auto simp: held_up_def)
    next
      case 2
      with alive i(1) have "Suc i \<le> j" by (metis le_antisym not_less_eq_eq)
      with 2 i inv' show ?thesis by (auto simp: held_up_def)
    qed
  next
    case (thread k s)
    then have "starts (members g' ! j) = 0"
      using i len starts_thread_step [OF thread(3)] by (cases "k = j") simp_all
    with thread i inv' show ?thesis by (auto simp: held_up_def)
  next
    case (stop k)
    then have "starts (members g' ! j) = 0" using i len by (cases "k = j") simp_all
    with stop i inv' show ?thesis by (auto simp: held_up_def)
  qed
qed

lemma held_up_steps: "group_step\<^sup>*\<^sup>* g g' \<Longrightarrow> held_up sz j g \<Longrightarrow> held_up sz j g'"
  by (induction rule: rtranclp_induct) (auto intro: held_up_step)

section \<open>Properties\<close>

text \<open>
  C24: Once the group is constructed and until its destructor runs, in whatever order the owner and the
  threads proceed, every \<open>getIOThread\<close> returns a thread that has its event loop and its id, so the
  server can always register a connection with it; and that thread runs its loop only after it was
  started.
\<close>

theorem group_serves_connections:
  assumes "group_reachable n g" and "0 < n" and "group_pc g = Idle \<or> group_pc g = Starting i \<or> group_pc g = JoiningAll i"
  shows "\<exists>t g'. getIOThread (group_at n k) = Inr (t, g') \<and> t < length (members g)
     \<and> has_event_loop (members g ! t) \<and> has_tid (members g ! t)
     \<and> (thread (members g ! t) = Looping \<longrightarrow> 0 < starts (members g ! t))"
proof -
  have inv: "group_inv n g" using group_reachable_inv [OF assms(1)] .
  have t: "k mod n < n" using assms(2) by simp
  then have "io_inv (members g ! (k mod n))" "owner (members g ! (k mod n)) = Ready"
    using inv assms(3) io_reachable_inv by (auto simp: group_inv_def)
  then have "has_event_loop (members g ! (k mod n))" "has_tid (members g ! (k mod n))"
    "thread (members g ! (k mod n)) = Looping \<longrightarrow> 0 < starts (members g ! (k mod n))"
    by (auto simp: io_inv_def split: if_splits)
  with getIOThread_at [OF assms(2), of k] inv t show ?thesis by (auto simp: group_inv_def)
qed

definition single :: "group_pc \<Rightarrow> thread_group" where
  "single pc = \<lparr>group_pc = pc, members = [parked]\<rparr>"

lemma reach_owner: "group_reachable n g \<Longrightarrow> g' \<in> set (group_owner_step g) \<Longrightarrow> group_reachable n g'"
  by (blast intro: group_reachable.step group_step.owner)

lemma reach_first:
  "group_reachable n g \<Longrightarrow> members g = [m] \<Longrightarrow> s \<in> set (thread_step m) \<Longrightarrow> group_reachable n (g\<lparr>members := [s]\<rparr>)"
  using group_reachable.step [of n g "set_member 0 s g"] group_step.thread [of 0 g s] by (simp add: set_member_def)

lemma single_reachable: "group_reachable 1 (single Idle)" "group_reachable 1 (single (Destroying 0))"
proof -
  let ?m1 = "IOThread_new\<lparr>owner := WaitingInit, thread := CreatingLoop\<rparr>"
  let ?m2 = "?m1\<lparr>thread := PostingInit, has_event_loop := True, has_tid := True\<rparr>"
  let ?m3 = "?m2\<lparr>thread := WaitingStart, m_init_semaphore := 1\<rparr>"
  let ?g = "\<lambda>m. \<lparr>group_pc = Constructing 0, members = [m]\<rparr>"
  have 1: "group_reachable 1 (?g ?m1)"
    by (rule reach_owner [OF group_reachable.init])
      (simp add: ThreadGroup_new_def group_owner_step_def group_construct_def owner_step_def IOThread_new_def set_member_def)
  have 2: "group_reachable 1 (?g ?m2)"
    using reach_first [OF 1, of ?m1 ?m2] by (simp add: thread_step_def IOThread_new_def)
  have 3: "group_reachable 1 (?g ?m3)"
    using reach_first [OF 2, of ?m2 ?m3] by (simp add: thread_step_def IOThread_new_def)
  have 4: "group_reachable 1 (?g parked)"
    by (rule reach_owner [OF 3])
      (simp add: group_owner_step_def group_construct_def owner_step_def IOThread_new_def set_member_def parked_def)
  have 5: "group_reachable 1 (single (Constructing 1))"
    by (rule reach_owner [OF 4]) (simp add: group_owner_step_def group_construct_def single_def parked_def)
  show "group_reachable 1 (single Idle)"
    by (rule reach_owner [OF 5]) (simp add: group_owner_step_def group_construct_def single_def)
  then show "group_reachable 1 (single (Destroying 0))"
    by (rule reach_owner) (simp add: group_owner_step_def single_def)
qed

theorem group_serves_connections_witness:
  "\<exists>t g'. getIOThread (group_at 1 3) = Inr (t, g') \<and> has_event_loop ([parked] ! t)"
  using group_serves_connections [OF single_reachable(1), of 0 3] by (auto simp: single_def)

text \<open>
  C40: Destroying a group whose members were all started can always finish, whatever was done to it
  before: each member's loop is stopped and its thread joined in turn.  If a member that is still to be
  destroyed was never started, the destructor never returns, which is what the destructor of a server
  does that was made but not started.
\<close>

theorem group_destruction:
  assumes "group_reachable n g" and "group_pc g = Destroying i"
  shows "((\<forall>j < n. i \<le> j \<longrightarrow> 0 < starts (members g ! j)) \<longrightarrow> (\<exists>g'. group_step\<^sup>*\<^sup>* g g' \<and> group_pc g' = Gone))
     \<and> ((\<exists>j < n. i \<le> j \<and> starts (members g ! j) = 0) \<longrightarrow> (\<forall>g'. group_step\<^sup>*\<^sup>* g g' \<longrightarrow> group_pc g' \<noteq> Gone))"
proof (intro conjI impI allI)
  have inv: "group_inv n g" using group_reachable_inv [OF assms(1)] .
  show "\<exists>g'. group_step\<^sup>*\<^sup>* g g' \<and> group_pc g' = Gone" if "\<forall>j < n. i \<le> j \<longrightarrow> 0 < starts (members g ! j)"
    using destroy_rest [OF inv assms(2) that] .
  fix g'
  assume "\<exists>j < n. i \<le> j \<and> starts (members g ! j) = 0" and run: "group_step\<^sup>*\<^sup>* g g'"
  then obtain j where "held_up n j g" using inv assms(2) by (auto simp: held_up_def)
  from held_up_steps [OF run this] show "group_pc g' \<noteq> Gone" by (auto simp: held_up_def)
qed

theorem group_destruction_witness:
  "\<nexists>g'. group_step\<^sup>*\<^sup>* (single (Destroying 0)) g' \<and> group_pc g' = Gone"
  using group_destruction [OF single_reachable(2), of 0] by (auto simp: single_def parked_def IOThread_new_def)

end
