(* ===== verification/ClientLoop.thy ===== *)
theory ClientLoop
  imports RpcChannel
begin

text \<open>
  The running client: \<open>CallMethod\<close> ends in \<open>TcpClient::connect\<close>, which runs the loop of its thread unless
  it is running already, so the call blocks until the loop is stopped.  Here the loop's handlers are
  bound to the functions of \<open>RpcChannel\<close> and run by the loop of \<open>EventLoop\<close>; \<open>CALL_RPC\<close> is the macro of
  \<open>rpc_channel.h\<close>.
\<close>

section \<open>Handlers\<close>

text \<open>What the system calls of the handlers return in one round.\<close>

record client_answers =
  ca_read :: "sock_read list"
  ca_write :: "sock_write list"
  ca_connect :: connect_result

text \<open>\<open>None\<close> when the handler does not return: the decoder's loop, the loop over the write callbacks
  or the retry of the timer's \<open>read\<close> may run for ever, and an exception leaves the loop.  A client has
  no acceptor.\<close>

definition run_client_handler :: "'pb rpc_env \<Rightarrow> client_answers \<Rightarrow> rpc_closure handler \<Rightarrow> 'pb client
    \<Rightarrow> 'pb client option" where
  "run_client_handler env a h c =
     (case h of
        OnRead _ \<Rightarrow> (case onRead no_dispatch (run_message_cb env) (ca_read a) c of
                       Some (Inr c') \<Rightarrow> Some c' | _ \<Rightarrow> None)
      | OnWrite _ \<Rightarrow> onWrite (run_message_cb env) (ca_write a) c
      | OnTimer \<Rightarrow> client_onTimer c
      | OnConnect k \<Rightarrow> Some (on_connect env (ca_connect a) k c)
      | OnWakeup \<Rightarrow> map_option (\<lambda>n. c\<lparr>conn_loop := (conn_loop c)\<lparr>m_wakeups := n\<rparr>\<rparr>)
                     (WakeupFdEvent_onRead [Done 8] (m_wakeups (conn_loop c)))
      | OnAccept \<Rightarrow> Some c)"

section \<open>The client's loop as a reactor\<close>

text \<open>The loop's own events (wakeup, timer) are \<open>objects\<close>; of the table only the event of the
  connection is in use.\<close>

definition client_fd_object :: "(nat \<Rightarrow> rpc_closure handler fd_event option) \<Rightarrow> 'pb client \<Rightarrow> nat
    \<Rightarrow> rpc_closure handler fd_event" where
  "client_fd_object objects c p =
     (case objects p of
        Some e \<Rightarrow> e
      | None \<Rightarrow> if int p = m_fd (conn_event c) then conn_event c else FdEvent_new (int p))"

record 'pb client_view = "rpc_closure handler reactor" +
  view_client :: "'pb client"
  hung :: bool

definition client_view :: "(nat \<Rightarrow> rpc_closure handler fd_event option) \<Rightarrow> 'pb client \<Rightarrow> 'pb client_view" where
  "client_view objects c =
     \<lparr>m_loop = conn_loop c, m_fd_events = client_fd_object objects c, view_client = c, hung = False\<rparr>"

definition client_unview :: "'pb client_view \<Rightarrow> 'pb client" where
  "client_unview v = (view_client v)\<lparr>conn_loop := m_loop v\<rparr>"

definition client_exec :: "'pb rpc_env \<Rightarrow> (nat \<Rightarrow> rpc_closure handler fd_event option) \<Rightarrow> client_answers
    \<Rightarrow> rpc_closure handler \<Rightarrow> 'pb client_view \<Rightarrow> 'pb client_view" where
  "client_exec env objects a h v =
     (if hung v then v
      else case run_client_handler env a h (client_unview v) of
             None \<Rightarrow> v\<lparr>hung := True\<rparr>
           | Some c \<Rightarrow> client_view objects c)"

text \<open>One round with the result of its \<open>epoll_wait\<close>; \<open>None\<close> when a handler did not return.\<close>

definition client_round :: "'pb rpc_env \<Rightarrow> (nat \<Rightarrow> rpc_closure handler fd_event option)
    \<Rightarrow> client_answers \<times> epoll_result \<Rightarrow> 'pb client \<Rightarrow> 'pb client option" where
  "client_round env objects round c =
     (let v = loop_round (client_exec env objects (fst round)) (snd round) (client_view objects c)
      in if hung v then None else Some (client_unview v))"

text \<open>A blocking call returns, still waits when the rounds are used up, or is stuck in a handler.\<close>

datatype 'a blocking = Returns 'a | Waits 'a | Hangs

fun client_loop :: "'pb rpc_env \<Rightarrow> (nat \<Rightarrow> rpc_closure handler fd_event option)
    \<Rightarrow> (client_answers \<times> epoll_result) list \<Rightarrow> 'pb client \<Rightarrow> 'pb client blocking" where
  "client_loop env objects [] c = (if m_stop_flag (conn_loop c) then Returns c else Waits c)"
| "client_loop env objects (round # rounds) c =
     (if m_stop_flag (conn_loop c) then Returns c
      else case client_round env objects round c of
             None \<Rightarrow> Hangs
           | Some c' \<Rightarrow> client_loop env objects rounds c')"

section \<open>The blocking call\<close>

text \<open>\<open>RpcChannel_CallMethod\<close> up to the entry of the loop, then the loop, if the call entered it:
  entering is the only thing that sets \<open>m_is_looping\<close>.\<close>

definition blocking_call :: "'pb rpc_env \<Rightarrow> (nat \<Rightarrow> rpc_closure handler fd_event option) \<Rightarrow> connect_result \<Rightarrow> bool
    \<Rightarrow> cstring \<Rightarrow> cstring \<Rightarrow> cstring option \<Rightarrow> RpcClosure option \<Rightarrow> nat \<Rightarrow> (client_answers \<times> epoll_result) list
    \<Rightarrow> 'pb client \<Rightarrow> 'pb client blocking" where
  "blocking_call env objects rt rpc_controller new_id name request done i rounds c =
     (let c' = RpcChannel_CallMethod env rt rpc_controller new_id name request done i c
      in if \<not> m_is_looping (conn_loop c) \<and> m_is_looping (conn_loop c')
         then client_loop env objects rounds c' else Returns c')"

text \<open>\<open>CALL_RPC\<close>: the address from its text, a channel, \<open>Init\<close>, and the method of the stub, which calls
  \<open>CallMethod\<close> of the channel with the same objects.  \<open>std::stoi\<close> may throw.  When the
  socket cannot be made the channel has no connection, and the call is not followed further.\<close>

definition NEW_RPC_CHANNEL :: "pton \<Rightarrow> cstring \<Rightarrow> nat \<Rightarrow> (nat \<Rightarrow> int) \<Rightarrow> rpc_closure handler event_loop
    \<Rightarrow> rpc_closure handler fd_event_group \<Rightarrow> byte list \<Rightarrow> byte list \<Rightarrow> rpc_controller \<Rightarrow> 'pb \<Rightarrow> rpc_task timer
    \<Rightarrow> (stoi_error + fault) + 'pb client option \<times> rpc_closure handler fd_event_group" where
  "NEW_RPC_CHANNEL inet_pton peerAddrString this sys_socket l events in_block out_block ctl response t =
     (case IpNetAddr_text inet_pton peerAddrString of
        Inl e \<Rightarrow> Inl (Inl e)
      | Inr peer \<Rightarrow> map_sum Inr id
          (RpcChannel_new this sys_socket peer l events in_block out_block ctl response t))"

definition CALL_RPC :: "'pb rpc_env \<Rightarrow> (nat \<Rightarrow> rpc_closure handler fd_event option) \<Rightarrow> pton \<Rightarrow> connect_result
    \<Rightarrow> cstring \<Rightarrow> cstring \<Rightarrow> cstring \<Rightarrow> rpc_controller \<Rightarrow> cstring option \<Rightarrow> 'pb \<Rightarrow> RpcClosure option \<Rightarrow> nat \<Rightarrow> (nat \<Rightarrow> int)
    \<Rightarrow> rpc_closure handler event_loop \<Rightarrow> rpc_closure handler fd_event_group \<Rightarrow> byte list \<Rightarrow> byte list \<Rightarrow> rpc_task timer
    \<Rightarrow> nat \<Rightarrow> (client_answers \<times> epoll_result) list
    \<Rightarrow> (stoi_error + fault) + ('pb client blocking option \<times> rpc_closure handler fd_event_group)" where
  "CALL_RPC env objects inet_pton rt addr methodName new_id controller request response done this sys_socket
       l events in_block out_block t i rounds =
     (case NEW_RPC_CHANNEL inet_pton addr this sys_socket l events in_block out_block controller response t of
        Inl e \<Rightarrow> Inl e
      | Inr (None, events) \<Rightarrow> Inr (None, events)
      | Inr (Some channel, events) \<Rightarrow>
          (let channel = on_world (Channel_Init controller response done) channel
           in Inr (Some (blocking_call env objects rt True new_id methodName request done i rounds channel),
                   events)))"

section \<open>A round as a run of its tasks\<close>

definition client_task :: "'pb rpc_env \<Rightarrow> (nat \<Rightarrow> rpc_closure handler fd_event option) \<Rightarrow> client_answers
    \<Rightarrow> rpc_closure handler loop_task \<Rightarrow> 'pb client \<Rightarrow> 'pb client option" where
  "client_task env objects a t c =
     (case t of
        Call None \<Rightarrow> Some c
      | Call (Some h) \<Rightarrow> run_client_handler env a h c
      | AddFd p \<Rightarrow> Some (c\<lparr>conn_loop := ADD_TO_EPOLL (client_fd_object objects c p) (conn_loop c)\<rparr>)
      | DelFd p \<Rightarrow> Some (c\<lparr>conn_loop := DELETE_FROM_EPOLL (client_fd_object objects c p) (conn_loop c)\<rparr>))"

fun client_tasks :: "'pb rpc_env \<Rightarrow> (nat \<Rightarrow> rpc_closure handler fd_event option) \<Rightarrow> client_answers
    \<Rightarrow> rpc_closure handler loop_task list \<Rightarrow> 'pb client \<Rightarrow> 'pb client option" where
  "client_tasks env objects a [] c = Some c"
| "client_tasks env objects a (t # ts) c =
     Option.bind (client_task env objects a t c) (client_tasks env objects a ts)"

lemma client_fd_object_loop [simp]: "client_fd_object objects (c\<lparr>conn_loop := l\<rparr>) = client_fd_object objects c"
  by (simp add: client_fd_object_def fun_eq_iff split: option.split)

lemma client_view_facts [simp]:
  "m_loop (client_view objects c) = conn_loop c" "m_fd_events (client_view objects c) = client_fd_object objects c"
  "client_unview (client_view objects c) = c" "\<not> hung (client_view objects c)" "view_client (client_view objects c) = c"
  "client_unview (v\<lparr>m_loop := l\<rparr>) = (view_client v)\<lparr>conn_loop := l\<rparr>"
  by (simp_all add: client_view_def client_unview_def)

lemma hung_sticky: "hung v \<Longrightarrow> hung (foldl (\<lambda>v t. run_task (client_exec env objects a) t v) v ts)"
proof (induction ts arbitrary: v)
  case (Cons t ts)
  have "hung (run_task (client_exec env objects a) t v)"
    using Cons.prems by (cases t) (auto simp: run_task_def client_exec_def split: option.split)
  with Cons.IH show ?case by simp
qed simp

lemma run_tasks_client:
  assumes "\<not> hung v" and "m_fd_events v = client_fd_object objects (view_client v)"
  shows "case client_tasks env objects a ts (client_unview v) of
       None \<Rightarrow> hung (foldl (\<lambda>v t. run_task (client_exec env objects a) t v) v ts)
     | Some c' \<Rightarrow> (let v' = foldl (\<lambda>v t. run_task (client_exec env objects a) t v) v ts
         in \<not> hung v' \<and> m_fd_events v' = client_fd_object objects (view_client v') \<and> client_unview v' = c')"
  using assms
proof (induction ts arbitrary: v)
  case Nil
  then show ?case by simp
next
  case (Cons t ts)
  let ?v = "run_task (client_exec env objects a) t v"
  have fd: "client_fd_object objects (client_unview v) = client_fd_object objects (view_client v)"
    by (simp add: client_unview_def)
  show ?case
  proof (cases "client_task env objects a t (client_unview v)")
    case None
    then have "hung ?v"
      using Cons.prems by (cases t) (auto simp: client_task_def run_task_def client_exec_def split: option.splits)
    with None hung_sticky show ?thesis by simp
  next
    case (Some c)
    have "\<not> hung ?v \<and> m_fd_events ?v = client_fd_object objects (view_client ?v) \<and> client_unview ?v = c"
      using Cons.prems Some fd
      by (cases t) (auto simp: client_task_def run_task_def client_exec_def client_unview_def split: option.splits)
    with Cons.IH [of ?v] Some show ?thesis by (cases "client_tasks env objects a ts c") simp_all
  qed
qed

lemma client_events:
  assumes "\<not> hung v"
  shows "\<not> hung (foldl handle_event v evs)"
    and "client_unview (foldl handle_event v evs) = (client_unview v)\<lparr>conn_loop := (m_loop v)
      \<lparr>m_pending_tasks := m_pending_tasks (m_loop v) @ trigger_tasks (m_fd_events v) evs\<rparr>\<rparr>"
proof -
  have "\<not> hung (foldl handle_event v evs) \<and> client_unview (foldl handle_event v evs) = (client_unview v)\<lparr>conn_loop := (m_loop v)
      \<lparr>m_pending_tasks := m_pending_tasks (m_loop v) @ trigger_tasks (m_fd_events v) evs\<rparr>\<rparr>"
    using assms
  proof (induction "m_fd_events v" evs arbitrary: v rule: trigger_tasks.induct)
    case 1
    then show ?case by (simp add: client_unview_def)
  next
    case (2 uu evs)
    then show ?case by (simp add: handle_event_def)
  next
    case (3 p ev evs)
    have fd: "m_fd_events (handle_event v (Some p, ev)) = m_fd_events v" "\<not> hung (handle_event v (Some p, ev))"
      using 3(2) by (simp_all add: handle_event_def)
    show ?case using 3(1) [of "handle_event v (Some p, ev)"] fd
      by (simp add: handle_event_def getHandler_def addTask_def Let_def client_unview_def)
  qed
  then show "\<not> hung (foldl handle_event v evs)"
    "client_unview (foldl handle_event v evs) = (client_unview v)\<lparr>conn_loop := (m_loop v)
      \<lparr>m_pending_tasks := m_pending_tasks (m_loop v) @ trigger_tasks (m_fd_events v) evs\<rparr>\<rparr>" by simp_all
qed

text \<open>The tasks that a round leaves for the next one.\<close>

definition round_tasks :: "(nat \<Rightarrow> rpc_closure handler fd_event option) \<Rightarrow> epoll_result \<Rightarrow> 'pb client
    \<Rightarrow> rpc_closure handler loop_task list" where
  "round_tasks objects rt c =
     (case rt of Epoll_error \<Rightarrow> [] | Epoll_events evs \<Rightarrow> trigger_tasks (client_fd_object objects c) evs)"

definition queue_taken :: "'pb client \<Rightarrow> 'pb client" where
  "queue_taken c = c\<lparr>conn_loop := (conn_loop c)\<lparr>m_pending_tasks := []\<rparr>\<rparr>"

definition queue_put :: "rpc_closure handler loop_task list \<Rightarrow> 'pb client \<Rightarrow> 'pb client" where
  "queue_put ts c = c\<lparr>conn_loop := (conn_loop c)\<lparr>m_pending_tasks := m_pending_tasks (conn_loop c) @ ts\<rparr>\<rparr>"

lemma client_round_eq:
  "client_round env objects (a, rt) c =
     map_option (\<lambda>c'. queue_put (round_tasks objects rt c') c')
       (client_tasks env objects a (m_pending_tasks (conn_loop c)) (queue_taken c))"
proof -
  let ?v = "(client_view objects c)\<lparr>m_loop := (conn_loop c)\<lparr>m_pending_tasks := []\<rparr>\<rparr>"
  let ?v' = "foldl (\<lambda>v t. run_task (client_exec env objects a) t v) ?v (m_pending_tasks (conn_loop c))"
  have v: "\<not> hung ?v" "m_fd_events ?v = client_fd_object objects (view_client ?v)" "client_unview ?v = queue_taken c"
    by (simp_all add: queue_taken_def)
  note run = run_tasks_client [OF v(1,2), of env a "m_pending_tasks (conn_loop c)", unfolded v(3)]
  have pending: "run_pending (client_exec env objects a) (client_view objects c) = ?v'"
    by (simp add: run_pending_def Let_def)
  have sticky: "hung (foldl handle_event u evs)" if "hung u" for u :: "'a client_view" and evs
    using that by (induction evs arbitrary: u)
      (auto simp: handle_event_def split: option.splits prod.splits)
  show ?thesis
  proof (cases "client_tasks env objects a (m_pending_tasks (conn_loop c)) (queue_taken c)")
    case None
    then have "hung ?v'" using run by simp
    then show ?thesis
      using None sticky by (cases rt) (simp_all add: client_round_def loop_round_def pending Let_def)
  next
    case (Some c')
    then have v': "\<not> hung ?v'" "m_fd_events ?v' = client_fd_object objects (view_client ?v')" "client_unview ?v' = c'"
      using run by (simp_all add: Let_def)
    have loop: "conn_loop c' = m_loop ?v'" and fd: "client_fd_object objects (view_client ?v') = client_fd_object objects c'"
      using v'(3) by (auto simp: client_unview_def)
    show ?thesis
    proof (cases rt)
      case Epoll_error
      with v' Some show ?thesis
        by (simp add: client_round_def loop_round_def pending Let_def queue_put_def round_tasks_def)
    next
      case (Epoll_events evs)
      then have "client_round env objects (a, rt) c = Some (client_unview (foldl handle_event ?v' evs))"
        using client_events(1) [OF v'(1)] by (simp add: client_round_def loop_round_def pending Let_def)
      then show ?thesis
        using Some v' loop fd Epoll_events client_events(2) [OF v'(1), of evs] by (simp add: queue_put_def round_tasks_def)
    qed
  qed
qed

end
