(* ===== verification/CallLiveness.thy ===== *)
theory CallLiveness
  imports ChannelProperties
begin

text \<open>
  A call completes: as long as the user's callback has not run, the timeout is pending and will run it,
  and nothing that the loop does in between takes that away.
\<close>

section \<open>A call that will complete\<close>

text \<open>\<open>i\<close> is the timeout's event and \<open>a\<close> its arrival time.\<close>

definition call_live :: "nat \<Rightarrow> int \<Rightarrow> 'pb rpc_state \<Rightarrow> bool" where
  "call_live i a w \<longleftrightarrow> m_done w = Some (RpcClosure True)
     \<and> (1 \<le> done_runs w
        \<or> m_timer_event w = i \<and> m_pending_events (m_timer w) = [(a, i)] \<and> wf_timer (m_timer w)
          \<and> \<not> te_is_canceled (m_heap (m_timer w) i) \<and> \<not> m_is_repeat (m_heap (m_timer w) i)
          \<and> m_task (m_heap (m_timer w) i) \<noteq> None)"

lemma handle_response_done [simp]:
  "m_done (m_world (handle_response env m c)) = m_done (m_world c)"
  "done_runs (m_world (handle_response env m c)) = done_runs (m_world c)"
  by (simp_all add: handle_response_def split_def Let_def)

lemma closure_Run_done [simp]:
  "m_done (m_world (closure_Run cl c)) = m_done (m_world c)"
  "done_runs (m_world (closure_Run (Some (RpcClosure True)) c)) = done_runs (m_world c) + 1"
  by (simp_all add: closure_Run_def split: option.split)

lemma read_cb_live:
  assumes "call_live i a (m_world c)"
  shows "call_live i a (m_world (run_message_cb env ReadCb (TinyPB m) c))"
  using assms by (auto simp: run_message_cb_def IsCanceled_def Let_def call_live_def)

lemma run_read_cbs_live:
  "call_inv c \<Longrightarrow> call_live i a (m_world c) \<Longrightarrow>
     call_live i a (m_world (run_read_cbs (run_message_cb env) ms c))"
proof (induction ms arbitrary: c)
  case (Cons m ms)
  show ?case
  proof (cases "m_read_cb c (m_msg_id m)")
    case None
    with Cons show ?thesis by (simp add: Let_def)
  next
    case (Some k)
    then have "k = ReadCb" using Cons.prems(1) by (auto simp: call_inv_def Let_def split: if_splits)
    with Cons.IH [OF read_cb_inv [OF Cons.prems(1) Some]] read_cb_live [OF Cons.prems(2)] Some
    show ?thesis by (simp add: Let_def)
  qed
qed simp

lemma onRead_live:
  assumes inv: "call_inv c" and live: "call_live i a (m_world c)"
    and run: "onRead no_dispatch (run_message_cb env) script c = Some (Inr c')"
  shows "call_live i a (m_world c')"
proof (cases "m_state c = Connected")
  case False
  with live run show ?thesis by (simp add: onRead_def)
next
  case True
  from True run obtain b st failed where rd: "read_loop (m_in_buffer c) Connected script = Some (b, st, failed)"
    by (cases "read_loop (m_in_buffer c) Connected script") (auto simp: onRead_def)
  let ?c = "c\<lparr>m_in_buffer := b, m_state := st\<rparr>"
  show ?thesis
  proof (cases "failed \<or> st = Closed")
    case True
    then have "m_world c' = m_world c"
      using rd \<open>m_state c = Connected\<close> run by (auto simp: onRead_def Let_def split: if_splits)
    with live show ?thesis by simp
  next
    case False
    with rd \<open>m_state c = Connected\<close> run have "execute no_dispatch (run_message_cb env) ?c = Some (Inr c')"
      by (auto simp: onRead_def Let_def)
    then obtain ms b2 where c': "c' = run_read_cbs (run_message_cb env) ms (?c\<lparr>m_in_buffer := b2\<rparr>)"
      using inv by (auto simp: execute_def Let_def call_inv_def split: option.splits sum.splits)
    have "call_inv (?c\<lparr>m_in_buffer := b2\<rparr>)" by (rule call_inv_same [OF inv]) simp_all
    from run_read_cbs_live [OF this] live show ?thesis by (simp add: c')
  qed
qed

text \<open>Writing leaves the call's state alone: the write callback only registers the read callback.\<close>

lemma write_cbs_world:
  assumes "call_inv c" and "run_write_cbs (run_message_cb env) 0 c = Some c'"
  shows "m_world c' = m_world c"
proof (cases "m_write_cb c")
  case Nil
  with assms(2) show ?thesis by (simp add: run_write_cbs.simps)
next
  case (Cons p ps)
  then obtain m where w: "m_write_cb c = [(m, WriteCb)]" using assms(1) by (auto simp: call_inv_def Let_def)
  define c1 where "c1 = readMessage (abstract_msg_id m) ReadCb c"
  have f: "m_write_cb c1 = m_write_cb c" "m_world c1 = m_world c"
    by (simp_all add: c1_def readMessage_def addReadCb_def)
  have "run_write_cbs (run_message_cb env) 0 c = run_write_cbs (run_message_cb env) 1 c1"
    using w by (subst run_write_cbs.simps) (simp add: run_message_cb_def c1_def)
  also have "... = Some c1" using f w by (subst run_write_cbs.simps) simp
  finally show ?thesis using assms(2) f by simp
qed

lemma onWrite_world:
  assumes "call_inv c" and "onWrite (run_message_cb env) script c = Some c'"
  shows "m_world c' = m_world c"
proof (cases "m_state c = Connected")
  case False
  with assms show ?thesis by (simp add: onWrite_def)
next
  case True
  define c1 where "c1 = encode_waiting c"
  have c1: "call_inv c1" "m_world c1 = m_world c" using encode_waiting_inv [OF assms(1)] by (simp_all add: c1_def)
  obtain b s how where wl: "write_loop script (m_out_buffer c1) [] = (b, s, how)" by (metis prod_cases3)
  define c2 where "c2 = c1\<lparr>m_out_buffer := b, m_sent := m_sent c1 @ s\<rparr>"
  define c3 where "c3 = (if how = AllSent then conn_addEpollEvent (m_tid (conn_loop c2))
      (c2\<lparr>conn_event := clearEvent OUT_EVENT (conn_event c2)\<rparr>) else c2)"
  have c3: "call_inv c3" by (rule call_inv_same [OF c1(1)]; simp add: c2_def c3_def)
  have world: "m_world c2 = m_world c" "m_world c3 = m_world c" using c1(2) by (simp_all add: c2_def c3_def)
  have ty: "m_conn_type c = TcpConnectionByClient" "m_conn_type c1 = TcpConnectionByClient"
    using assms(1) by (simp_all add: c1_def call_inv_def)
  have "Some c' = (if readAvailable (m_out_buffer c1) = 0 then Some c1 else if how = WriteFailed then Some c2
      else map_option (\<lambda>c. c\<lparr>m_write_cb := []\<rparr>) (run_write_cbs (run_message_cb env) 0 c3))"
    unfolding assms(2) [symmetric] onWrite_def Let_def c3_def c2_def c1_def [symmetric]
    using True ty by (simp add: wl)
  with write_cbs_world [OF c3, of env] world c1(2) show ?thesis
    by (cases "run_write_cbs (run_message_cb env) 0 c3") (auto split: if_splits)
qed

section \<open>The timeout\<close>

lemma onTimer_live:
  assumes live: "call_live i a (m_world c)" and some: "client_onTimer c = Some c'"
  shows "call_live i a (m_world c')"
    and "a \<le> m_clock (m_timer (m_world c)) (m_readings (m_timer (m_world c))) \<Longrightarrow> 1 \<le> done_runs (m_world c')"
proof -
  let ?w = "m_world c" and ?t = "m_timer (m_world c)"
  obtain events t' where ev: "onTimer_collect ?t = Some (events, t')"
    and c': "c' = run_due (\<lambda>c i. m_task (m_heap (m_timer (m_world c)) i)) run_timeout events
        (on_world (\<lambda>w. w\<lparr>m_timer := t'\<rparr>) c)"
    using some by (auto simp: client_onTimer_def)
  define c1 where "c1 = on_world (\<lambda>w. w\<lparr>m_timer := t'\<rparr>) c"
  have fin: "m_done ?w = Some (RpcClosure True)" using live by (simp add: call_live_def)
  have grows: "m_done (m_world (run_due f run_timeout is d)) = m_done (m_world d)
      \<and> done_runs (m_world d) \<le> done_runs (m_world (run_due f run_timeout is d))" for f "is" and d :: "'a client"
  proof (induction "is" arbitrary: d)
    case (Cons j js)
    show ?case
    proof (cases "f d j")
      case (Some task)
      obtain ctl k where "m_world (run_timeout task d) = (m_world d)\<lparr>m_controller := ctl, done_runs := done_runs (m_world d) + k\<rparr>"
        using run_timeout_shape [of task d] by blast
      then have "m_done (m_world (run_timeout task d)) = m_done (m_world d)"
        "done_runs (m_world d) \<le> done_runs (m_world (run_timeout task d))" by simp_all
      with Cons [of "run_timeout task d"] Some show ?thesis by simp
    qed (use Cons in simp)
  qed simp
  have kept: "m_done (m_world c') = Some (RpcClosure True)" "done_runs ?w \<le> done_runs (m_world c')"
    using grows [of "\<lambda>c i. m_task (m_heap (m_timer (m_world c)) i)" events c1] fin by (simp_all add: c' c1_def)
  have cases: "1 \<le> done_runs (m_world c')
      \<or> \<not> a \<le> m_clock ?t (m_readings ?t) \<and> call_live i a (m_world c')"
  proof (cases "1 \<le> done_runs ?w")
    case True
    with kept show ?thesis by linarith
  next
    case False
    with live have p: "m_timer_event ?w = i" "m_pending_events ?t = [(a, i)]" "wf_timer ?t"
      "\<not> te_is_canceled (m_heap ?t i)" "\<not> m_is_repeat (m_heap ?t i)" "m_task (m_heap ?t i) \<noteq> None"
      by (simp_all add: call_live_def)
    have one: "wf_timer t'" "m_heap t' = m_heap ?t"
      using one_shot_collect [OF p(3) _ p(5) ev] p(2) by simp_all
    have events: "events = (if a \<le> m_clock ?t (m_readings ?t) then [i] else [])"
      using onTimer_collect_facts(1) [OF p(3) ev] p(2,4) by (simp add: due_ids_def)
    show ?thesis
    proof (cases "a \<le> m_clock ?t (m_readings ?t)")
      case True
      obtain task where "m_task (m_heap t' i) = Some task" using p(6) one(2) by auto
      then have "c' = run_timeout task c1" using True events by (simp add: c' c1_def)
      then have "done_runs (m_world c') = done_runs (m_world c1) + 1"
        using fin by (cases task) (simp add: run_timeout_def Let_def c1_def)
      then show ?thesis by simp
    next
      case False
      have "m_pending_events t' = [(a, i)]"
        using ev p(2) False by (auto simp: onTimer_collect_def getNowMs_def Let_def split: if_splits)
      moreover have "c' = c1" using False events by (simp add: c' c1_def)
      ultimately show ?thesis using False fin p one by (simp add: call_live_def c1_def)
    qed
  qed
  show "call_live i a (m_world c')" using cases kept(1) by (auto simp: call_live_def)
  show "1 \<le> done_runs (m_world c')" if "a \<le> m_clock ?t (m_readings ?t)" using cases that by blast
qed

interpretation live_call: stepwise_invariant "rpc_step env" "\<lambda>_ _. True" "\<lambda>c. call_inv c \<and> call_live i a (m_world c)"
  for env i a
proof unfold_locales
  fix c :: "'a client" and e
  assume inv: "call_inv c \<and> call_live i a (m_world c)"
  have "call_live i a (m_world (rpc_step env c e))"
  proof (cases e)
    case (EvRead script)
    with inv onRead_live [of c i a env script] show ?thesis by (auto split: option.split sum.split)
  next
    case (EvWrite script)
    with inv onWrite_world [of c env script] show ?thesis by (auto split: option.split)
  next
    case EvTimer
    with inv onTimer_live(1) [of i a c] show ?thesis by (auto split: option.split)
  qed
  with inv call.inv_step [where s = c and e = e and env = env]
  show "call_inv (rpc_step env c e) \<and> call_live i a (m_world (rpc_step env c e))" by simp
qed

section \<open>From the start of the call\<close>

lemma call_live_cong:
  assumes "m_done w' = m_done w" "done_runs w' = done_runs w" "m_timer w' = m_timer w" "m_timer_event w' = m_timer_event w"
  shows "call_live i a w' = call_live i a w"
  using assms by (simp add: call_live_def)

lemma prepared_live:
  assumes fresh: "fresh_client c" and "m_done (m_world c) = Some (RpcClosure True)"
  shows "call_live i (m_clock (m_timer (m_world c)) (m_readings (m_timer (m_world c)))
           + GetTimeout (argument_controller (m_world c))) (m_world (prepared new_id name pb_data i c))"
proof -
  note facts = prepared_facts [OF fresh, of new_id name pb_data i]
  have "m_pending_events (m_timer (m_world (prepared new_id name pb_data i c)))
      = [(m_clock (m_timer (m_world c)) (m_readings (m_timer (m_world c))) + GetTimeout (argument_controller (m_world c)), i)]"
    using fresh by (simp add: prepared_def Let_def addTimerEvent_def TimerEvent_new_def resetArriveTime_def getNowMs_def
        GetTimeout_def SetMsgId_def fresh_client_def)
  with facts assms(2) show ?thesis by (simp add: call_live_def idle_call_def call_inv_def Let_def)
qed

lemma run_conn_cb_ok_world:
  assumes "m_connect_error_code (m_world c) = error_code OK"
  shows "m_world (run_conn_cb (ConnCb req) c) = m_world c"
  using assms by (simp add: run_conn_cb_def writeMessage_def addMessage_def)

lemma connected_live: "call_live i a (m_world (connected env c)) = call_live i a (m_world c)"
  by (rule call_live_cong) (simp_all add: connected_def initLocalAddr_def setState_def)

lemma enter_loop_world [simp]: "m_world (enter_loop c) = m_world c"
  by (simp add: enter_loop_def)

lemma on_connect_live:
  assumes "call_live i a (m_world c)" and "rt = EISCONN \<or> rt = ConnectOk"
  shows "call_live i a (m_world (on_connect env rt (ConnCb req) c))"
proof -
  define d where "d = conn_deleteEpollEvent (m_tid (conn_loop (connected env c))) (connected env c)"
  have "on_connect env rt (ConnCb req) c = run_conn_cb (ConnCb req) d"
    using assms(2) by (auto simp: on_connect_def d_def Let_def)
  moreover have "m_world d = m_world (connected env c)" by (simp add: d_def)
  ultimately show ?thesis using assms(1) connected_live [of i a env c] by (simp add: run_conn_cb_ok_world)
qed

lemma stays_live:
  assumes "call_inv c" and "call_live i a (m_world c)"
  shows "call_inv (run_steps (rpc_step env) c es) \<and> call_live i a (m_world (run_steps (rpc_step env) c es))"
proof -
  have "run_allowed (rpc_step env) (\<lambda>_ _. True) c es" by (induction es arbitrary: c) simp_all
  with live_call.inv_run [of c i a env es] assms show ?thesis by blast
qed

lemma timer_completes:
  assumes inv: "call_inv c" and live: "call_live i a (m_world c)"
    and due: "a \<le> m_clock (m_timer (m_world c)) (m_readings (m_timer (m_world c)))"
  shows "done_runs (m_world (rpc_step env c EvTimer)) = 1"
proof -
  have "1 \<le> done_runs (m_world (rpc_step env c EvTimer))"
  proof (cases "client_onTimer c")
    case (Some c')
    then show ?thesis using onTimer_live(2) [OF live Some due] by simp
  next
    case None
    then have "m_it_value (m_timer (m_world c)) = (0, 0)"
      by (cases "onTimer_collect (m_timer (m_world c))") (auto simp: client_onTimer_def onTimer_collect_None)
    then have "1 \<le> done_runs (m_world c)" using live by (auto simp: call_live_def wf_timer_def timely_def)
    with None show ?thesis by simp
  qed
  moreover have "done_runs (m_world (rpc_step env c EvTimer)) \<le> 1"
    using done_at_most_once [OF inv, of env "[EvTimer]"] by simp
  ultimately show ?thesis by linarith
qed

text \<open>
  A call that got its connection completes.  Let the connection be there at once, or be reported
  by the writable event after any number of timer expirations; let the loop then handle any sequence
  of reads, writes and timer expirations, with any bytes from the server or none, the peer closing
  the connection included.  When it next handles the timer and the clock has reached the time of the
  call plus the controller's timeout, the user's callback has run exactly once.
\<close>

theorem call_completes_exactly_once:
  assumes "fresh_client c" and "m_done (m_world c) = Some (RpcClosure True)"
    and "rt = EISCONN \<or> rt = ConnectOk"
    and "s = run_steps (rpc_step env)
            (RpcChannel_CallMethod env ConnectOk True new_id name (Some pb_data) cl i c) es
       \<or> s = run_steps (rpc_step env)
            (on_connect env rt (ConnCb req)
              (run_steps (rpc_step env)
                (RpcChannel_CallMethod env EINPROGRESS True new_id name (Some pb_data) cl i c)
                (replicate n EvTimer))) es"
    and "m_clock (m_timer (m_world c)) (m_readings (m_timer (m_world c))) + GetTimeout (argument_controller (m_world c))
       \<le> m_clock (m_timer (m_world s)) (m_readings (m_timer (m_world s)))"
  shows "done_runs (m_world (rpc_step env s EvTimer)) = 1"
proof -
  have init: "m_is_init (m_world c)" using assms(1) by (simp add: fresh_client_def)
  note idle = prepared_facts(1) [OF assms(1), of new_id name pb_data i]
  note live = prepared_live [OF assms(1,2), of i new_id name pb_data]
  let ?req = "complete (setPbData pb_data (CallMethod_request new_id name c))"
    and ?p = "prepared new_id name pb_data i c"
    and ?a = "m_clock (m_timer (m_world c)) (m_readings (m_timer (m_world c))) + GetTimeout (argument_controller (m_world c))"
  define c0 where "c0 = connect env ConnectOk (ConnCb ?req) ?p"
  have start: "call_inv c0" "call_live i ?a (m_world c0)"
    using conn_cb_success [OF idle, of ?req env] live connected_live [of i ?a env ?p]
    by (simp_all add: c0_def connect_def run_conn_cb_ok_world)
  define w where "w = run_steps (rpc_step env) (connect env EINPROGRESS (ConnCb ?req) ?p) (replicate n EvTimer)"
  have "idle_call w" by (simp add: w_def idle_EvTimers connect_in_progress idle)
  moreover have "call_live i ?a (m_world w)"
    using stays_live [of "connect env EINPROGRESS (ConnCb ?req) ?p" i ?a env] connect_in_progress [OF idle] live
    by (simp add: w_def idle_call_def connect_def conn_addEpollEvent_def)
  ultimately have later: "call_inv (on_connect env rt (ConnCb req) w)" "call_live i ?a (m_world (on_connect env rt (ConnCb req) w))"
    using on_connect_success [OF _ assms(3)] on_connect_live [OF _ assms(3)] by blast+
  have "call_inv s \<and> call_live i ?a (m_world s)"
    using assms(4) stays_live [OF start] stays_live [OF later]
    unfolding CallMethod_prepared [OF init] c0_def w_def by blast
  then show ?thesis using timer_completes assms(5) by blast
qed

theorem call_completes_exactly_once_witness:
  "done_runs (m_world (rpc_step sample_env (run_steps (rpc_step sample_env)
     (RpcChannel_CallMethod sample_env ConnectOk True [] [46] (Some []) None 0 sample_client) []) EvTimer)) = 1"
proof -
  have d: "m_done (m_world sample_client) = Some (RpcClosure True)"
    by (simp add: sample_client_def TcpConnection_new_def Let_def)
  let ?c = "run_steps (rpc_step sample_env)
    (RpcChannel_CallMethod sample_env ConnectOk True [] [46] (Some []) None 0 sample_client) []"
  have "m_clock (m_timer (m_world sample_client)) (m_readings (m_timer (m_world sample_client)))
        + GetTimeout (argument_controller (m_world sample_client))
      \<le> m_clock (m_timer (m_world ?c)) (m_readings (m_timer (m_world ?c)))"
    by (simp add: RpcChannel_CallMethod_def sample_client_def TcpConnection_new_def Let_def connect_def connected_def
        initLocalAddr_def setState_def addMessage_def writeMessage_def listenWriteEvent_def conn_addEpollEvent_def enter_loop_def
        run_conn_cb_def RpcController_new_def Timer_new_def TimerEvent_new_def
        resetArriveTime_def getNowMs_def addTimerEvent_def resetTimer_def timerfd_settime_def GetMsgId_def GetTimeout_def
        EventLoop_new_eq ADD_TO_EPOLL_def sample_env_def)
  then show ?thesis
    using call_completes_exactly_once [OF fresh_sample_client d, where s = ?c and rt = EISCONN and env = sample_env
        and new_id = "[]" and name = "[46]" and pb_data = "[]" and i = 0 and es = "[]" and cl = None]
    by (simp del: rpc_step.simps)
qed

end
