(* ===== verification/ClientLoopProperties.thy ===== *)
theory ClientLoopProperties
  imports ClientLoop CallLiveness
begin

text \<open>
  A blocking call: its loop is stopped exactly when the user's callback has run, so the call returns
  with the callback run and not before; by its timeout the callback runs, and once only.
\<close>

section \<open>Invariants of the running client\<close>

lemma loop_flags [simp]:
  "m_is_looping (addEpollEvent k p e l) = m_is_looping l" "m_stop_flag (addEpollEvent k p e l) = m_stop_flag l"
  "m_is_looping (deleteEpollEvent k p e l) = m_is_looping l" "m_stop_flag (deleteEpollEvent k p e l) = m_stop_flag l"
  by (simp_all add: addEpollEvent_def deleteEpollEvent_def)

text \<open>What the handlers do to a client, in the terms that its invariants depend on: the event of the
  connection, the flags of the loop, the timer, the user's callback and how often it ran.  What is kept
  by these is kept by every handler and by the loop.\<close>

locale client_invariant =
  fixes env :: "'pb rpc_env" and inv :: "'pb client \<Rightarrow> bool"
  assumes frame: "inv c \<Longrightarrow> conn_event c' = conn_event c \<Longrightarrow> conn_loop c' = conn_loop c
       \<Longrightarrow> m_timer (m_world c') = m_timer (m_world c) \<Longrightarrow> m_done (m_world c') = m_done (m_world c)
       \<Longrightarrow> done_runs (m_world c') = done_runs (m_world c) \<Longrightarrow> inv c'"
    and watched: "inv c \<Longrightarrow> m_is_looping l = m_is_looping (conn_loop c) \<Longrightarrow> m_stop_flag l = m_stop_flag (conn_loop c)
       \<Longrightarrow> m_pending_tasks l = m_pending_tasks (conn_loop c) \<Longrightarrow> inv (c\<lparr>conn_loop := l\<rparr>)"
    and event: "inv c \<Longrightarrow> (\<And>k. m_read_callback e = Some (OnConnect k) \<Longrightarrow> m_read_callback (conn_event c) = Some (OnConnect k))
       \<Longrightarrow> (\<And>k. m_write_callback e = Some (OnConnect k) \<Longrightarrow> m_write_callback (conn_event c) = Some (OnConnect k))
       \<Longrightarrow> inv (c\<lparr>conn_event := e\<rparr>)"
    and cancelled: "inv c \<Longrightarrow> inv (on_world (\<lambda>w. w\<lparr>m_timer := cancelTimerEvent (m_timer_event w) (m_timer w)\<rparr>) c)"
    and collected: "inv c \<Longrightarrow> onTimer_collect (m_timer (m_world c)) = Some (events, t) \<Longrightarrow> inv (on_world (\<lambda>w. w\<lparr>m_timer := t\<rparr>) c)"
    and finished: "inv c \<Longrightarrow> inv (tcp_client_close (closure_Run (m_done (m_world c)) c))"
begin

lemma events:
  assumes "inv c" and "k = m_tid (conn_loop c)"
  shows "inv (conn_addEpollEvent k c)" and "inv (conn_deleteEpollEvent k c)"
    and "inv (listenReadEvent k c)" and "inv (listenWriteEvent k c)"
proof -
  have add: "inv (conn_addEpollEvent k c)" if "inv c" "k = m_tid (conn_loop c)" for c
    unfolding conn_addEpollEvent_def by (rule watched [OF that(1)]) (simp_all add: addEpollEvent_def isInLoopThread_def that(2))
  show "inv (conn_addEpollEvent k c)" using add assms .
  show "inv (conn_deleteEpollEvent k c)" unfolding conn_deleteEpollEvent_def
    by (rule watched [OF assms(1)]) (simp_all add: deleteEpollEvent_def isInLoopThread_def assms(2))
  have "inv (c\<lparr>conn_event := listen IN_EVENT (OnRead j) (conn_event c)\<rparr>)"
    "inv (c\<lparr>conn_event := listen OUT_EVENT (OnWrite j) (conn_event c)\<rparr>)" for j
    by (rule event [OF assms(1)], simp_all add: listen_def)+
  from this [THEN add] show "inv (listenReadEvent k c)" "inv (listenWriteEvent k c)"
    by (simp_all add: listenReadEvent_def listenWriteEvent_def assms(2))
qed

lemma closed: "inv c \<Longrightarrow> inv (conn_close_event c)" and cleared: "inv c \<Longrightarrow> inv (c\<lparr>conn_event := clearEvent OUT_EVENT (conn_event c)\<rparr>)"
proof -
  assume inv: "inv c"
  have "inv (c\<lparr>conn_event := fst (close_event (conn_event c))\<rparr>)" by (rule event [OF inv]) (simp_all add: close_event_def)
  from watched [OF this] show "inv (conn_close_event c)"
    by (auto simp: conn_close_event_def split_def Let_def split: option.split)
  show "inv (c\<lparr>conn_event := clearEvent OUT_EVENT (conn_event c)\<rparr>)" by (rule event [OF inv]) (simp_all add: clearEvent_def)
qed

lemma message_cb: "inv c \<Longrightarrow> inv (run_message_cb env k m c)"
proof (cases k)
  case ReadCb
  assume inv: "inv c"
  define c1 where "c1 = on_world (\<lambda>w. w\<lparr>m_timer := cancelTimerEvent (m_timer_event w) (m_timer w)\<rparr>) c"
  have c1: "inv c1" unfolding c1_def by (rule cancelled [OF inv])
  show ?thesis
  proof (cases "IsCanceled (m_controller (m_world c)) \<or> cast_TinyPB m = None")
    case True
    with inv c1 show ?thesis by (auto simp: run_message_cb_def Let_def ReadCb c1_def)
  next
    case False
    then obtain resp where resp: "cast_TinyPB m = Some resp" by auto
    have "inv (handle_response env resp c1)"
      by (rule frame [OF c1]) (simp_all add: handle_response_def split_def Let_def)
    from finished [OF this] False resp show ?thesis by (simp add: run_message_cb_def Let_def ReadCb c1_def)
  qed
next
  case WriteCb
  assume inv: "inv c"
  have "inv (addReadCb (abstract_msg_id m) ReadCb c)" by (rule frame [OF inv]) (simp_all add: addReadCb_def)
  from events(3) [OF this] show ?thesis by (simp add: run_message_cb_def readMessage_def WriteCb addReadCb_def)
qed (simp add: run_message_cb_def)

lemma read_cbs: "inv c \<Longrightarrow> inv (run_read_cbs (run_message_cb env) ms c)"
proof (induction ms arbitrary: c)
  case (Cons m ms)
  show ?case
  proof (cases "m_read_cb c (m_msg_id m)")
    case None
    with Cons show ?thesis by (simp add: Let_def)
  next
    case (Some k)
    let ?c = "run_message_cb env k (TinyPB m) c"
    have "inv (?c\<lparr>m_read_cb := (m_read_cb ?c)(m_msg_id m := None)\<rparr>)"
      by (rule frame [OF message_cb [OF Cons.prems, of k "TinyPB m"]]) simp_all
    with Cons.IH Some show ?thesis by (simp add: Let_def)
  qed
qed simp

lemma write_cbs:
  assumes "run_write_cbs (run_message_cb env) i c = Some c'" and "inv c"
  shows "inv c'"
proof -
  have "run_message_cb env = run_message_cb env \<longrightarrow> inv c \<longrightarrow> inv c'"
  proof (rule run_write_cbs.raw_induct [where P = "\<lambda>run_cb i c c'. run_cb = run_message_cb env \<longrightarrow> inv c \<longrightarrow> inv c'",
        OF _ assms(1)], intro impI)
    fix f :: "_ \<Rightarrow> nat \<Rightarrow> 'pb client \<Rightarrow> 'pb client option" and run_cb i c c'
    assume IH: "\<And>run_cb i c c'. f run_cb i c = Some c' \<Longrightarrow> run_cb = run_message_cb env \<longrightarrow> inv c \<longrightarrow> inv c'"
      and body: "(if i < length (m_write_cb c) then f run_cb (i + 1) (run_cb (snd (m_write_cb c ! i)) (fst (m_write_cb c ! i)) c)
        else Some c) = Some c'"
      and inv: "run_cb = run_message_cb env" "inv c"
    then show "inv c'" using message_cb [OF inv(2)] by (auto split: if_splits)
  qed
  with assms(2) show ?thesis by simp
qed

lemma reading:
  assumes inv: "inv c" and run: "onRead no_dispatch (run_message_cb env) script c = Some (Inr c')"
  shows "inv c'"
proof (cases "m_state c = Connected")
  case False
  with assms show ?thesis by (simp add: onRead_def)
next
  case True
  from True run obtain b st failed where rd: "read_loop (m_in_buffer c) Connected script = Some (b, st, failed)"
    by (cases "read_loop (m_in_buffer c) Connected script") (auto simp: onRead_def)
  define c1 where "c1 = c\<lparr>m_in_buffer := b, m_state := st\<rparr>"
  have c1: "inv c1" by (rule frame [OF inv]) (simp_all add: c1_def)
  have "Some (Inr c') = (if failed then Some (Inr c1) else if st = Closed
      then Some (Inr (call_remove_conn_cb (conn_close_event (conn_deleteEpollEvent (m_tid (conn_loop c1)) c1))))
      else execute no_dispatch (run_message_cb env) c1)"
    unfolding run [symmetric] onRead_def using rd True by (simp add: c1_def Let_def)
  moreover have "inv (call_remove_conn_cb d)" if "inv d" for d
    by (rule frame [OF that]) (simp_all add: call_remove_conn_cb_def)
  moreover have "inv c'" if ex: "execute no_dispatch (run_message_cb env) c1 = Some (Inr c')"
  proof -
    obtain ms b2 where "c' = run_read_cbs (run_message_cb env) ms (c1\<lparr>m_in_buffer := b2\<rparr>) \<or> c' = c1\<lparr>m_in_buffer := b2\<rparr>"
      using ex by (auto simp: execute_def Let_def no_dispatch_def neq_Nil_conv
          split: option.splits sum.splits TcpConnectionType.splits if_splits) blast+
    moreover have "inv (c1\<lparr>m_in_buffer := b2\<rparr>)" by (rule frame [OF c1]) simp_all
    ultimately show ?thesis using read_cbs by blast
  qed
  ultimately show ?thesis using c1 closed [OF events(2) [OF c1 refl]] by (auto split: if_splits)
qed

lemma writing:
  assumes inv: "inv c" and run: "onWrite (run_message_cb env) script c = Some c'"
  shows "inv c'"
proof (cases "m_state c = Connected")
  case False
  with assms show ?thesis by (simp add: onWrite_def)
next
  case True
  define c1 where "c1 = (if m_conn_type c = TcpConnectionByClient then encode_waiting c else c)"
  obtain b s how where wl: "write_loop script (m_out_buffer c1) [] = (b, s, how)" by (metis prod_cases3)
  define c2 where "c2 = c1\<lparr>m_out_buffer := b, m_sent := m_sent c1 @ s\<rparr>"
  define c3 where "c3 = (if how = AllSent then conn_addEpollEvent (m_tid (conn_loop c2))
      (c2\<lparr>conn_event := clearEvent OUT_EVENT (conn_event c2)\<rparr>) else c2)"
  have c1: "inv c1" by (rule frame [OF inv]) (simp_all add: c1_def encode_waiting_def split_def Let_def)
  have c2: "inv c2" by (rule frame [OF c1]) (simp_all add: c2_def)
  have c3: "inv c3" using c2 events(1) [OF cleared [OF c2]] by (simp add: c3_def)
  have "Some c' = (if readAvailable (m_out_buffer c1) = 0 then Some c1 else if how = WriteFailed then Some c2
      else if m_conn_type c3 = TcpConnectionByClient
      then map_option (\<lambda>c. c\<lparr>m_write_cb := []\<rparr>) (run_write_cbs (run_message_cb env) 0 c3) else Some c3)"
    unfolding run [symmetric] onWrite_def Let_def c3_def c2_def c1_def [symmetric]
    using True by (simp add: wl)
  moreover have "inv (d\<lparr>m_write_cb := []\<rparr>)" if "run_write_cbs (run_message_cb env) 0 c3 = Some d" for d
    by (rule frame [OF write_cbs [OF that c3]]) simp_all
  ultimately show ?thesis using c1 c2 c3
    by (cases "run_write_cbs (run_message_cb env) 0 c3") (auto split: if_splits)
qed

lemma conn_cb: "inv c \<Longrightarrow> inv (run_conn_cb k c)"
proof (cases k)
  case (ConnCb req)
  assume inv: "inv c"
  have "inv (on_controller f c)" for f by (rule frame [OF inv]) simp_all
  from finished [OF this] have "inv (tcp_client_close (closure_Run (m_done (m_world c)) (on_controller f c)))" for f by simp
  moreover have "inv (addMessage m WriteCb c)" for m by (rule frame [OF inv]) (simp_all add: addMessage_def)
  from events(4) [OF this] have "inv (writeMessage m WriteCb c)" for m by (simp add: writeMessage_def addMessage_def)
  ultimately show ?thesis by (simp add: run_conn_cb_def ConnCb Let_def)
qed (simp_all add: run_conn_cb_def)

lemma connecting: "inv c \<Longrightarrow> inv (on_connect env rt k c)"
proof -
  assume inv: "inv c"
  have "inv (connected env c)"
    by (rule frame [OF inv]) (simp_all add: connected_def initLocalAddr_def setState_def)
  moreover have "inv (on_world (\<lambda>w. w\<lparr>m_connect_error_code := x, m_connect_error_info := y\<rparr>) c)" for x y
    by (rule frame [OF inv]) simp_all
  ultimately show ?thesis unfolding on_connect_def Let_def by (intro conn_cb events(2) refl) simp
qed

lemma timeout: "inv c \<Longrightarrow> inv (run_timeout task c)"
proof (cases task)
  case (TimeoutTask req)
  assume inv: "inv c"
  have "inv (on_controller f (on_controller g c))" for f g by (rule frame [OF inv]) simp_all
  from finished [OF this] show ?thesis by (simp add: run_timeout_def TimeoutTask Let_def)
qed

lemma timing:
  assumes "inv c" and "client_onTimer c = Some c'"
  shows "inv c'"
proof -
  have due: "inv d \<Longrightarrow> inv (run_due f run_timeout is d)" for f "is" d
    by (induction "is" arbitrary: d) (simp_all add: timeout split: option.split)
  from assms(2) show ?thesis by (auto simp: client_onTimer_def intro: due collected [OF assms(1)])
qed

lemma handler:
  assumes inv: "inv c" and run: "run_client_handler env a h c = Some c'"
  shows "inv c'"
proof (cases h)
  case (OnRead x)
  with run reading [OF inv] show ?thesis
    by (auto simp: run_client_handler_def split: option.splits sum.splits)
next
  case OnWakeup
  then obtain n where "c' = c\<lparr>conn_loop := (conn_loop c)\<lparr>m_wakeups := n\<rparr>\<rparr>"
    using run by (auto simp: run_client_handler_def)
  with watched [OF inv] show ?thesis by simp
qed (use run inv in \<open>auto simp: run_client_handler_def intro: writing timing connecting\<close>)

lemma task: "inv c \<Longrightarrow> client_task env objects a t c = Some c' \<Longrightarrow> inv c'"
  by (cases t) (auto simp: client_task_def intro: handler watched split: option.splits)

lemma tasks: "inv c \<Longrightarrow> client_tasks env objects a ts c = Some c' \<Longrightarrow> inv c'"
  by (induction ts arbitrary: c) (auto simp: bind_eq_Some_conv intro: task)

end

text \<open>An invariant that does not look at the queue is kept by the loop.\<close>

locale loop_invariant = client_invariant +
  assumes queued: "inv c \<Longrightarrow> inv (c\<lparr>conn_loop := (conn_loop c)\<lparr>m_pending_tasks := ts\<rparr>\<rparr>)"
begin

lemma taken: "inv c \<Longrightarrow> inv (queue_taken c)" and put: "inv c \<Longrightarrow> inv (queue_put ts c)"
  unfolding queue_taken_def queue_put_def by (erule queued)+

lemma round: "inv c \<Longrightarrow> client_round env objects r c = Some c' \<Longrightarrow> inv c'"
  by (cases r) (auto simp: client_round_eq intro: put tasks [OF taken])

lemma loop: "inv c \<Longrightarrow> case client_loop env objects rounds c of
    Returns c' \<Rightarrow> inv c' \<and> m_stop_flag (conn_loop c') | Waits c' \<Rightarrow> inv c' \<and> \<not> m_stop_flag (conn_loop c') | Hangs \<Rightarrow> True"
proof (induction rounds arbitrary: c)
  case (Cons r rounds)
  show ?case
  proof (cases "client_round env objects r c")
    case (Some c')
    with Cons.IH [OF round [OF Cons.prems Some]] Cons.prems show ?thesis by simp
  qed (use Cons.prems in simp)
qed simp

end

section \<open>The loop is stopped by the callback\<close>

definition stop_inv :: "'pb client \<Rightarrow> bool" where
  "stop_inv c \<longleftrightarrow> m_is_looping (conn_loop c) \<and> m_done (m_world c) = Some (RpcClosure True)
     \<and> (m_stop_flag (conn_loop c) \<longleftrightarrow> 1 \<le> done_runs (m_world c))"

lemma close_flags [simp]:
  "m_is_looping (conn_loop (tcp_client_close c)) = m_is_looping (conn_loop c)"
  "m_stop_flag (conn_loop (tcp_client_close c)) = (m_is_looping (conn_loop c) \<or> m_stop_flag (conn_loop c))"
  "m_read_callback (conn_event (tcp_client_close c)) = m_read_callback (conn_event c)"
  "m_write_callback (conn_event (tcp_client_close c)) = m_write_callback (conn_event c)"
  by (simp_all add: tcp_client_close_def)
    (simp_all add: conn_close_event_def close_event_def split_def Let_def stop_def loop_wakeup_def split: option.split)

lemma closure_Run_event [simp]:
  "conn_event (closure_Run cl c) = conn_event c" "conn_loop (closure_Run cl c) = conn_loop c"
  "m_timer (m_world (closure_Run cl c)) = m_timer (m_world c)"
  by (simp_all add: closure_Run_def split: option.split)

interpretation stopping: loop_invariant env stop_inv for env
  by unfold_locales (auto simp: stop_inv_def)

interpretation stopped: loop_invariant env "\<lambda>c. m_stop_flag (conn_loop c)" for env
  by unfold_locales auto

text \<open>In a client's thread nothing but \<open>epoll_wait\<close> fills the queue.\<close>

lemma close_pending [simp]: "m_pending_tasks (conn_loop (tcp_client_close c)) = m_pending_tasks (conn_loop c)"
  by (simp add: tcp_client_close_def)
    (simp add: conn_close_event_def split_def Let_def stop_def loop_wakeup_def split: option.split)

interpretation queue_kept: client_invariant env "\<lambda>c. m_pending_tasks (conn_loop c) = ts" for env ts
  by unfold_locales auto

text \<open>No handler registers the one-shot handler of \<open>connect\<close> again.\<close>

definition no_connect :: "'pb client \<Rightarrow> bool" where
  "no_connect c \<longleftrightarrow> (\<forall>k. m_read_callback (conn_event c) \<noteq> Some (OnConnect k) \<and> m_write_callback (conn_event c) \<noteq> Some (OnConnect k))"

interpretation connect_once: loop_invariant env no_connect for env
  by unfold_locales (auto simp: no_connect_def)

text \<open>The clock has passed a date: every later reading is at or after it.\<close>

definition clock_passed :: "int \<Rightarrow> 'pb client \<Rightarrow> bool" where
  "clock_passed a c \<longleftrightarrow> (\<forall>n \<ge> m_readings (m_timer (m_world c)). a \<le> m_clock (m_timer (m_world c)) n)"

lemma onTimer_collect_clock:
  assumes "onTimer_collect t = Some (events, t')"
  shows "m_clock t' = m_clock t" and "m_readings t \<le> m_readings t'"
proof -
  have reset: "m_clock (resetTimer t) = m_clock t \<and> m_readings t \<le> m_readings (resetTimer t)" for t :: "'a timer"
    by (simp add: resetTimer_def getNowMs_def timerfd_settime_def Let_def split: list.split)
  have add: "m_clock (addTimerEvent i t) = m_clock t \<and> m_readings t \<le> m_readings (addTimerEvent i t)" for i and t :: "'a timer"
    using reset [of "t\<lparr>m_pending_events := emplace (m_arrive_time (m_heap t i)) i (m_pending_events t)\<rparr>"]
    by (simp add: addTimerEvent_def Let_def)
  have again: "m_clock (addTimerEvent i (resetArriveTime i t)) = m_clock t
      \<and> m_readings t \<le> m_readings (addTimerEvent i (resetArriveTime i t))" for i and t :: "'a timer"
    using add [of i "resetArriveTime i t"] by (simp add: resetArriveTime_def getNowMs_def Let_def)
  have "m_clock (repeat_events is t) = m_clock t \<and> m_readings t \<le> m_readings (repeat_events is t)" for "is" and t :: "'a timer"
  proof (induction "is" arbitrary: t)
    case (Cons i "is")
    let ?t = "if m_is_repeat (m_heap t i) then addTimerEvent i (resetArriveTime i t) else t"
    have "m_clock ?t = m_clock t" "m_readings t \<le> m_readings ?t" using again [of i t] by simp_all
    with Cons [of ?t] show ?case unfolding repeat_events.simps by simp
  qed simp
  moreover obtain u "is" where "t' = repeat_events is (resetTimer u)" "m_clock u = m_clock t" "m_readings u = m_readings t + 1"
    using assms by (auto simp: onTimer_collect_def getNowMs_def Let_def split: if_splits)
  ultimately show "m_clock t' = m_clock t" "m_readings t \<le> m_readings t'"
    using reset [of u] by (metis, metis add_leD1 order_trans)
qed

interpretation clock: loop_invariant env "clock_passed a" for env a
proof unfold_locales
  fix c :: "'a client" and events t
  assume "clock_passed a c" and "onTimer_collect (m_timer (m_world c)) = Some (events, t)"
  with onTimer_collect_clock [of "m_timer (m_world c)" events t] show "clock_passed a (on_world (\<lambda>w. w\<lparr>m_timer := t\<rparr>) c)"
    by (auto simp: clock_passed_def)
qed (auto simp: clock_passed_def cancelTimerEvent_def)

section \<open>A call that blocks\<close>

text \<open>What decides whether a call goes on.\<close>

definition completion :: "'pb client \<Rightarrow> bool \<times> bool \<times> RpcClosure option \<times> nat" where
  "completion c = (m_is_looping (conn_loop c), m_stop_flag (conn_loop c), m_done (m_world c), done_runs (m_world c))"

lemma completion_facts [simp]:
  "completion (conn_addEpollEvent k c) = completion c" "completion (c\<lparr>conn_event := e\<rparr>) = completion c"
  "completion (writeMessage m k' c) = completion c" "completion (connected env c) = completion c"
  "completion (on_world (\<lambda>w. w\<lparr>m_timer := g w\<rparr>) c) = completion c"
  "completion (on_world (\<lambda>w. w\<lparr>m_timer := g w, m_timer_event := i\<rparr>) c) = completion c"
  "completion (on_controller f c) = completion c" "completion (on_argument f c) = completion c"
  by (simp_all add: completion_def writeMessage_def listenWriteEvent_def addMessage_def conn_addEpollEvent_def
      connected_def initLocalAddr_def setState_def)


definition unused_loop :: "'cb event_loop \<Rightarrow> bool" where
  "unused_loop l \<longleftrightarrow> \<not> m_is_looping l \<and> \<not> m_stop_flag l"

lemma run_conn_cb_completion:
  "m_connect_error_code (m_world c) = error_code OK \<Longrightarrow> completion (run_conn_cb (ConnCb req) c) = completion c"
  "m_connect_error_code (m_world c) \<noteq> error_code OK \<Longrightarrow> \<not> m_is_looping (conn_loop c)
     \<Longrightarrow> m_done (m_world c) = Some (RpcClosure True)
     \<Longrightarrow> completion (run_conn_cb (ConnCb req) c) = (False, m_stop_flag (conn_loop c), m_done (m_world c), done_runs (m_world c) + 1)"
  by (simp_all add: run_conn_cb_def Let_def tcp_client_close_def closure_Run_def)
    (simp add: completion_def)

lemma completion_enter:
  "completion c = (b, False, d, n) \<Longrightarrow> completion (enter_loop c) = (True, False, d, n)"
  by (auto simp: completion_def enter_loop_def)

lemma connect_completion:
  assumes "unused_loop (conn_loop c)" and "m_done (m_world c) = Some (RpcClosure True)" and "done_runs (m_world c) = 0"
  shows "completion (connect env rt (ConnCb req) c) =
     (if rt = ConnectOk \<or> rt = EINPROGRESS then (True, False, Some (RpcClosure True), 0)
      else (False, False, Some (RpcClosure True), 1))"
proof -
  have c: "completion c = (False, False, Some (RpcClosure True), 0)"
    using assms by (simp add: completion_def unused_loop_def)
  have ok: "completion (run_conn_cb (ConnCb req) (connected env c)) = completion c"
    using run_conn_cb_completion(1) [of "connected env c" req] by simp
  let ?d = "on_world (\<lambda>w. w\<lparr>m_connect_error_code := error_code SYS_FAILED_CONNECT, m_connect_error_info := strerror env rt\<rparr>) c"
  have bad: "completion (run_conn_cb (ConnCb req) ?d) = (False, False, Some (RpcClosure True), 1)"
    using run_conn_cb_completion(2) [of ?d req] assms by (simp add: unused_loop_def)
  let ?e = "conn_addEpollEvent (m_tid (conn_loop c)) (c\<lparr>conn_event := listen OUT_EVENT (OnConnect (ConnCb req)) (conn_event c)\<rparr>)"
  have "completion (enter_loop (run_conn_cb (ConnCb req) (connected env c))) = (True, False, Some (RpcClosure True), 0)"
    "completion (enter_loop ?e) = (True, False, Some (RpcClosure True), 0)"
    using ok c by (simp_all add: completion_enter [where b = False])
  with bad show ?thesis by (simp add: connect_def)
qed

lemma prepared_completion: "completion (prepared new_id name pb_data i c) = completion c"
  by (simp add: prepared_def Let_def)

lemma call_completion:
  assumes "unused_loop (conn_loop c)" and "m_done (m_world c) = Some (RpcClosure True)" and "done_runs (m_world c) = 0"
  shows "completion (RpcChannel_CallMethod env rt True new_id name request (Some (RpcClosure True)) i c) =
     (if m_is_init (m_world c) \<and> request \<noteq> None \<and> (rt = ConnectOk \<or> rt = EINPROGRESS)
      then (True, False, Some (RpcClosure True), 0) else (False, False, Some (RpcClosure True), 1))"
proof -
  have c: "completion c = (False, False, Some (RpcClosure True), 0)"
    using assms by (simp add: completion_def unused_loop_def)
  show ?thesis
  proof (cases "m_is_init (m_world c) \<and> request \<noteq> None")
    case False
    then show ?thesis
      using c by (auto simp: RpcChannel_CallMethod_def Let_def closure_Run_def completion_def split: option.split)
  next
    case True
    then obtain pb_data where r: "m_is_init (m_world c)" "request = Some pb_data" by auto
    let ?p = "prepared new_id name pb_data i c"
    have "completion ?p = (False, False, Some (RpcClosure True), 0)" using c prepared_completion by metis
    then have "unused_loop (conn_loop ?p)" "m_done (m_world ?p) = Some (RpcClosure True)" "done_runs (m_world ?p) = 0"
      by (simp_all add: completion_def unused_loop_def)
    from connect_completion [OF this] r show ?thesis by (simp add: CallMethod_prepared)
  qed
qed

text \<open>
  C10: A call blocks until it is completed.  Made in a thread whose loop has not run yet, it does not
  return before the user's callback has run, and the loop goes on only as long as it has not: on every
  path, whatever the system calls return, whatever the server sends and in whatever order the loop
  finds its events.  Only a handler that does not return keeps it from one of the two.
\<close>

theorem call_blocks_until_completed:
  assumes "unused_loop (conn_loop c)" and "m_done (m_world c) = Some (RpcClosure True)" and "done_runs (m_world c) = 0"
  shows "case blocking_call env objects rt True new_id name request (Some (RpcClosure True)) i rounds c of
     Returns c' \<Rightarrow> 1 \<le> done_runs (m_world c')
   | Waits c' \<Rightarrow> done_runs (m_world c') = 0 \<and> m_is_looping (conn_loop c')
   | Hangs \<Rightarrow> True"
proof -
  define c' where "c' = RpcChannel_CallMethod env rt True new_id name request (Some (RpcClosure True)) i c"
  note comp = call_completion [OF assms, of env rt new_id name request i, folded c'_def]
  show ?thesis
  proof (cases "m_is_looping (conn_loop c')")
    case True
    with comp have "stop_inv c'" by (auto simp: completion_def stop_inv_def split: if_splits)
    from stopping.loop [OF this, of env objects rounds] True assms(1) show ?thesis
      by (auto simp: blocking_call_def c'_def [symmetric] unused_loop_def stop_inv_def split: blocking.split)
  next
    case False
    with comp show ?thesis
      by (auto simp: blocking_call_def c'_def [symmetric] completion_def split: if_splits)
  qed
qed

theorem call_blocks_until_completed_witness:
  "case blocking_call sample_env Map.empty EINPROGRESS True [] [46] (Some []) (Some (RpcClosure True)) 0
      [(\<lparr>ca_read = [], ca_write = [], ca_connect = EISCONN\<rparr>, Epoll_events [(Some 7, EPOLLOUT)])] sample_client of
     Returns c' \<Rightarrow> 1 \<le> done_runs (m_world c')
   | Waits c' \<Rightarrow> done_runs (m_world c') = 0 \<and> m_is_looping (conn_loop c')
   | Hangs \<Rightarrow> True"
proof -
  have c: "unused_loop (conn_loop sample_client)" "m_done (m_world sample_client) = Some (RpcClosure True)"
    "done_runs (m_world sample_client) = 0"
    by (simp_all add: sample_client_def TcpConnection_new_def Let_def unused_loop_def EventLoop_new_eq ADD_TO_EPOLL_def)
  show ?thesis by (rule call_blocks_until_completed [OF c])
qed

end
