(* ===== verification/BlockingCall.thy ===== *)
theory BlockingCall
  imports ClientLoopProperties
begin

text \<open>
  A blocking call whose connection can be established runs the user's callback exactly once, and
  returns by its timeout at the latest: the invariants of a call hold in the running loop, where the
  one-shot handler of \<open>connect\<close> is queued at most once.
\<close>

section \<open>The phases of a call in its loop\<close>

fun is_connect :: "rpc_closure handler loop_task \<Rightarrow> bool" where
  "is_connect (Call (Some (OnConnect k))) = True"
| "is_connect _ = False"

definition connects :: "rpc_closure handler loop_task list \<Rightarrow> nat" where
  "connects ts = length (filter is_connect ts)"

lemma connects_simps [simp]:
  "connects [] = 0" "connects (t # ts) = (if is_connect t then 1 else 0) + connects ts"
  "connects (ts @ us) = connects ts + connects us"
  by (simp_all add: connects_def)

text \<open>The connection is in progress, with the one-shot handler registered and queued at most once; or
  it was established.  \<open>ts\<close> are the tasks still to run.\<close>

definition connecting_call :: "tinypb_protocol \<Rightarrow> 'pb client \<Rightarrow> bool" where
  "connecting_call req c \<longleftrightarrow> idle_call c \<and> m_state c = NotConnected
     \<and> (\<forall>k. m_read_callback (conn_event c) \<noteq> Some (OnConnect k))
     \<and> m_write_callback (conn_event c) = Some (OnConnect (ConnCb req))"

definition call_phase :: "tinypb_protocol \<Rightarrow> rpc_closure handler loop_task list \<Rightarrow> 'pb client \<Rightarrow> bool" where
  "call_phase req ts c \<longleftrightarrow>
     connecting_call req c \<and> connects ts \<le> 1 \<and> (\<forall>k. Call (Some (OnConnect k)) \<in> set ts \<longrightarrow> k = ConnCb req)
     \<or> call_inv c \<and> no_connect c \<and> connects ts = 0"

definition running_call :: "nat \<Rightarrow> int \<Rightarrow> tinypb_protocol \<Rightarrow> rpc_closure handler loop_task list \<Rightarrow> 'pb client \<Rightarrow> bool" where
  "running_call i a req ts c \<longleftrightarrow> call_phase req ts c \<and> call_live i a (m_world c) \<and> stop_inv c"

lemma call_phase_inv: "call_phase req ts c \<Longrightarrow> call_inv c"
  by (auto simp: call_phase_def connecting_call_def idle_call_def)

lemma call_phase_loop: "call_phase req ts (c\<lparr>conn_loop := l\<rparr>) = call_phase req ts c"
  by (simp add: call_phase_def connecting_call_def idle_call_def no_connect_def call_inv_def)

lemma call_phase_drop: "call_phase req (t # ts) c \<Longrightarrow> call_phase req ts c"
  by (auto simp: call_phase_def split: if_splits)

lemma working_phase: "call_inv c \<Longrightarrow> no_connect c \<Longrightarrow> call_phase req [] c"
  by (simp add: call_phase_def)

lemma call_phase_working:
  assumes "call_phase req (t # ts) c" and "call_inv c'" and "no_connect c \<Longrightarrow> no_connect c'"
    and "connecting_call req c \<Longrightarrow> c' = c"
  shows "call_phase req ts c'"
  using call_phase_drop [OF assms(1)] assms(2-4) by (auto simp: call_phase_def)

section \<open>One task\<close>

lemma client_onTimer_connection:
  assumes "client_onTimer c = Some c'"
  shows "m_state c' = m_state c" and "m_read_callback (conn_event c') = m_read_callback (conn_event c)"
    and "m_write_callback (conn_event c') = m_write_callback (conn_event c)"
proof -
  have due: "m_state (run_due f run_timeout is d) = m_state d
      \<and> m_read_callback (conn_event (run_due f run_timeout is d)) = m_read_callback (conn_event d)
      \<and> m_write_callback (conn_event (run_due f run_timeout is d)) = m_write_callback (conn_event d)"
    for f "is" and d :: "'a client"
  proof (induction "is" arbitrary: d)
    case (Cons j js)
    have state: "m_state (closure_Run cl d) = m_state d" for cl and d :: "'a client"
      by (simp add: closure_Run_def split: option.split)
    have "m_state (run_timeout task d) = m_state d \<and> m_read_callback (conn_event (run_timeout task d)) = m_read_callback (conn_event d)
        \<and> m_write_callback (conn_event (run_timeout task d)) = m_write_callback (conn_event d)" for task
      by (cases task) (simp add: run_timeout_def Let_def state)
    with Cons show ?case by (simp split: option.split)
  qed simp
  show "m_state c' = m_state c" "m_read_callback (conn_event c') = m_read_callback (conn_event c)"
    "m_write_callback (conn_event c') = m_write_callback (conn_event c)"
    using assms due by (auto simp: client_onTimer_def)
qed

lemma on_connect_phase:
  assumes "connecting_call req c" and "rt = EISCONN \<or> rt = ConnectOk"
  shows "call_inv (on_connect env rt (ConnCb req) c)" and "no_connect (on_connect env rt (ConnCb req) c)"
proof -
  show "call_inv (on_connect env rt (ConnCb req) c)"
    using assms by (intro on_connect_success) (auto simp: connecting_call_def)
  define d where "d = conn_deleteEpollEvent (m_tid (conn_loop (connected env c))) (connected env c)"
  have "conn_event d = conn_event c"
    by (simp add: d_def conn_deleteEpollEvent_def connected_def initLocalAddr_def setState_def)
  moreover have "on_connect env rt (ConnCb req) c = writeMessage (TinyPB req) WriteCb d"
    using assms(2) by (auto simp: on_connect_def d_def run_conn_cb_def Let_def)
  ultimately show "no_connect (on_connect env rt (ConnCb req) c)"
    using assms(1) by (simp add: no_connect_def writeMessage_def listenWriteEvent_def conn_addEpollEvent_def addMessage_def
        listen_def connecting_call_def)
qed

text \<open>What the \<open>::connect\<close> of the one-shot handler answers when the connection came about.\<close>

definition connect_succeeds :: "client_answers \<Rightarrow> bool" where
  "connect_succeeds ans \<longleftrightarrow> ca_connect ans = EISCONN \<or> ca_connect ans = ConnectOk"

lemma phase_task:
  assumes run: "running_call i a req (t # ts) c" and task: "client_task env objects ans t c = Some c'"
    and connecting: "is_connect t \<Longrightarrow> connect_succeeds ans"
  shows "running_call i a req ts c'"
proof -
  have phase: "call_phase req (t # ts) c" and live: "call_live i a (m_world c)" and stop: "stop_inv c"
    using run by (simp_all add: running_call_def)
  have inv: "call_inv c" by (rule call_phase_inv [OF phase])
  have "call_phase req ts c' \<and> call_live i a (m_world c')"
  proof (cases t)
    case (Call co)
    show ?thesis
    proof (cases co)
      case None
      with task Call phase live show ?thesis by (auto simp: client_task_def dest: call_phase_drop)
    next
      case (Some h)
      with task Call have h: "run_client_handler env ans h c = Some c'" by (simp add: client_task_def)
      show ?thesis
      proof (cases h)
        case (OnRead x)
        with h have r: "onRead no_dispatch (run_message_cb env) (ca_read ans) c = Some (Inr c')"
          by (auto simp: run_client_handler_def split: option.splits sum.splits)
        have "c' = c" if "connecting_call req c" using that r by (simp add: connecting_call_def onRead_def)
        with call_phase_working [OF phase onRead_inv [OF inv r] connect_once.reading [OF _ r]]
        show ?thesis using onRead_live [OF inv live r] by blast
      next
        case (OnWrite x)
        with h have r: "onWrite (run_message_cb env) (ca_write ans) c = Some c'" by (simp add: run_client_handler_def)
        have "c' = c" if "connecting_call req c" using that r by (simp add: connecting_call_def onWrite_def)
        with call_phase_working [OF phase onWrite_inv [OF inv r] connect_once.writing [OF _ r]]
        show ?thesis using onWrite_world [OF inv r] live by simp
      next
        case OnAccept
        with h phase live show ?thesis by (auto simp: run_client_handler_def dest: call_phase_drop)
      next
        case OnTimer
        with h have r: "client_onTimer c = Some c'" by (simp add: run_client_handler_def)
        have "connecting_call req c'" if "connecting_call req c"
          using that client_onTimer_connection [OF r] idle_EvTimer [of c env] r by (simp add: connecting_call_def)
        with call_phase_drop [OF phase] client_onTimer_inv [OF inv r] connect_once.timing [OF _ r]
        have "call_phase req ts c'" by (auto simp: call_phase_def)
        with onTimer_live(1) [OF live r] show ?thesis by simp
      next
        case OnWakeup
        with h obtain n where "c' = c\<lparr>conn_loop := (conn_loop c)\<lparr>m_wakeups := n\<rparr>\<rparr>"
          by (auto simp: run_client_handler_def)
        with call_phase_drop [OF phase] live show ?thesis by (simp add: call_phase_loop)
      next
        case (OnConnect k)
        with h have c': "c' = on_connect env (ca_connect ans) k c" by (simp add: run_client_handler_def)
        have p: "connecting_call req c" "connects ts = 0" "k = ConnCb req"
          using phase by (auto simp: call_phase_def Call Some OnConnect)
        have conn: "ca_connect ans = EISCONN \<or> ca_connect ans = ConnectOk"
          using connecting by (simp add: Call Some OnConnect connect_succeeds_def)
        from on_connect_phase [OF p(1) conn, of env] on_connect_live [OF live conn, of env req] p(2,3) show ?thesis
          by (simp add: c' call_phase_def)
      qed
    qed
  qed (use task phase live in \<open>auto simp: client_task_def call_phase_loop dest: call_phase_drop\<close>)
  with stopping.task [OF stop task] show ?thesis by (simp add: running_call_def)
qed

lemma phase_tasks:
  assumes "running_call i a req ts c" and "client_tasks env objects ans ts c = Some c'"
    and "connects ts \<noteq> 0 \<Longrightarrow> connect_succeeds ans"
  shows "running_call i a req [] c'"
  using assms
proof (induction ts arbitrary: c)
  case (Cons t ts)
  then obtain d where d: "client_task env objects ans t c = Some d" "client_tasks env objects ans ts d = Some c'"
    by (auto simp: bind_eq_Some_conv)
  show ?case
    by (rule Cons.IH [OF phase_task [OF Cons.prems(1) d(1)] d(2)]) (use Cons.prems(3) in simp_all)
qed simp

section \<open>One round\<close>

text \<open>The loop's own objects never hold the handler of \<open>connect\<close>.\<close>

definition no_connect_objects :: "(nat \<Rightarrow> rpc_closure handler fd_event option) \<Rightarrow> bool" where
  "no_connect_objects objects \<longleftrightarrow> (\<forall>p e k. objects p = Some e \<longrightarrow>
     m_read_callback e \<noteq> Some (OnConnect k) \<and> m_write_callback e \<noteq> Some (OnConnect k))"

text \<open>The rounds of a call whose connection comes about, from a given state on.  \<open>epoll_wait\<close> reports a
  descriptor once.  In the round that runs the handler of \<open>connect\<close>, if there is one, the handler finds
  the connection established; of what \<open>::connect\<close> would answer in any other round nothing is asked.  Left
  out is the batch in which the timer comes before that handler: the timeout would have closed the
  descriptor by then, and \<open>::connect\<close> could only fail.\<close>

fun timer_before_connect :: "rpc_closure handler loop_task list \<Rightarrow> bool" where
  "timer_before_connect [] = False"
| "timer_before_connect (t # ts) = (t = Call (Some OnTimer) \<and> connects ts \<noteq> 0 \<or> timer_before_connect ts)"

definition good_batch :: "client_answers \<Rightarrow> rpc_closure handler loop_task list \<Rightarrow> bool" where
  "good_batch ans ts \<longleftrightarrow> (connects ts \<noteq> 0 \<longrightarrow> connect_succeeds ans) \<and> \<not> timer_before_connect ts"

definition reported_once :: "epoll_result \<Rightarrow> bool" where
  "reported_once rt \<longleftrightarrow> (case rt of Epoll_error \<Rightarrow> True | Epoll_events evs \<Rightarrow> distinct (List.map_filter fst evs))"

fun good_rounds :: "'pb rpc_env \<Rightarrow> (nat \<Rightarrow> rpc_closure handler fd_event option)
    \<Rightarrow> (client_answers \<times> epoll_result) list \<Rightarrow> 'pb client \<Rightarrow> bool" where
  "good_rounds env objects [] c \<longleftrightarrow> True"
| "good_rounds env objects ((ans, rt) # rounds) c \<longleftrightarrow>
     m_stop_flag (conn_loop c)
     \<or> good_batch ans (m_pending_tasks (conn_loop c)) \<and> reported_once rt
       \<and> (case client_round env objects (ans, rt) c of
            Some c' \<Rightarrow> good_rounds env objects rounds c'
          | None \<Rightarrow> True)"

lemma trigger_no_connect:
  "(\<And>p k. m_read_callback (h p) \<noteq> Some (OnConnect k) \<and> m_write_callback (h p) \<noteq> Some (OnConnect k))
     \<Longrightarrow> connects (trigger_tasks h evs) = 0"
proof (induction h evs rule: trigger_tasks.induct)
  case (3 h p ev evs)
  have "\<not> is_connect (Call (m_read_callback (h p)))" "\<not> is_connect (Call (m_write_callback (h p)))"
    using 3(2) [of p] by (auto elim!: is_connect.elims)
  with 3 show ?case by simp
qed simp_all

lemma trigger_one_connect:
  assumes "\<And>p k. p \<noteq> q \<Longrightarrow> m_read_callback (h p) \<noteq> Some (OnConnect k) \<and> m_write_callback (h p) \<noteq> Some (OnConnect k)"
    and "distinct (List.map_filter fst evs)"
  shows "connects (trigger_tasks h evs) \<le> (if q \<in> set (List.map_filter fst evs) then 1 else 0)"
  using assms
proof (induction h evs rule: trigger_tasks.induct)
  case (3 h p ev evs)
  have "p \<noteq> q \<Longrightarrow> \<not> is_connect (Call (m_read_callback (h p))) \<and> \<not> is_connect (Call (m_write_callback (h p)))"
    using 3(2) [of p] by (auto elim!: is_connect.elims)
  moreover have "connects (trigger_tasks h evs) \<le> (if q \<in> set (List.map_filter fst evs) then 1 else 0)"
    using 3 by (simp add: List.map_filter_simps)
  ultimately show ?case using 3(3) by (auto simp: List.map_filter_simps split: if_splits)
qed (simp_all add: List.map_filter_simps)

lemma trigger_in:
  "Call co \<in> set (trigger_tasks h evs) \<Longrightarrow> \<exists>p. co = m_read_callback (h p) \<or> co = m_write_callback (h p)"
  by (induction h evs rule: trigger_tasks.induct) (auto split: if_splits)

lemma trigger_reads:
  "(Some p, EPOLLIN) \<in> set evs \<Longrightarrow> Call (m_read_callback (h p)) \<in> set (trigger_tasks h evs)"
  by (induction h evs rule: trigger_tasks.induct) (auto simp: EPOLLIN_def)

lemma client_fd_object_cases:
  "e = client_fd_object objects c p \<Longrightarrow>
     objects p = Some e \<or> e = conn_event c \<and> int p = m_fd (conn_event c) \<or> e = FdEvent_new (int p)"
  by (auto simp: client_fd_object_def split: option.splits if_splits)

lemma phase_round_tasks:
  assumes phase: "call_phase req [] c" and objects: "no_connect_objects objects" and good: "reported_once rt"
  shows "call_phase req (round_tasks objects rt c) c"
proof (cases rt)
  case Epoll_error
  with phase show ?thesis by (simp add: round_tasks_def)
next
  case (Epoll_events evs)
  let ?h = "client_fd_object objects c"
  have other: "m_read_callback (?h p) \<noteq> Some (OnConnect k) \<and> m_write_callback (?h p) \<noteq> Some (OnConnect k)"
    if "no_connect c \<or> p \<noteq> nat (m_fd (conn_event c))" for p k
    using client_fd_object_cases [where objects = objects and c = c and p = p, OF refl] that objects
    by (auto simp: no_connect_objects_def no_connect_def FdEvent_new_def)
  show ?thesis
  proof (cases "no_connect c")
    case True
    then have "\<not> connecting_call req c" by (auto simp: connecting_call_def no_connect_def)
    with phase True trigger_no_connect [of ?h evs] other show ?thesis
      by (simp add: call_phase_def round_tasks_def Epoll_events)
  next
    case False
    with phase have c: "connecting_call req c" by (auto simp: call_phase_def)
    have "connects (trigger_tasks ?h evs) \<le> 1"
      using trigger_one_connect [of "nat (m_fd (conn_event c))" ?h evs] other good
      by (auto simp: Epoll_events reported_once_def split: if_splits)
    moreover have "k = ConnCb req" if queued: "Call (Some (OnConnect k)) \<in> set (trigger_tasks ?h evs)" for k
    proof -
      obtain p where p: "m_read_callback (?h p) = Some (OnConnect k) \<or> m_write_callback (?h p) = Some (OnConnect k)"
        using trigger_in [OF queued] by metis
      show ?thesis
        using client_fd_object_cases [where objects = objects and c = c and p = p, OF refl] p c objects
        by (auto simp: connecting_call_def no_connect_objects_def FdEvent_new_def)
    qed
    ultimately show ?thesis using c by (simp add: call_phase_def round_tasks_def Epoll_events)
  qed
qed

text \<open>A state between two rounds.\<close>

definition between :: "nat \<Rightarrow> int \<Rightarrow> tinypb_protocol \<Rightarrow> 'pb client \<Rightarrow> bool" where
  "between i a req c \<longleftrightarrow> running_call i a req (m_pending_tasks (conn_loop c)) c"

lemma queue_facts [simp]:
  "m_world (queue_taken c) = m_world c" "m_world (queue_put ts c) = m_world c"
  "m_pending_tasks (conn_loop (queue_taken c)) = []"
  "m_pending_tasks (conn_loop (queue_put ts c)) = m_pending_tasks (conn_loop c) @ ts"
  "call_phase req us (queue_taken c) = call_phase req us c" "call_phase req us (queue_put ts c) = call_phase req us c"
  "stop_inv (queue_taken c) = stop_inv c" "stop_inv (queue_put ts c) = stop_inv c"
  "m_stop_flag (conn_loop (queue_taken c)) = m_stop_flag (conn_loop c)"
  "m_stop_flag (conn_loop (queue_put ts c)) = m_stop_flag (conn_loop c)"
  by (simp_all add: queue_taken_def queue_put_def call_phase_loop stop_inv_def)

lemma between_inv: "between i a req c \<Longrightarrow> call_inv c \<and> stop_inv c \<and> call_live i a (m_world c)"
  by (auto simp: between_def running_call_def dest: call_phase_inv)

lemma between_round:
  assumes "between i a req c" and "client_round env objects (ans, rt) c = Some c'"
    and "no_connect_objects objects" and "good_batch ans (m_pending_tasks (conn_loop c))" and "reported_once rt"
  shows "between i a req c'"
proof -
  obtain d where d: "client_tasks env objects ans (m_pending_tasks (conn_loop c)) (queue_taken c) = Some d"
    "c' = queue_put (round_tasks objects rt d) d"
    using assms(2) by (auto simp: client_round_eq)
  have "running_call i a req (m_pending_tasks (conn_loop c)) (queue_taken c)"
    using assms(1) by (simp add: between_def running_call_def)
  then have run: "running_call i a req [] d" by (rule phase_tasks [OF _ d(1)]) (use assms(4) in \<open>simp add: good_batch_def\<close>)
  have "m_pending_tasks (conn_loop d) = []" by (rule queue_kept.tasks [OF _ d(1)]) simp
  with run phase_round_tasks [of req d objects rt] assms(3,5) show ?thesis
    by (simp add: between_def running_call_def d(2))
qed

lemma between_loop:
  assumes "between i a req c" and "no_connect_objects objects" and "good_rounds env objects rounds c"
  shows "case client_loop env objects rounds c of
     Returns c' \<Rightarrow> between i a req c' \<and> m_stop_flag (conn_loop c')
   | Waits c' \<Rightarrow> between i a req c' \<and> \<not> m_stop_flag (conn_loop c') | Hangs \<Rightarrow> True"
  using assms
proof (induction rounds arbitrary: c)
  case (Cons r rounds)
  obtain ans rt where r: "r = (ans, rt)" by (cases r)
  show ?case
  proof (cases "m_stop_flag (conn_loop c)")
    case False
    with Cons.prems(3) have good: "good_batch ans (m_pending_tasks (conn_loop c))" "reported_once rt" by (simp_all add: r)
    show ?thesis
    proof (cases "client_round env objects (ans, rt) c")
      case (Some c')
      with Cons.IH [of c'] Cons.prems(2,3) False between_round [OF Cons.prems(1) Some Cons.prems(2) good] show ?thesis
        by (simp add: r)
    qed (use False in \<open>simp add: r\<close>)
  qed (use Cons.prems in simp)
qed simp

lemma good_rounds_append:
  "good_rounds env objects (rs @ us) c \<longleftrightarrow> good_rounds env objects rs c
     \<and> (case client_loop env objects rs c of Waits c' \<Rightarrow> good_rounds env objects us c' | _ \<Rightarrow> True)"
proof (induction rs arbitrary: c)
  case Nil
  then show ?case by (cases us) auto
next
  case (Cons r rs)
  then show ?case by (cases r) (auto split: option.split)
qed

section \<open>The timeout in the loop\<close>

lemma timer_task:
  assumes "running_call i a req ts c" and "Call (Some OnTimer) \<in> set ts" and "clock_passed a c"
    and "client_tasks env objects ans ts c = Some c'" and "connects ts \<noteq> 0 \<Longrightarrow> connect_succeeds ans"
  shows "m_stop_flag (conn_loop c')"
  using assms
proof (induction ts arbitrary: c)
  case (Cons t ts)
  then obtain d where d: "client_task env objects ans t c = Some d" "client_tasks env objects ans ts d = Some c'"
    by (auto simp: bind_eq_Some_conv)
  have run: "running_call i a req ts d" by (rule phase_task [OF Cons.prems(1) d(1)]) (use Cons.prems(5) in simp)
  have rest: "connects ts \<noteq> 0 \<Longrightarrow> connect_succeeds ans" using Cons.prems(5) by simp
  show ?case
  proof (cases "t = Call (Some OnTimer)")
    case True
    then have "client_onTimer c = Some d" using d(1) by (simp add: client_task_def run_client_handler_def)
    moreover have "a \<le> m_clock (m_timer (m_world c)) (m_readings (m_timer (m_world c)))"
      using Cons.prems(3) by (simp add: clock_passed_def)
    ultimately have "1 \<le> done_runs (m_world d)" using onTimer_live(2) Cons.prems(1) by (auto simp: running_call_def)
    then have "m_stop_flag (conn_loop d)" using run by (simp add: running_call_def stop_inv_def)
    then show ?thesis by (rule stopped.tasks [OF _ d(2)])
  next
    case False
    with Cons.IH [OF run _ _ d(2) rest] Cons.prems(2) clock.task [OF Cons.prems(3) d(1)] show ?thesis by simp
  qed
qed simp

lemma timer_round:
  assumes "between i a req c" and "Call (Some OnTimer) \<in> set (m_pending_tasks (conn_loop c))" and "clock_passed a c"
    and "client_round env objects (ans, rt) c = Some c'" and "good_batch ans (m_pending_tasks (conn_loop c))"
  shows "m_stop_flag (conn_loop c')"
proof -
  obtain d where d: "client_tasks env objects ans (m_pending_tasks (conn_loop c)) (queue_taken c) = Some d"
    "c' = queue_put (round_tasks objects rt d) d"
    using assms(4) by (auto simp: client_round_eq)
  have "running_call i a req (m_pending_tasks (conn_loop c)) (queue_taken c)" "clock_passed a (queue_taken c)"
    using assms(1,3) by (simp_all add: between_def running_call_def clock_passed_def)
  from timer_task [OF this(1) assms(2) this(2) d(1)] assms(5) show ?thesis by (simp add: d(2) good_batch_def)
qed

lemma loop_append:
  "client_loop env objects (rs @ us) c =
     (case client_loop env objects rs c of Waits c' \<Rightarrow> client_loop env objects us c' | res \<Rightarrow> res)"
proof (induction rs arbitrary: c)
  case Nil
  then show ?case by (cases us) simp_all
qed (simp split: option.split)

lemma waits_queue:
  assumes "client_loop env objects [(ans, Epoll_events evs)] c = Waits c'"
    and "(Some p, EPOLLIN) \<in> set evs" and "objects p = Some e"
  shows "Call (m_read_callback e) \<in> set (m_pending_tasks (conn_loop c'))"
proof -
  obtain d where "c' = queue_put (round_tasks objects (Epoll_events evs) d) d"
    using assms(1) by (auto simp: client_round_eq split: if_splits option.splits)
  then show ?thesis
    using trigger_reads [OF assms(2), of "client_fd_object objects d"] assms(3) by (simp add: round_tasks_def client_fd_object_def)
qed

section \<open>From the start of the call\<close>

text \<open>A client as \<open>RpcChannel\<close> and \<open>Init\<close> make it, in a thread whose loop is new.\<close>

definition fresh_call :: "'pb client \<Rightarrow> bool" where
  "fresh_call c \<longleftrightarrow> fresh_client c \<and> m_state c = NotConnected \<and> no_connect c \<and> unused_loop (conn_loop c)
     \<and> m_pending_tasks (conn_loop c) = [] \<and> m_done (m_world c) = Some (RpcClosure True)"

text \<open>When the timeout of the call is due.\<close>

definition call_deadline :: "'pb client \<Rightarrow> int" where
  "call_deadline c = m_clock (m_timer (m_world c)) (m_readings (m_timer (m_world c))) + GetTimeout (argument_controller (m_world c))"

lemma prepared_connection [simp]:
  "m_state (prepared new_id name pb_data i c) = m_state c" "conn_event (prepared new_id name pb_data i c) = conn_event c"
  "conn_loop (prepared new_id name pb_data i c) = conn_loop c"
  by (simp_all add: prepared_def Let_def)

lemma enter_loop_facts [simp]:
  "conn_event (enter_loop c) = conn_event c" "m_state (enter_loop c) = m_state c"
  "m_pending_tasks (conn_loop (enter_loop c)) = m_pending_tasks (conn_loop c)"
  "m_is_looping (conn_loop (enter_loop c))"
  by (simp_all add: enter_loop_def)

lemma call_starts:
  assumes fresh: "fresh_call c" and rt: "rt = ConnectOk \<or> rt = EINPROGRESS"
    and c1: "c1 = RpcChannel_CallMethod env rt True new_id name (Some pb_data) (Some (RpcClosure True)) i c"
  shows "between i (call_deadline c) (complete (setPbData pb_data (CallMethod_request new_id name c))) c1"
    and "m_is_looping (conn_loop c1)"
proof -
  let ?req = "complete (setPbData pb_data (CallMethod_request new_id name c))" and ?p = "prepared new_id name pb_data i c"
  have client: "fresh_client c" "m_state c = NotConnected" "no_connect c" "unused_loop (conn_loop c)"
    "m_pending_tasks (conn_loop c) = []" "m_done (m_world c) = Some (RpcClosure True)"
    using fresh by (simp_all add: fresh_call_def)
  have init: "m_is_init (m_world c)" "done_runs (m_world c) = 0" using client(1) by (simp_all add: fresh_client_def)
  note idle = prepared_facts(1) [OF client(1), of new_id name pb_data i]
  have live: "call_live i (call_deadline c) (m_world ?p)"
    using prepared_live [OF client(1,6)] by (simp add: call_deadline_def)
  have eq: "c1 = connect env rt (ConnCb ?req) ?p" by (simp add: c1 CallMethod_prepared [OF init(1)])
  have comp: "completion c1 = (True, False, Some (RpcClosure True), 0)"
    using call_completion [OF client(4,6) init(2)] init(1) rt by (simp add: c1)
  then show "m_is_looping (conn_loop c1)" by (simp add: completion_def)
  have stop: "stop_inv c1" using comp by (simp add: completion_def stop_inv_def)
  show "between i (call_deadline c) ?req c1"
  proof (cases "rt = ConnectOk")
    case True
    let ?d = "run_conn_cb (ConnCb ?req) (connected env ?p)"
    have c1': "c1 = enter_loop ?d" using True by (simp add: eq connect_def)
    have d: "?d = writeMessage (TinyPB ?req) WriteCb (connected env ?p)" by (simp add: run_conn_cb_def)
    have con: "conn_event (connected env ?p) = conn_event c" "conn_loop (connected env ?p) = conn_loop c"
      by (simp_all add: connected_def initLocalAddr_def setState_def)
    have "call_inv c1" using conn_cb_success [OF idle] by (simp add: c1')
    moreover have "no_connect c1"
      using client(3) con by (simp add: c1' d no_connect_def writeMessage_def listenWriteEvent_def conn_addEpollEvent_def
          addMessage_def listen_def)
    moreover have "m_pending_tasks (conn_loop c1) = []"
      using client(5) con by (simp add: c1' d writeMessage_def listenWriteEvent_def conn_addEpollEvent_def addMessage_def
          addEpollEvent_def isInLoopThread_def)
    moreover have "call_live i (call_deadline c) (m_world c1)"
      using live connected_live [of i "call_deadline c" env ?p] by (simp add: c1' run_conn_cb_ok_world)
    ultimately show ?thesis using stop by (simp add: between_def running_call_def call_phase_def)
  next
    case False
    with rt have r: "rt = EINPROGRESS" by simp
    let ?d = "?p\<lparr>conn_event := listen OUT_EVENT (OnConnect (ConnCb ?req)) (conn_event c)\<rparr>"
    have c1': "c1 = enter_loop (conn_addEpollEvent (m_tid (conn_loop ?p)) ?d)" using r by (simp add: eq connect_def)
    have e: "conn_event c1 = listen OUT_EVENT (OnConnect (ConnCb ?req)) (conn_event c)" "m_state c1 = NotConnected"
      "m_pending_tasks (conn_loop c1) = []" "m_world c1 = m_world ?p"
      using client(2,5) by (simp_all add: c1' conn_addEpollEvent_def addEpollEvent_def isInLoopThread_def)
    have "idle_call c1" using connect_in_progress [OF idle, of env "ConnCb ?req"] r by (simp add: eq)
    then have "connecting_call ?req c1"
      using client(3) e by (simp add: connecting_call_def no_connect_def listen_def)
    with e live stop show ?thesis by (simp add: between_def running_call_def call_phase_def)
  qed
qed

section \<open>Properties\<close>


definition sample_objects :: "nat \<Rightarrow> rpc_closure handler fd_event option" where
  "sample_objects = [3 \<mapsto> WakeupFdEvent_new 3, 4 \<mapsto> listen IN_EVENT OnTimer (FdEvent_new 4)]"

definition sample_answers :: client_answers where
  "sample_answers = \<lparr>ca_read = [], ca_write = [], ca_connect = EISCONN\<rparr>"

lemma sample_objects_facts:
  "no_connect_objects sample_objects" "sample_objects 4 = Some (listen IN_EVENT OnTimer (FdEvent_new 4))"
  "m_read_callback (listen IN_EVENT OnTimer (FdEvent_new 4)) = Some OnTimer"
  by (auto simp: no_connect_objects_def sample_objects_def WakeupFdEvent_new_def WakeupFdEvent_init_def listen_def FdEvent_new_def
      split: if_splits)

lemma fresh_sample_call: "fresh_call sample_client"
  using fresh_sample_client
  by (simp add: fresh_call_def sample_client_def TcpConnection_new_def no_connect_def unused_loop_def EventLoop_new_eq
      setNonBlocking_def FdEvent_new_def)

text \<open>Rounds in which the connection is in progress, its handler runs, and the timer is reported later.\<close>

definition sample_rounds :: "(client_answers \<times> epoll_result) list" where
  "sample_rounds = [(sample_answers, Epoll_events [(Some 7, EPOLLOUT)]), (sample_answers, Epoll_events [(Some 4, EPOLLIN)]),
     (sample_answers, Epoll_error)]"

lemma sample_rounds_good:
  "good_rounds sample_env sample_objects sample_rounds
     (RpcChannel_CallMethod sample_env EINPROGRESS True [] [46] (Some []) (Some (RpcClosure True)) 0 sample_client)"
proof -
  let ?c = "RpcChannel_CallMethod sample_env EINPROGRESS True [] [46] (Some []) (Some (RpcClosure True)) 0 sample_client"
  let ?req = "complete (setPbData [] (CallMethod_request [] [46] sample_client))"
  have c: "m_pending_tasks (conn_loop ?c) = []" "m_fd (conn_event ?c) = int 7"
    "m_write_callback (conn_event ?c) = Some (OnConnect (ConnCb ?req))"
    using fresh_sample_call
    by (simp_all add: CallMethod_prepared fresh_call_def fresh_client_def connect_def conn_addEpollEvent_def listen_def
        addEpollEvent_def isInLoopThread_def)
      (simp_all add: sample_client_def TcpConnection_new_def Let_def setNonBlocking_def FdEvent_new_def)
  have taken: "queue_taken ?c = ?c"
    using c(1) by (cases ?c; cases "conn_loop ?c") (simp add: queue_taken_def)
  let ?c1 = "queue_put [Call (Some (OnConnect (ConnCb ?req)))] ?c"
  have "client_round sample_env sample_objects (sample_answers, Epoll_events [(Some 7, EPOLLOUT)]) ?c = Some ?c1"
    using c taken by (simp add: client_round_eq round_tasks_def client_fd_object_def sample_objects_def EPOLLIN_def EPOLLOUT_def)
  moreover define d where "d = on_connect sample_env EISCONN (ConnCb ?req) ?c"
  have "queue_taken ?c1 = ?c" using taken by (simp add: queue_taken_def queue_put_def)
  then have "client_round sample_env sample_objects (sample_answers, Epoll_events [(Some 4, EPOLLIN)]) ?c1
      = Some (queue_put [Call (Some OnTimer)] d)"
    using c(1) sample_objects_facts(2)
    by (simp add: client_round_eq client_task_def run_client_handler_def d_def sample_answers_def round_tasks_def
        client_fd_object_def EPOLLIN_def sample_objects_facts(3))
  moreover have "m_pending_tasks (conn_loop d) = []"
    using queue_kept.connecting [of ?c "[]" sample_env EISCONN "ConnCb ?req"] c(1) by (simp add: d_def)
  ultimately show ?thesis
    using c(1) by (simp add: sample_rounds_def good_batch_def connect_succeeds_def reported_once_def sample_answers_def
        List.map_filter_simps split: option.split)
qed


end
