(* ===== verification/EndToEnd.thy ===== *)
theory EndToEnd
  imports ConnectionProperties ChannelProperties
begin

text \<open>
  A whole call, over the definitions of both sides: the segments a stream is cut into make no
  difference to a connection, and a call that \<open>RpcChannel\<close> starts and a \<open>TcpServer\<close> connection answers
  ends with the handler's result in the caller's response object.
\<close>

section \<open>The write index while a connection reads\<close>

text \<open>Decoding only moves the write index back (by compaction), so what was received so far bounds it.\<close>

lemma moveReadIndex_write_index:
  "roomy b \<Longrightarrow> 0 \<le> m_read_index b + n \<Longrightarrow> m_write_index (moveReadIndex b n) \<le> m_write_index b"
  using m_write_index_shiftBuffer [of "b\<lparr>m_read_index := m_read_index b + n\<rparr>"]
  by (auto simp: moveReadIndex_def Let_def roomy_def wf_buffer_def)

lemma readFromBuffer_write_index:
  "roomy b \<Longrightarrow> m_write_index (fst (snd (readFromBuffer b data len))) \<le> m_write_index b"
  using readFromBuffer_shape [of b data len]
    m_write_index_shiftBuffer [of "b\<lparr>m_read_index := m_read_index b + min len (readAvailable b)\<rparr>"]
  by (auto simp: roomy_def wf_buffer_def min_def)

lemma skip_to_start_write_index:
  "roomy b \<Longrightarrow> m_write_index (skip_to_start b) \<le> m_write_index b"
proof (induction b rule: skip_to_start.induct)
  case (1 b)
  then have "0 \<le> m_read_index b + 1" by (simp add: roomy_def wf_buffer_def)
  with 1 roomy_moveReadIndex [of b 1] moveReadIndex_write_index [of b 1] show ?case
    by (subst skip_to_start.simps) auto
qed

lemma decode_iter_write_index:
  assumes "roomy b"
  shows "decode_iter b = Return b' \<Longrightarrow> m_write_index b' \<le> m_write_index b"
    and "decode_iter b = Again b' mo \<Longrightarrow> m_write_index b' \<le> m_write_index b"
proof -
  define b1 where "b1 = skip_to_start b"
  define pk32 where "pk32 = ntohl_at (m_buffer b1) (nat (readIndex b1 + 1))"
  have b1: "roomy b1" "m_write_index b1 \<le> m_write_index b"
    using roomy_skip_to_start [OF assms] skip_to_start_write_index [OF assms] by (simp_all add: b1_def)
  note iter = decode_iter_def [of b, folded b1_def, unfolded Let_def, folded pk32_def]
  show "decode_iter b = Return b' \<Longrightarrow> m_write_index b' \<le> m_write_index b"
    using b1 unfolding iter by (auto split: if_splits prod.splits field.splits)
  assume again: "decode_iter b = Again b' mo"
  let ?rd = "readFromBuffer b1 (replicate (nat (sint pk32)) 0) (sint pk32)"
  from again have "(b' = moveReadIndex b1 (sint pk32) \<and> 0 \<le> readIndex b1 + sint pk32 - 1)
      \<or> b' = fst (snd ?rd)"
    unfolding iter by (auto split: if_splits prod.splits field.splits)
  then show "m_write_index b' \<le> m_write_index b"
    using b1(2) moveReadIndex_write_index [OF b1(1), of "sint pk32"]
      readFromBuffer_write_index [OF b1(1), of "replicate (nat (sint pk32)) 0" "sint pk32"]
    by (auto simp: readIndex_def)
qed

lemma decode_write_index:
  assumes "tinypb_decode b = Some (Inr (ms, b'))" and "roomy b"
  shows "m_write_index b' \<le> m_write_index b"
proof -
  have "roomy b \<longrightarrow> (\<forall>ms' b''. Inr (ms, b') = (Inr (ms', b'') :: fault + _) \<longrightarrow> m_write_index b'' \<le> m_write_index b)"
  proof (rule decode_loop.raw_induct [where P = "\<lambda>_ b r. roomy b \<longrightarrow>
      (\<forall>ms b'. r = Inr (ms, b') \<longrightarrow> m_write_index b' \<le> m_write_index b)",
        OF _ assms(1) [unfolded tinypb_decode_def]], intro impI allI)
    fix f :: "tinypb_protocol list \<Rightarrow> tcp_buffer \<Rightarrow> (fault + tinypb_protocol list \<times> tcp_buffer) option"
      and out b r ms b'
    assume IH: "\<And>out b r. f out b = Some r \<Longrightarrow> roomy b \<longrightarrow>
        (\<forall>ms b'. r = Inr (ms, b') \<longrightarrow> m_write_index b' \<le> m_write_index b)"
      and body: "(case decode_iter b of Return b' \<Rightarrow> Some (Inr (out, b'))
        | Again b' message \<Rightarrow> f (out @ opt_list message) b' | Crash e \<Rightarrow> Some (Inl e)) = Some r"
      and b: "roomy b" and r: "r = Inr (ms, b')"
    show "m_write_index b' \<le> m_write_index b"
    proof (cases "decode_iter b")
      case (Return b1)
      with body r decode_iter_write_index(1) [OF b Return] show ?thesis by simp
    next
      case (Again b1 mo)
      with body have "f (out @ opt_list mo) b1 = Some r" by simp
      from IH [OF this] r roomy_decode_iter(2) [OF b Again] have "m_write_index b' \<le> m_write_index b1" by auto
      with decode_iter_write_index(2) [OF b Again] show ?thesis by simp
    next
      case (Crash e)
      with body r show ?thesis by simp
    qed
  qed
  with assms(2) show ?thesis by simp
qed

lemma read_loop_write_index:
  assumes "roomy b" and "bs \<noteq> []" and "int (length bs) < writeAvailable b"
    and "read_loop b st (Bytes bs # script) = Some (b', st', failed)"
  shows "m_write_index b' \<le> m_write_index b + int (length bs)"
proof -
  have "length bs \<le> nat (writeAvailable b)" using assms(3) by linarith
  with assms have "b' = moveWriteIndex (b\<lparr>m_buffer := mem_write (m_buffer b) (nat (writeIndex b)) bs\<rparr>) (int (length bs))"
    by (subst (asm) read_loop.simps) (auto simp: Let_def)
  then show ?thesis by (simp add: moveWriteIndex_def Let_def)
qed

section \<open>The input buffer of a reading connection\<close>

text \<open>Callbacks that touch neither the buffers nor the state of the connection, as those of a call do.\<close>

definition inert :: "('k, 'w) runner \<Rightarrow> bool" where
  "inert run_cb \<longleftrightarrow> (\<forall>k m c. m_in_buffer (run_cb k m c) = m_in_buffer c \<and> m_out_buffer (run_cb k m c) = m_out_buffer c
     \<and> m_state (run_cb k m c) = m_state c \<and> m_conn_type (run_cb k m c) = m_conn_type c)"

lemma run_read_cbs_inert:
  assumes "inert run_cb"
  shows "m_in_buffer (run_read_cbs run_cb ms c) = m_in_buffer c"
    and "m_out_buffer (run_read_cbs run_cb ms c) = m_out_buffer c"
    and "m_state (run_read_cbs run_cb ms c) = m_state c"
    and "m_conn_type (run_read_cbs run_cb ms c) = m_conn_type c"
  using assms by (induction ms arbitrary: c) (auto simp: Let_def inert_def split: option.split)

text \<open>What a segment that leaves room does, before it is executed.\<close>

lemma segment_read:
  assumes "wf_conn n c" and "m_state c = Connected" and "bs \<noteq> []"
    and "m_write_index (m_in_buffer c) + int (length bs) < n"
    and "parse_stream (content (m_in_buffer c) @ bs) = Some (ms, r)"
  shows "\<exists>b b'. onRead disp run_cb [Bytes bs] c = execute disp run_cb (c\<lparr>m_in_buffer := b\<rparr>)
     \<and> tinypb_decode b = Some (Inr (ms, b')) \<and> roomy b' \<and> m_size b' = n \<and> content b' = r
     \<and> m_write_index b' \<le> m_write_index (m_in_buffer c) + int (length bs)"
proof -
  have room: "roomy (m_in_buffer c)" "m_size (m_in_buffer c) = n" using assms(1) by (simp_all add: wf_conn_def)
  then have free: "int (length bs) < writeAvailable (m_in_buffer c)" using assms(4) by (simp add: writeAvailable_def)
  obtain b where b: "read_loop (m_in_buffer c) Connected [Bytes bs] = Some (b, Connected, False)" "roomy b"
    "m_size b = n" "content b = content (m_in_buffer c) @ bs"
    using read_loop_segment [OF room(1) assms(3) free, of Connected "[]"] room(2) by auto
  obtain b' where b': "tinypb_decode b = Some (Inr (ms, b'))" "roomy b'" "m_size b' = n" "content b' = r"
    using decode_content [OF b(2), of ms r] b(3,4) assms(5) by auto
  have "m_write_index b' \<le> m_write_index (m_in_buffer c) + int (length bs)"
    using decode_write_index [OF b'(1) b(2)] read_loop_write_index [OF room(1) assms(3) free b(1)] by simp
  moreover have "onRead disp run_cb [Bytes bs] c = execute disp run_cb (c\<lparr>m_in_buffer := b\<rparr>)"
  proof -
    have "onRead disp run_cb [Bytes bs] c = execute disp run_cb (c\<lparr>m_in_buffer := b, m_state := Connected\<rparr>)"
      using b(1) assms(2) by (simp add: onRead_def Let_def)
    also have "c\<lparr>m_in_buffer := b, m_state := Connected\<rparr> = c\<lparr>m_in_buffer := b\<rparr>" using assms(2) by (cases c) simp
    finally show ?thesis .
  qed
  ultimately show ?thesis using b' by blast
qed

section \<open>A server reading a stream in segments\<close>

definition segments :: "byte list list \<Rightarrow> sock_read list list" where
  "segments segs = map (\<lambda>bs. [Bytes bs]) segs"

lemma dispatch_all_append:
  "dispatch_all disp (xs @ ys) w =
     (case dispatch_all disp xs w of
        Inl e \<Rightarrow> Inl e
      | Inr (r1, w1) \<Rightarrow>
          (case dispatch_all disp ys w1 of Inl e \<Rightarrow> Inl e | Inr (r2, w2) \<Rightarrow> Inr (r1 @ r2, w2)))"
  by (induction xs arbitrary: w) (auto split: sum.splits)

lemma server_segment:
  assumes "wf_conn n c" and "m_state c = Connected" and "m_conn_type c = TcpConnectionByServer" and "bs \<noteq> []"
    and "m_write_index (m_in_buffer c) + int (length bs) < n"
    and "parse_stream (content (m_in_buffer c) @ bs) = Some (reqs, rest)"
    and "dispatch_all disp reqs (m_world c) = Inr (resps, w')"
  shows "\<exists>c'. onRead disp run_cb [Bytes bs] c = Some (Inr c') \<and> wf_conn n c' \<and> m_state c' = Connected
     \<and> m_conn_type c' = TcpConnectionByServer \<and> content (m_in_buffer c') = rest
     \<and> content (m_out_buffer c') = content (m_out_buffer c) @ concat (map wire resps)
     \<and> m_world c' = w' \<and> m_sent c' = m_sent c
     \<and> m_write_index (m_in_buffer c') \<le> m_write_index (m_in_buffer c) + int (length bs)"
proof -
  obtain b b' where b: "onRead disp run_cb [Bytes bs] c = execute disp run_cb (c\<lparr>m_in_buffer := b\<rparr>)"
    "tinypb_decode b = Some (Inr (reqs, b'))" "m_write_index b' \<le> m_write_index (m_in_buffer c) + int (length bs)"
    using segment_read [OF assms(1,2,4,5,6), of disp run_cb] by blast
  have "int (length bs) < writeAvailable (m_in_buffer c)" using assms(1,5) by (simp add: wf_conn_def writeAvailable_def)
  from server_onRead [OF assms(1-4) this assms(6,7), of run_cb "[]"] obtain c' where
    c': "onRead disp run_cb [Bytes bs] c = Some (Inr c')" "wf_conn n c'" "m_state c' = Connected"
     "m_conn_type c' = TcpConnectionByServer" "content (m_in_buffer c') = rest"
     "content (m_out_buffer c') = content (m_out_buffer c) @ concat (map wire resps)"
     "m_world c' = w'" "m_sent c' = m_sent c" by blast
  from b(1) c'(1) have "execute disp run_cb (c\<lparr>m_in_buffer := b\<rparr>) = Some (Inr c')" by simp
  then have "m_in_buffer c' = b'"
    using b(2) assms(3,7) by (auto simp: execute_def Let_def split: if_splits)
  with b(3) c' show ?thesis by blast
qed

lemma server_segments:
  assumes "wf_conn n c" and "m_state c = Connected" and "m_conn_type c = TcpConnectionByServer" and "[] \<notin> set segs"
    and "m_write_index (m_in_buffer c) + int (length (concat segs)) < n"
    and "feed parse_stream (content (m_in_buffer c)) segs = Some (reqs, rest)"
    and "dispatch_all disp reqs (m_world c) = Inr (resps, w')"
  shows "let c' = run_steps (read_all disp run_cb) c (segments segs)
     in wf_conn n c' \<and> m_state c' = Connected \<and> m_conn_type c' = TcpConnectionByServer
      \<and> content (m_in_buffer c') = rest
      \<and> content (m_out_buffer c') = content (m_out_buffer c) @ concat (map wire resps)
      \<and> m_world c' = w' \<and> m_sent c' = m_sent c"
  using assms
proof (induction segs arbitrary: c reqs resps)
  case Nil
  then show ?case by (simp add: segments_def)
next
  case (Cons bs segs)
  from Cons.prems(6) obtain reqs1 r1 reqs2 where
    p: "parse_stream (content (m_in_buffer c) @ bs) = Some (reqs1, r1)" and
    f: "feed parse_stream r1 segs = Some (reqs2, rest)" and reqs: "reqs = reqs1 @ reqs2"
    by (auto split: option.splits)
  from Cons.prems(7) obtain resps1 w1 resps2 where
    d1: "dispatch_all disp reqs1 (m_world c) = Inr (resps1, w1)" and
    d2: "dispatch_all disp reqs2 w1 = Inr (resps2, w')" and resps: "resps = resps1 @ resps2"
    by (auto simp: reqs dispatch_all_append split: sum.splits)
  have bs: "bs \<noteq> []" using Cons.prems(4) by auto
  have "m_write_index (m_in_buffer c) + int (length bs) < n" using Cons.prems(5) by simp
  from server_segment [OF Cons.prems(1-3) bs this p d1, of run_cb] obtain c1 where
    c1: "onRead disp run_cb [Bytes bs] c = Some (Inr c1)" "wf_conn n c1" "m_state c1 = Connected"
     "m_conn_type c1 = TcpConnectionByServer" "content (m_in_buffer c1) = r1"
     "content (m_out_buffer c1) = content (m_out_buffer c) @ concat (map wire resps1)"
     "m_world c1 = w1" "m_sent c1 = m_sent c"
     "m_write_index (m_in_buffer c1) \<le> m_write_index (m_in_buffer c) + int (length bs)" by blast
  have bound: "m_write_index (m_in_buffer c1) + int (length (concat segs)) < n" using c1(9) Cons.prems(5) by simp
  from Cons.prems(4) have segs: "[] \<notin> set segs" by simp
  have "run_steps (read_all disp run_cb) c (segments (bs # segs)) = run_steps (read_all disp run_cb) c1 (segments segs)"
    by (simp add: segments_def c1(1))
  with Cons.IH [OF c1(2-4) segs bound, of reqs2 resps2] c1 f d2 resps show ?case
    by (simp add: Let_def del: read_all.simps)
qed

section \<open>A client reading a stream in segments\<close>

lemma client_segment:
  assumes "wf_conn n c" and "m_state c = Connected" and "m_conn_type c = TcpConnectionByClient" and "bs \<noteq> []"
    and "m_write_index (m_in_buffer c) + int (length bs) < n"
    and "parse_stream (content (m_in_buffer c) @ bs) = Some (ms, r)"
  shows "\<exists>b. read_all disp run_cb c [Bytes bs] = run_read_cbs run_cb ms (c\<lparr>m_in_buffer := b\<rparr>)
     \<and> roomy b \<and> m_size b = n \<and> content b = r \<and> m_write_index b \<le> m_write_index (m_in_buffer c) + int (length bs)"
proof -
  obtain b b' where b: "onRead disp run_cb [Bytes bs] c = execute disp run_cb (c\<lparr>m_in_buffer := b\<rparr>)"
    "tinypb_decode b = Some (Inr (ms, b'))" "roomy b'" "m_size b' = n" "content b' = r"
    "m_write_index b' \<le> m_write_index (m_in_buffer c) + int (length bs)"
    using segment_read [OF assms(1,2,4,5,6), of disp run_cb] by blast
  have "execute disp run_cb (c\<lparr>m_in_buffer := b\<rparr>) = Some (Inr (run_read_cbs run_cb ms (c\<lparr>m_in_buffer := b'\<rparr>)))"
    using b(2) assms(3) by (simp add: execute_def)
  with b show ?thesis by auto
qed

lemma client_segments_silent:
  assumes "wf_conn n c" and "m_state c = Connected" and "m_conn_type c = TcpConnectionByClient" and "[] \<notin> set segs"
    and "m_write_index (m_in_buffer c) + int (length (concat segs)) < n"
    and "feed parse_stream (content (m_in_buffer c)) segs = Some ([], rest)"
  shows "\<exists>b. run_steps (read_all disp run_cb) c (segments segs) = c\<lparr>m_in_buffer := b\<rparr>"
  using assms
proof (induction segs arbitrary: c)
  case Nil
  show ?case by (intro exI [of _ "m_in_buffer c"]) (simp add: segments_def)
next
  case (Cons bs segs)
  from Cons.prems(6) obtain r1 where p: "parse_stream (content (m_in_buffer c) @ bs) = Some ([], r1)"
    and f: "feed parse_stream r1 segs = Some ([], rest)" by (auto split: option.splits)
  have bs: "bs \<noteq> []" and segs: "[] \<notin> set segs" using Cons.prems(4) by auto
  have "m_write_index (m_in_buffer c) + int (length bs) < n" using Cons.prems(5) by simp
  from client_segment [OF Cons.prems(1-3) bs this p, of disp run_cb] obtain b where
    b: "read_all disp run_cb c [Bytes bs] = c\<lparr>m_in_buffer := b\<rparr>" "roomy b" "m_size b = n" "content b = r1"
    "m_write_index b \<le> m_write_index (m_in_buffer c) + int (length bs)" by auto
  let ?c = "c\<lparr>m_in_buffer := b\<rparr>"
  have "wf_conn n ?c" "m_state ?c = Connected" "m_conn_type ?c = TcpConnectionByClient"
    using Cons.prems(1-3) b by (simp_all add: wf_conn_def)
  from Cons.IH [OF this segs] b f Cons.prems(5)
  obtain b' where "run_steps (read_all disp run_cb) ?c (segments segs) = c\<lparr>m_in_buffer := b'\<rparr>"
    by (auto simp del: read_all.simps)
  with b(1) show ?case by (auto simp: segments_def simp del: read_all.simps)
qed

lemma client_segments_one:
  assumes "wf_conn n c" and "m_state c = Connected" and "m_conn_type c = TcpConnectionByClient" and "[] \<notin> set segs"
    and "m_write_index (m_in_buffer c) + int (length (concat segs)) < n"
    and "feed parse_stream (content (m_in_buffer c)) segs = Some ([m], rest)" and "inert run_cb"
  shows "\<exists>b b'. run_steps (read_all disp run_cb) c (segments segs)
     = (run_read_cbs run_cb [m] (c\<lparr>m_in_buffer := b\<rparr>))\<lparr>m_in_buffer := b'\<rparr>"
  using assms
proof (induction segs arbitrary: c)
  case Nil
  then show ?case by simp
next
  case (Cons bs segs)
  from Cons.prems(6) obtain ms1 r1 ms2 where p: "parse_stream (content (m_in_buffer c) @ bs) = Some (ms1, r1)"
    and f: "feed parse_stream r1 segs = Some (ms2, rest)" and ms: "[m] = ms1 @ ms2" by (auto split: option.splits)
  have bs: "bs \<noteq> []" and segs: "[] \<notin> set segs" using Cons.prems(4) by auto
  have "m_write_index (m_in_buffer c) + int (length bs) < n" using Cons.prems(5) by simp
  from client_segment [OF Cons.prems(1-3) bs this p, of disp run_cb] obtain b where
    b: "read_all disp run_cb c [Bytes bs] = run_read_cbs run_cb ms1 (c\<lparr>m_in_buffer := b\<rparr>)" "roomy b" "m_size b = n"
    "content b = r1" "m_write_index b \<le> m_write_index (m_in_buffer c) + int (length bs)" by auto
  define c1 where "c1 = run_read_cbs run_cb ms1 (c\<lparr>m_in_buffer := b\<rparr>)"
  have c1: "m_in_buffer c1 = b" "wf_conn n c1" "m_state c1 = Connected" "m_conn_type c1 = TcpConnectionByClient"
    using Cons.prems(1-3) b(2,3) by (simp_all add: c1_def wf_conn_def run_read_cbs_inert [OF Cons.prems(7)])
  have bound: "m_write_index (m_in_buffer c1) + int (length (concat segs)) < n" using b(5) Cons.prems(5) c1(1) by simp
  have run: "run_steps (read_all disp run_cb) c (segments (bs # segs)) = run_steps (read_all disp run_cb) c1 (segments segs)"
    using b(1) by (simp add: segments_def c1_def del: read_all.simps)
  show ?case
  proof (cases ms1)
    case Nil
    then have "c1 = c\<lparr>m_in_buffer := b\<rparr>" "ms2 = [m]" using ms by (simp_all add: c1_def)
    with Cons.IH [OF c1(2-4) segs bound] f c1(1) b(4) Cons.prems(7) show ?thesis
      unfolding run by (auto simp del: read_all.simps)
  next
    case (Cons a as)
    then have one: "ms1 = [m]" "ms2 = []" using ms by simp_all
    with f c1(1) b(4) have "feed parse_stream (content (m_in_buffer c1)) segs = Some ([], rest)" by simp
    from client_segments_silent [OF c1(2-4) segs bound this, of disp run_cb] obtain b' where
      "run_steps (read_all disp run_cb) c1 (segments segs) = c1\<lparr>m_in_buffer := b'\<rparr>" by blast
    then show ?thesis unfolding run c1_def one by blast
  qed
qed

section \<open>Writing everything\<close>

lemma write_loop_accepted:
  assumes "wf_buffer b" and "content b \<noteq> []" and "length (content b) \<le> k"
  shows "\<exists>b'. write_loop [Accept k] b [] = (b', content b, AllSent) \<and> wf_buffer b' \<and> content b' = []"
proof -
  have av: "readAvailable b = int (length (content b))" using length_content [OF assms(1)] by simp
  have "snd (snd (write_loop [Accept k] b [])) = AllSent" using assms(3) by (simp add: Let_def av)
  with write_loop_facts [OF assms(1,2), of "[Accept k]" "[]"] show ?thesis by auto
qed

lemma server_onWrite_all:
  assumes "wf_conn n c" and "m_state c = Connected" and "m_conn_type c = TcpConnectionByServer"
    and "content (m_out_buffer c) \<noteq> []" and "length (content (m_out_buffer c)) \<le> k"
  shows "\<exists>c'. onWrite run_cb [Accept k] c = Some c' \<and> m_sent c' = m_sent c @ content (m_out_buffer c)
     \<and> content (m_out_buffer c') = [] \<and> m_world c' = m_world c
     \<and> conn_event c' = clearEvent OUT_EVENT (conn_event c) \<and> m_in_buffer c' = m_in_buffer c"
proof -
  have wf: "wf_buffer (m_out_buffer c)" using assms(1) by (simp add: wf_conn_def)
  then have "readAvailable (m_out_buffer c) \<noteq> 0" using assms(4) by (simp add: content_Nil_iff)
  moreover obtain b where "write_loop [Accept k] (m_out_buffer c) [] = (b, content (m_out_buffer c), AllSent)"
    "content b = []"
    using write_loop_accepted [OF wf assms(4,5)] by blast
  ultimately show ?thesis using assms(2,3) by (simp add: onWrite_def Let_def del: write_loop.simps)
qed

lemma encoded_id: "m_msg_id (snd (encodeMessage m)) = m_msg_id (with_id m)"
  by (simp add: encodeMessage_eq Let_def with_checksum_def with_lengths_def)

lemma client_onWrite_request:
  assumes "wf_conn n c" and "m_state c = Connected" and "m_conn_type c = TcpConnectionByClient"
    and "m_write_cb c = [(TinyPB req, WriteCb)]" and "content (m_out_buffer c) = []" and "length (wire req) \<le> k"
  shows "\<exists>c'. onWrite (run_message_cb env) [Accept k] c = Some c' \<and> m_state c' = Connected
     \<and> m_conn_type c' = TcpConnectionByClient \<and> m_in_buffer c' = m_in_buffer c \<and> wf_conn n c'
     \<and> m_sent c' = m_sent c @ wire req \<and> m_world c' = m_world c \<and> m_write_cb c' = []
     \<and> m_read_cb c' = (m_read_cb c)(m_msg_id (with_id req) \<mapsto> ReadCb)
     \<and> m_read_callback (conn_event c') = Some (OnRead (m_this c)) \<and> m_fd (conn_event c') = m_fd (conn_event c)"
proof -
  define c1 where "c1 = encode_waiting c"
  have wf: "wf_buffer (m_out_buffer c)" using assms(1) by (simp add: wf_conn_def)
  have c1: "m_write_cb c1 = [(TinyPB (snd (encodeMessage req)), WriteCb)]" "wf_buffer (m_out_buffer c1)"
    "content (m_out_buffer c1) = wire req" "m_in_buffer c1 = m_in_buffer c" "m_state c1 = Connected"
    "m_sent c1 = m_sent c"
    using content_tinypb_encode [OF wf, of "[req]"] assms(2,4,5)
    by (simp_all add: c1_def encode_waiting_def split_def Let_def)
  have ne: "wire req \<noteq> []" using length_wire [of req] by (auto simp: pk_size_def)
  then have av: "readAvailable (m_out_buffer c1) \<noteq> 0" using c1(2,3) by (simp add: content_Nil_iff [symmetric])
  obtain b where b: "write_loop [Accept k] (m_out_buffer c1) [] = (b, wire req, AllSent)" "wf_buffer b"
    using write_loop_accepted [OF c1(2), of k] ne assms(6) c1(3) by auto
  define c2 where "c2 = conn_addEpollEvent (m_tid (conn_loop c1))
      (c1\<lparr>m_out_buffer := b, m_sent := m_sent c1 @ wire req, conn_event := clearEvent OUT_EVENT (conn_event c1)\<rparr>)"
  define c3 where "c3 = readMessage (m_msg_id (with_id req)) ReadCb c2"
  have c3: "m_write_cb c3 = m_write_cb c1"
    by (simp add: c3_def c2_def readMessage_def addReadCb_def)
  have "run_write_cbs (run_message_cb env) 0 c2 = run_write_cbs (run_message_cb env) 1 c3"
    using c1(1) by (subst run_write_cbs.simps) (simp add: run_message_cb_def c3_def encoded_id c2_def)
  also have "... = Some c3" using c1(1) c3 by (subst run_write_cbs.simps) simp
  finally have cbs: "run_write_cbs (run_message_cb env) 0 c2 = Some c3" .
  have "onWrite (run_message_cb env) [Accept k] c = Some (c3\<lparr>m_write_cb := []\<rparr>)"
    using assms(2,3) b(1) cbs av
    unfolding onWrite_def Let_def c1_def [symmetric] by (simp add: c2_def c1_def)
  then show ?thesis
    using assms(1,3) c1 b(2)
    by (simp add: c3_def c2_def readMessage_def addReadCb_def wf_conn_def)
      (simp add: c1_def listenReadEvent_def conn_addEpollEvent_def listen_def clearEvent_def encode_waiting_def split_def Let_def)
qed

section \<open>The two ends of a call\<close>

lemma inert_run_message_cb: "inert (run_message_cb env)"
proof -
  have buf: "m_in_buffer (closure_Run cl c) = m_in_buffer c" "m_out_buffer (closure_Run cl c) = m_out_buffer c"
    "m_state (closure_Run cl c) = m_state c" "m_conn_type (closure_Run cl c) = m_conn_type c" for cl and c :: "'a client"
    by (simp_all add: closure_Run_def split: option.split)
  have resp: "m_in_buffer (handle_response env m c) = m_in_buffer c" "m_out_buffer (handle_response env m c) = m_out_buffer c"
    "m_state (handle_response env m c) = m_state c" "m_conn_type (handle_response env m c) = m_conn_type c" for m and c :: "'a client"
    by (simp_all add: handle_response_def on_controller_def split_def Let_def)
  show ?thesis
    by (auto simp: inert_def run_message_cb_def Let_def buf resp readMessage_def addReadCb_def
        split: rpc_closure.split option.split)
qed

lemma rpc_step_reads:
  "run_steps (rpc_step env) c (map EvRead scripts) = run_steps (read_all no_dispatch (run_message_cb env)) c scripts"
  by (induction scripts arbitrary: c) simp_all

text \<open>A call whose \<open>connect\<close> succeeds at once.\<close>

lemma call_started:
  assumes "fresh_client c"
    and c'_def: "c' = RpcChannel_CallMethod env ConnectOk True new_id name (Some pb_data) done i c"
  shows "m_write_cb c' = [(TinyPB (complete (setPbData pb_data (CallMethod_request new_id name c))), WriteCb)]"
    and "m_read_cb c' = Map.empty" and "m_state c' = Connected" and "m_conn_type c' = TcpConnectionByClient"
    and "m_in_buffer c' = m_in_buffer c" and "m_out_buffer c' = m_out_buffer c" and "m_sent c' = m_sent c"
    and "done_runs (m_world c') = 0" and "m_done (m_world c') = m_done (m_world c)"
    and "m_response (m_world c') = m_response (m_world c)" and "\<not> m_is_canceled (m_controller (m_world c'))"
    and "m_timer_event (m_world c') = i" and "pending_ids (m_timer (m_world c')) = {i}"
proof -
  define p where "p = prepared new_id name pb_data i c"
  define req where "req = complete (setPbData pb_data (CallMethod_request new_id name c))"
  have init: "m_is_init (m_world c)" using assms(1) by (simp add: fresh_client_def)
  have c': "c' = enter_loop (writeMessage (TinyPB req) WriteCb (connected env p))"
    by (simp add: c'_def CallMethod_prepared [OF init] connect_def run_conn_cb_def p_def req_def)
  note facts = prepared_facts [OF assms(1), of new_id name pb_data i, folded p_def]
  have p: "m_write_cb p = []" "m_read_cb p = Map.empty" "m_conn_type p = TcpConnectionByClient"
    "m_in_buffer p = m_in_buffer c" "m_out_buffer p = m_out_buffer c" "m_sent p = m_sent c"
    "m_response (m_world p) = m_response (m_world c)" "\<not> m_is_canceled (m_controller (m_world p))"
    using assms(1)
    by (simp_all add: p_def prepared_def Let_def fresh_client_def on_world_def)
  have world: "m_world c' = m_world (connected env p)"
    by (simp add: c' enter_loop_def writeMessage_def addMessage_def)
  have w: "m_done (m_world (connected env p)) = m_done (m_world p)" "m_timer (m_world (connected env p)) = m_timer (m_world p)"
    "m_timer_event (m_world (connected env p)) = m_timer_event (m_world p)"
    "m_response (m_world (connected env p)) = m_response (m_world p)"
    by (simp_all add: connected_def initLocalAddr_def setState_def)
  show "done_runs (m_world c') = 0" "m_done (m_world c') = m_done (m_world c)"
    "m_response (m_world c') = m_response (m_world c)" "\<not> m_is_canceled (m_controller (m_world c'))"
    "m_timer_event (m_world c') = i" "pending_ids (m_timer (m_world c')) = {i}"
    using facts p w by (simp_all add: world)
  show "m_write_cb c' = [(TinyPB (complete (setPbData pb_data (CallMethod_request new_id name c))), WriteCb)]"
    "m_read_cb c' = Map.empty" "m_conn_type c' = TcpConnectionByClient"
    using p by (simp_all add: c' enter_loop_def writeMessage_def addMessage_def req_def)
  have b: "m_in_buffer (connected env p) = m_in_buffer p" "m_out_buffer (connected env p) = m_out_buffer p"
    "m_sent (connected env p) = m_sent p" "m_state (connected env p) = Connected"
    by (simp_all add: connected_def initLocalAddr_def setState_def on_world_def)
  show "m_state c' = Connected" "m_in_buffer c' = m_in_buffer c" "m_out_buffer c' = m_out_buffer c" "m_sent c' = m_sent c"
    using p b by (simp_all add: c' enter_loop_def writeMessage_def addMessage_def)
qed

text \<open>A good response to a call that was not cancelled.\<close>

lemma good_response:
  assumes "\<not> m_is_canceled (m_controller (m_world c))" and "m_done (m_world c) = Some (RpcClosure True)"
    and "m_err_code m = 0" and "ParseResponse env (m_response (m_world c)) (m_pb_data m) = (True, r)"
  shows "m_world (run_message_cb env ReadCb (TinyPB m) c) = (m_world c)
     \<lparr>m_timer := cancelTimerEvent (m_timer_event (m_world c)) (m_timer (m_world c)), m_response := r,
      done_runs := done_runs (m_world c) + 1\<rparr>"
  using assms by (simp add: run_message_cb_def IsCanceled_def Let_def handle_response_def closure_Run_def)

lemma received_fields:
  "m_msg_id (received m) = m_msg_id (with_id m)" "m_method_name (received m) = m_method_name m"
  "m_pb_data (received m) = m_pb_data m" "m_err_code (received m) = m_err_code m"
  "m_err_info (received m) = m_err_info m" "m_msg_id (received m) \<noteq> []"
  by (simp_all add: received_def encodeMessage_eq Let_def with_checksum_def with_lengths_def with_id_def ascii_def)

lemma with_id_same: "m_msg_id m \<noteq> [] \<Longrightarrow> with_id m = m"
  by (simp add: with_id_def)

text \<open>One request, answered.\<close>

lemma dispatch_all_one:
  assumes "callable d req service md fr name"
    and "CallMethod service md (call_controller req) (call_runtime req name) fr (NewResponse service md) app = (func_resp, app')"
    and "SerializeAsString service func_resp \<noteq> []"
  shows "dispatch_all (dispatching d) [req] (rt, app) =
     Inr ([reply_to req OK (ascii ''success'') (SerializeAsString service func_resp)], call_runtime req name, app')"
  using assms(2,3) by (simp add: dispatch_fresh dispatch_called [OF assms(1)])

text \<open>A channel that was constructed and initialised is such a client: its timer is idle, its buffers are
  empty, its descriptor is non-blocking and not yet watched by anything it did.\<close>

lemma new_channel_ready:
  assumes "0 \<le> sys_socket (getFamily peer)"
    and "getFdEvent events (sys_socket (getFamily peer)) = Inr (e, events')" and "m_fd e = sys_socket (getFamily peer)"
    and "wf_timer t" and "m_pending_events t = []" and "\<not> m_is_canceled ctl" and "in_block \<noteq> []"
  shows "\<exists>c events''. RpcChannel_new name sys_socket peer l events in_block out_block ctl_null response_null t = Inr (Some c, events'')
     \<and> (let c' = on_world (Channel_Init ctl response cl) c
        in fresh_client c' \<and> wf_conn (int (length in_block)) c' \<and> content (m_in_buffer c') = []
         \<and> content (m_out_buffer c') = [] \<and> m_write_index (m_in_buffer c') = 0 \<and> nonblocking (conn_event c')
         \<and> conn_loop c' = l \<and> m_done (m_world c') = cl \<and> m_response (m_world c') = response
        \<and> m_state c' = NotConnected \<and> m_fd (conn_event c') = m_fd e
        \<and> m_read_callback (conn_event c') = m_read_callback e \<and> m_write_callback (conn_event c') = m_write_callback e)"
proof -
  define c where "c = TcpConnection_new name (m_tid l) l (setNonBlocking e) in_block out_block TcpConnectionByClient
    (rpc_state_new peer ctl_null response_null t)"
  have "RpcChannel_new name sys_socket peer l events in_block out_block ctl_null response_null t
      = Inr (Some c, events'[nat (sys_socket (getFamily peer)) := conn_event c])"
    using assms(1,2) by (simp add: RpcChannel_new_def TcpClient_new_def Let_def c_def)
  moreover have "nonblocking (setNonBlocking (setNonBlocking e))"
    using assms(1,3) by (intro nonblocking_setNonBlocking) simp
  moreover have "m_write_index (TcpBuffer_new in_block) = 0" by (simp add: TcpBuffer_new_def)
  moreover have "roomy (TcpBuffer_new in_block)" "m_size (TcpBuffer_new in_block) = int (length in_block)"
    using assms(7) wf_TcpBuffer_new [of in_block]
    by (simp_all add: roomy_def) (simp_all add: TcpBuffer_new_def)
  moreover have "m_fd (setNonBlocking e) = m_fd e" "m_read_callback (setNonBlocking e) = m_read_callback e"
    "m_write_callback (setNonBlocking e) = m_write_callback e" for e :: "rpc_closure handler fd_event"
    by (simp_all add: setNonBlocking_def)
  ultimately show ?thesis
    using assms(4-6)
    by (auto simp: c_def TcpConnection_new_def Let_def Channel_Init_def rpc_state_new_def fresh_client_def wf_conn_def
        content_TcpBuffer_new wf_TcpBuffer_new)
qed

section \<open>Properties\<close>

text \<open>
  C11: Requests that fit the input buffer reach the server however TCP cuts the stream: a connection with
  an empty input buffer, with more free space behind its write index than the requests have bytes in all,
  that reads the encoded requests in any non-empty segments dispatches each request once, in order, and
  its output buffer gets exactly their encoded responses.
\<close>

theorem server_answers_segmented:
  assumes "wf_conn n s" and "m_state s = Connected" and "m_conn_type s = TcpConnectionByServer"
    and "content (m_in_buffer s) = []" and "list_all encodable reqs"
    and "concat segs = concat (map wire reqs)" and "[] \<notin> set segs"
    and "m_write_index (m_in_buffer s) + int (length (concat segs)) < n"
  shows "\<exists>resps w'. dispatch_all (dispatching d) (map received reqs) (m_world s) = Inr (resps, w')
     \<and> map m_msg_id resps = map (m_msg_id \<circ> received) reqs
     \<and> (let s' = run_steps (read_all (dispatching d) run_cb) s (segments segs)
        in content (m_out_buffer s') = content (m_out_buffer s) @ concat (map wire resps)
         \<and> content (m_in_buffer s') = [] \<and> m_world s' = w' \<and> m_state s' = Connected)"
proof -
  obtain resps w' where all: "dispatch_all (dispatching d) (map received reqs) (m_world s) = Inr (resps, w')"
    "map m_msg_id resps = map m_msg_id (map received reqs)"
    using dispatch_all_total [of d "map received reqs" "m_world s"] by blast
  have feed: "feed parse_stream (content (m_in_buffer s)) segs = Some (map received reqs, [])"
    using tinypb.feed_encoded [OF assms(5,6)] assms(4) by simp
  from server_segments [OF assms(1-3,7,8) feed all(1), of run_cb] all show ?thesis
    by (auto simp: Let_def comp_def simp del: read_all.simps)
qed

theorem server_answers_segmented_witness:
  "content (m_in_buffer (run_steps (read_all (dispatching echo_dispatcher) (\<lambda>(_ :: nat) _ c. c))
      (sample_conn TcpConnectionByServer (Runtime_new, 5))
      (segments [take 9 (wire (echo_request [8, 1])), drop 9 (wire (echo_request [8, 1]))]))) = []"
proof -
  let ?m = "echo_request [8, 1]" and ?s = "sample_conn TcpConnectionByServer (Runtime_new, 5)"
  have segs: "[] \<notin> set [take 9 (wire ?m), drop 9 (wire ?m)]"
    using echo_request_wire(1) by (auto dest: arg_cong [where f = length])
  have "m_write_index (m_in_buffer ?s) + int (length (concat [take 9 (wire ?m), drop 9 (wire ?m)])) < 1024"
    by (simp add: sample_conn_facts TcpBuffer_new_def echo_request_wire(1))
  from server_answers_segmented [OF wf_sample_conn _ _ _ _ _ segs this, of "[?m]" echo_dispatcher "\<lambda>(_ :: nat) _ c. c"]
  show ?thesis
    by (simp add: sample_conn_facts content_TcpBuffer_new echo_request_wire(2) Let_def del: read_all.simps run_steps.simps) blast
qed

text \<open>
  A whole call.  A client whose \<open>connect\<close> succeeds sends the request; the server, reading it in
  whatever segments, calls the registered handler once with the request and the application state and
  sends its result; the client, reading that in whatever segments, stores the parsed result in the
  response object, runs the user's callback once, leaves the controller without an error and cancels
  the timeout.
\<close>

theorem rpc_call_end_to_end:
  assumes client: "fresh_client c" "wf_conn n c" "content (m_in_buffer c) = []" "content (m_out_buffer c) = []"
      "m_done (m_world c) = Some (RpcClosure True)"
    and server: "wf_conn n' s" "m_state s = Connected" "m_conn_type s = TcpConnectionByServer"
      "content (m_in_buffer s) = []" "content (m_out_buffer s) = []" "m_world s = (rt, app)"
    and req: "req = complete (setPbData pb_data (CallMethod_request new_id name c))" "encodable req"
    and handler: "callable d (received req) service md fr mname"
      "CallMethod service md (call_controller (received req)) (call_runtime (received req) mname) fr
         (NewResponse service md) app = (func_resp, app')"
      "SerializeAsString service func_resp \<noteq> []"
    and resp: "resp = reply_to (received req) OK (ascii ''success'') (SerializeAsString service func_resp)"
      "encodable resp"
      "ParseResponse env (m_response (m_world c)) (SerializeAsString service func_resp) = (True, r)"
    and there: "concat segs = wire req" "[] \<notin> set segs"
      "m_write_index (m_in_buffer s) + int (length (wire req)) < n'" "length (wire req) \<le> k"
    and home: "concat segs' = wire resp" "[] \<notin> set segs'"
      "m_write_index (m_in_buffer c) + int (length (wire resp)) < n" "length (wire resp) \<le> k'"
  shows "let c1 = RpcChannel_CallMethod env ConnectOk True new_id name (Some pb_data) done i c;
            c2 = rpc_step env c1 (EvWrite [Accept k]);
            s1 = run_steps (read_all (dispatching d) run_cb) s (segments segs);
            s2 = conn_step (dispatching d) run_cb s1 (DoWrite [Accept k']);
            c3 = run_steps (rpc_step env) c2 (map EvRead (segments segs'));
            w = m_world c3
     in m_sent c2 = m_sent c @ wire req
      \<and> m_sent s2 = m_sent s @ wire resp \<and> m_world s2 = (call_runtime (received req) mname, app')
      \<and> done_runs w = 1 \<and> m_response w = r \<and> m_controller w = m_controller (m_world c1)
      \<and> te_is_canceled (m_heap (m_timer w) i) \<and> m_read_cb c3 = Map.empty"
proof -
  define c1 where "c1 = RpcChannel_CallMethod env ConnectOk True new_id name (Some pb_data) done i c"
  note start = call_started [OF client(1) c1_def, folded req(1)]
  have wf1: "wf_conn n c1" using client(2) start(5,6) by (simp add: wf_conn_def)
  have out1: "content (m_out_buffer c1) = []" using client(4) start(6) by simp
  obtain c2 where c2: "onWrite (run_message_cb env) [Accept k] c1 = Some c2" "m_state c2 = Connected"
    "m_conn_type c2 = TcpConnectionByClient" "m_in_buffer c2 = m_in_buffer c1" "wf_conn n c2"
    "m_sent c2 = m_sent c1 @ wire req" "m_world c2 = m_world c1"
    "m_read_cb c2 = (m_read_cb c1)(m_msg_id (with_id req) \<mapsto> ReadCb)"
    using client_onWrite_request [OF wf1 start(3,4,1) out1 there(4), of env] by blast
  then have step2: "rpc_step env c1 (EvWrite [Accept k]) = c2" by simp
  define s1 where "s1 = run_steps (read_all (dispatching d) run_cb) s (segments segs)"
  have bound: "m_write_index (m_in_buffer s) + int (length (concat segs)) < n'" using there(1,3) by simp
  have feed: "feed parse_stream (content (m_in_buffer s)) segs = Some ([received req], [])"
    using tinypb.feed_encoded [of "[req]" segs] req(2) there(1) server(4) by simp
  have "dispatch_all (dispatching d) [received req] (m_world s) = Inr ([resp], call_runtime (received req) mname, app')"
    using dispatch_all_one [OF handler] server(6) resp(1) by simp
  from server_segments [OF server(1-3) there(2) bound feed this, of run_cb] server(5)
  have s1: "wf_conn n' s1" "m_state s1 = Connected" "m_conn_type s1 = TcpConnectionByServer"
    "content (m_out_buffer s1) = wire resp" "m_world s1 = (call_runtime (received req) mname, app')" "m_sent s1 = m_sent s"
    by (simp_all add: s1_def Let_def del: read_all.simps)
  have "wire resp \<noteq> []" using length_wire [of resp] by (auto simp: pk_size_def)
  then obtain s2 where s2: "onWrite run_cb [Accept k'] s1 = Some s2" "m_sent s2 = m_sent s @ wire resp"
    "m_world s2 = m_world s1"
    using server_onWrite_all [OF s1(1-3), of k' run_cb] s1(4,6) home(4) by auto
  have id: "m_msg_id (received resp) = m_msg_id (with_id req)"
    using with_id_same [of resp] received_fields(6) [of req] by (simp add: received_fields resp(1))
  have home_bound: "m_write_index (m_in_buffer c2) + int (length (concat segs')) < n"
    using home(1,3) c2(4) start(5) by simp
  have home_feed: "feed parse_stream (content (m_in_buffer c2)) segs' = Some ([received resp], [])"
    using tinypb.feed_encoded [of "[resp]" segs'] resp(2) home(1) client(3) c2(4) start(5) by simp
  from client_segments_one [OF c2(5,2,3) home(2) home_bound home_feed inert_run_message_cb, of no_dispatch] obtain b b'
    where run: "run_steps (rpc_step env) c2 (map EvRead (segments segs'))
      = (run_read_cbs (run_message_cb env) [received resp] (c2\<lparr>m_in_buffer := b\<rparr>))\<lparr>m_in_buffer := b'\<rparr>"
    by (metis rpc_step_reads)
  have ok: "m_err_code (received resp) = 0" "m_pb_data (received resp) = SerializeAsString service func_resp"
    by (simp_all add: received_fields resp(1))
  let ?c = "c2\<lparr>m_in_buffer := b\<rparr>"
  have "m_world (run_message_cb env ReadCb (TinyPB (received resp)) ?c) = (m_world c1)
     \<lparr>m_timer := cancelTimerEvent i (m_timer (m_world c1)), m_response := r, done_runs := 1\<rparr>"
    using good_response [of ?c "received resp" env r] start(8-12) ok resp(3) client(5) c2(7) by simp
  moreover have "m_read_cb (run_message_cb env ReadCb (TinyPB (received resp)) ?c) = [m_msg_id (with_id req) \<mapsto> ReadCb]"
    using read_cb_shape [of ?c env "received resp"] start(2,11) c2(7,8) by auto
  moreover have "m_read_cb ?c (m_msg_id (received resp)) = Some ReadCb" using c2(8) id by simp
  ultimately show ?thesis
    using c2(6) start(7) s2 s1(5)
    unfolding Let_def c1_def [symmetric] step2 s1_def [symmetric] run
    by (simp add: Let_def id cancelTimerEvent_def setCanceled_def del: rpc_step.simps read_all.simps)
qed

definition sample_caller :: "nat client" where
  "sample_caller = sample_client\<lparr>m_in_buffer := TcpBuffer_new block, m_out_buffer := TcpBuffer_new block\<rparr>"

lemma sample_caller_facts:
  "fresh_client sample_caller" "wf_conn 1024 sample_caller" "content (m_in_buffer sample_caller) = []"
  "content (m_out_buffer sample_caller) = []" "m_write_index (m_in_buffer sample_caller) = 0"
  "m_done (m_world sample_caller) = Some (RpcClosure True)" "m_response (m_world sample_caller) = 0"
  "m_controller (m_world sample_caller) = RpcController_new\<lparr>rc_msg_id := [55]\<rparr>"
  "argument_controller (m_world sample_caller) = RpcController_new\<lparr>rc_msg_id := [55]\<rparr>"
proof -
  show "fresh_client sample_caller" using fresh_sample_client by (simp add: fresh_client_def sample_caller_def)
  show "wf_conn 1024 sample_caller" "content (m_in_buffer sample_caller) = []" "content (m_out_buffer sample_caller) = []"
    by (simp_all add: sample_caller_def wf_conn_def sample_buffer_facts wf_TcpBuffer_new content_TcpBuffer_new)
  show "m_write_index (m_in_buffer sample_caller) = 0" by (simp add: sample_caller_def TcpBuffer_new_def)
  show "m_done (m_world sample_caller) = Some (RpcClosure True)" "m_response (m_world sample_caller) = 0"
    "m_controller (m_world sample_caller) = RpcController_new\<lparr>rc_msg_id := [55]\<rparr>"
    "argument_controller (m_world sample_caller) = RpcController_new\<lparr>rc_msg_id := [55]\<rparr>"
    by (simp_all add: sample_caller_def sample_client_def TcpConnection_new_def Let_def)
qed

theorem rpc_call_end_to_end_witness:
  "\<exists>c3. m_response (m_world c3) = 2 \<and> done_runs (m_world c3) = 1 \<and> c3 = run_steps (rpc_step sample_env)
     (rpc_step sample_env (RpcChannel_CallMethod sample_env ConnectOk True [] (ascii ''Echo.inc'') (Some [8, 1]) None 0 sample_caller)
        (EvWrite [Accept 100]))
     (map EvRead (segments [wire (reply_to (received (complete (setPbData [8, 1]
        (CallMethod_request [] (ascii ''Echo.inc'') sample_caller)))) OK (ascii ''success'') [8, 1])]))"
proof -
  define req where "req = complete (setPbData [8, 1] (CallMethod_request [] (ascii ''Echo.inc'') sample_caller))"
  define resp where "resp = reply_to (received req) OK (ascii ''success'') [8, 1]"
  have req: "m_msg_id req = [55]" "m_method_name req = ascii ''Echo.inc''" "m_pb_data req = [8, 1]" "m_err_info req = []"
    by (simp_all add: req_def setter_defs CallMethod_request_def Let_def sample_caller_facts GetMsgId_def TinyPBProtocol_new_def)
  have resp: "m_msg_id resp = [55]" "m_method_name resp = ascii ''Echo.inc''" "m_pb_data resp = [8, 1]" "m_err_info resp = ascii ''success''"
    using req by (simp_all add: resp_def received_fields with_id_same)
  have len: "length (wire req) = 37" "length (wire resp) = 44" "encodable req" "encodable resp"
    by (simp_all add: length_wire encodable_def with_id_same pk_size_def req resp)
  have callable: "callable echo_dispatcher (received req) echo_service 0 [8, 1] (ascii ''inc'')"
    using echo_callable [of "[8, 1]"] req by (simp add: callable_def received_fields echo_request_def)
  have ne: "[] \<notin> set [wire req]" "[] \<notin> set [wire resp]" using len by (auto dest: arg_cong [where f = length])
  have handler: "CallMethod echo_service 0 (call_controller (received req)) (call_runtime (received req) (ascii ''inc''))
      [8, 1] (NewResponse echo_service 0) 5 = ([8, 1], 7)" "SerializeAsString echo_service [8, 1] \<noteq> []"
    "resp = reply_to (received req) OK (ascii ''success'') (SerializeAsString echo_service [8, 1])"
    by (simp_all add: echo_service_def resp_def)
  define s where "s = (sample_conn TcpConnectionByServer (Runtime_new, 5) :: (nat, runtime \<times> nat) tcp_connection)"
  have s: "wf_conn 1024 s" "m_state s = Connected" "m_conn_type s = TcpConnectionByServer"
    "content (m_in_buffer s) = []" "content (m_out_buffer s) = []" "m_world s = (Runtime_new, 5)"
    by (simp_all add: s_def wf_sample_conn sample_conn_facts content_TcpBuffer_new)
  have env: "ParseResponse sample_env (m_response (m_world sample_caller)) (SerializeAsString echo_service [8, 1]) = (True, 2)"
    by (simp add: sample_env_def echo_service_def)
  have there: "concat [wire req] = wire req" "m_write_index (m_in_buffer s) + int (length (wire req)) < 1024"
    "length (wire req) \<le> 100"
    by (simp_all add: s_def sample_conn_facts TcpBuffer_new_def len)
  have home: "concat [wire resp] = wire resp" "m_write_index (m_in_buffer sample_caller) + int (length (wire resp)) < 1024"
    "length (wire resp) \<le> 100"
    by (simp_all add: sample_caller_facts len)
  note whole = rpc_call_end_to_end [OF sample_caller_facts(1-4,6) s req_def len(3) callable handler len(4) env
    there(1) ne(1) there(2,3) home(1) ne(2) home(2,3), of None 0 "\<lambda>(_ :: nat) _ c. c", unfolded Let_def]
  then show ?thesis unfolding req_def [symmetric] resp_def [symmetric] by blast
qed

end
