(* ===== verification/CallResponse.thy ===== *)
theory CallResponse
  imports BlockingCall EndToEnd
begin

text \<open>
  What a blocking call returns: the rounds of its loop write the request, read the response in its
  segments and stop; the response, the controller and the callback are as the response says.
\<close>

section \<open>Rounds with one handler\<close>

lemma queue_taken_same [simp]: "m_pending_tasks (conn_loop d) = [] \<Longrightarrow> queue_taken d = d"
  by (cases d; cases "conn_loop d") (simp add: queue_taken_def)

lemma queue_taken_put [simp]: "queue_taken (queue_put ts d) = queue_taken d"
  by (simp add: queue_taken_def queue_put_def)

text \<open>One event of the connection: its callback is what is queued.\<close>

lemma round_tasks_connection:
  assumes "objects q = None" and "m_fd (conn_event d) = int q"
  shows "round_tasks objects (Epoll_events [(Some q, EPOLLIN)]) d = [Call (m_read_callback (conn_event d))]"
    and "round_tasks objects (Epoll_events [(Some q, EPOLLOUT)]) d = [Call (m_write_callback (conn_event d))]"
  using assms by (simp_all add: round_tasks_def client_fd_object_def EPOLLIN_def EPOLLOUT_def)

lemma round_of_handler:
  assumes "m_pending_tasks (conn_loop d) = []" and "run_client_handler env a h d = Some d'"
  shows "client_round env objects (a, rt) (queue_put [Call (Some h)] d) = Some (queue_put (round_tasks objects rt d') d')"
    and "m_pending_tasks (conn_loop d') = []"
  using assms queue_kept.handler [of d "[]" env a h d'] by (simp_all add: client_round_eq client_task_def)

text \<open>The answers of a round in which the socket delivers a segment, takes \<open>k\<close> bytes, or is connected.\<close>

definition delivers :: "byte list \<Rightarrow> client_answers" where
  "delivers bs = \<lparr>ca_read = [Bytes bs], ca_write = [], ca_connect = EISCONN\<rparr>"

definition takes :: "nat \<Rightarrow> client_answers" where
  "takes k = \<lparr>ca_read = [], ca_write = [Accept k], ca_connect = EISCONN\<rparr>"

definition reading_rounds :: "nat \<Rightarrow> byte list list \<Rightarrow> (client_answers \<times> epoll_result) list" where
  "reading_rounds q segs = map (\<lambda>bs. (delivers bs, Epoll_events [(Some q, EPOLLIN)])) segs"

section \<open>Reading the response\<close>

text \<open>The call waits for its response.\<close>

definition awaits_response :: "int \<Rightarrow> cstring \<Rightarrow> nat \<Rightarrow> 'pb client \<Rightarrow> bool" where
  "awaits_response n mid q d \<longleftrightarrow> wf_conn n d \<and> m_state d = Connected \<and> m_conn_type d = TcpConnectionByClient
     \<and> m_read_cb d = [mid \<mapsto> ReadCb] \<and> (\<exists>x. m_read_callback (conn_event d) = Some (OnRead x))
     \<and> m_fd (conn_event d) = int q \<and> m_pending_tasks (conn_loop d) = [] \<and> stop_inv d \<and> done_runs (m_world d) = 0
     \<and> \<not> m_is_canceled (m_controller (m_world d))"

text \<open>What the response does to the call's state.\<close>

definition response_outcome :: "'pb rpc_env \<Rightarrow> tinypb_protocol \<Rightarrow> 'pb rpc_state \<Rightarrow> 'pb rpc_state \<Rightarrow> bool" where
  "response_outcome env resp w w' \<longleftrightarrow>
     (if m_err_code resp \<noteq> 0
      then m_response w' = m_response w \<and> GetErrorCode (m_controller w') = m_err_code resp
         \<and> GetErrorInfo (m_controller w') = m_err_info resp \<and> Failed (m_controller w')
      else case ParseResponse env (m_response w) (m_pb_data resp) of
             (ok, r) \<Rightarrow> m_response w' = r
               \<and> (if ok then m_controller w' = m_controller w
                  else Failed (m_controller w') \<and> GetErrorCode (m_controller w') = error_code SYS_FAILED_DESERIALIZE))"

lemma response_handled:
  assumes "awaits_response n mid q d" and "m_msg_id m = mid"
    and "d' = run_read_cbs (run_message_cb env) [m] (d\<lparr>m_in_buffer := b\<rparr>)"
  shows "m_stop_flag (conn_loop d')" and "done_runs (m_world d') = 1" and "response_outcome env m (m_world d) (m_world d')"
    and "te_is_canceled (m_heap (m_timer (m_world d')) (m_timer_event (m_world d)))" and "m_sent d' = m_sent d"
proof -
  let ?d = "d\<lparr>m_in_buffer := b\<rparr>"
  let ?r = "run_message_cb env ReadCb (TinyPB m) ?d"
  have d: "m_done (m_world ?d) = Some (RpcClosure True)" "m_is_looping (conn_loop ?d)" "\<not> m_is_canceled (m_controller (m_world ?d))"
    using assms(1) by (simp_all add: awaits_response_def stop_inv_def)
  have d': "d' = ?r\<lparr>m_read_cb := (m_read_cb ?r)(mid := None)\<rparr>"
    using assms(1) by (simp add: assms(2,3) awaits_response_def Let_def)
  note all = response_completes_call [OF d(3,1,2), of env m, unfolded Let_def]
  show "m_stop_flag (conn_loop d')" "done_runs (m_world d') = 1"
    "te_is_canceled (m_heap (m_timer (m_world d')) (m_timer_event (m_world d)))"
    using all assms(1) by (simp_all add: d' awaits_response_def)
  show "response_outcome env m (m_world d) (m_world d')"
    using all by (simp add: response_outcome_def d' split_def)
  have sent: "m_sent (closure_Run cl c) = m_sent c" "m_sent (handle_response env m c) = m_sent c"
    for cl and c :: "'a client"
    by (simp_all add: closure_Run_def handle_response_def on_controller_def on_world_def split_def Let_def split: option.split)
  show "m_sent d' = m_sent d"
    using d(3) by (simp add: d' run_message_cb_def IsCanceled_def Let_def sent on_world_def)
qed

lemma loop_reads_response:
  assumes "awaits_response n mid q d" and "objects q = None" and "[] \<notin> set segs"
    and "m_write_index (m_in_buffer d) + int (length (concat segs)) < n"
    and "feed parse_stream (content (m_in_buffer d)) segs = Some ([m], rest)" and "m_msg_id m = mid"
  shows "\<exists>c'. client_loop env objects (reading_rounds q segs) (queue_put [Call (m_read_callback (conn_event d))] d) = Returns c'
     \<and> done_runs (m_world c') = 1 \<and> response_outcome env m (m_world d) (m_world c')
     \<and> te_is_canceled (m_heap (m_timer (m_world c')) (m_timer_event (m_world d))) \<and> m_sent c' = m_sent d"
  using assms
proof (induction segs arbitrary: d)
  case Nil
  then show ?case by simp
next
  case (Cons bs segs)
  from Cons.prems(5) obtain ms1 r1 ms2 where p: "parse_stream (content (m_in_buffer d) @ bs) = Some (ms1, r1)"
    and f: "feed parse_stream r1 segs = Some (ms2, rest)" and ms: "[m] = ms1 @ ms2" by (auto split: option.splits)
  have bs: "bs \<noteq> []" and segs: "[] \<notin> set segs" using Cons.prems(3) by auto
  have room: "m_write_index (m_in_buffer d) + int (length bs) < n" using Cons.prems(4) by simp
  have d: "wf_conn n d" "m_state d = Connected" "m_conn_type d = TcpConnectionByClient" "m_pending_tasks (conn_loop d) = []"
    "m_fd (conn_event d) = int q" "\<not> m_stop_flag (conn_loop d)"
    using Cons.prems(1) by (simp_all add: awaits_response_def stop_inv_def)
  obtain x where x: "m_read_callback (conn_event d) = Some (OnRead x)" using Cons.prems(1) by (auto simp: awaits_response_def)
  obtain b b' where b: "onRead no_dispatch (run_message_cb env) [Bytes bs] d
        = execute no_dispatch (run_message_cb env) (d\<lparr>m_in_buffer := b\<rparr>)"
      "tinypb_decode b = Some (Inr (ms1, b'))" "roomy b'" "m_size b' = n" "content b' = r1"
      "m_write_index b' \<le> m_write_index (m_in_buffer d) + int (length bs)"
    using segment_read [OF d(1,2) bs room p, of no_dispatch "run_message_cb env"] by blast
  define d' where "d' = run_read_cbs (run_message_cb env) ms1 (d\<lparr>m_in_buffer := b'\<rparr>)"
  have "run_client_handler env (delivers bs) (OnRead x) d = Some d'"
    using b(1,2) d(3) by (simp add: run_client_handler_def delivers_def execute_def d'_def)
  note round = round_of_handler(1) [OF d(4) this, where objects = objects and rt = "Epoll_events [(Some q, EPOLLIN)]"]
  have step: "client_loop env objects (reading_rounds q (bs # segs)) (queue_put [Call (m_read_callback (conn_event d))] d)
      = client_loop env objects (reading_rounds q segs) (queue_put (round_tasks objects (Epoll_events [(Some q, EPOLLIN)]) d') d')"
    using round d(6) by (simp add: reading_rounds_def x)
  show ?case
  proof (cases ms1)
    case Nil
    then have d': "d' = d\<lparr>m_in_buffer := b'\<rparr>" and ms2: "ms2 = [m]" using ms by (simp_all add: d'_def)
    have "stop_inv d'" by (rule stopping.frame [of d]) (use Cons.prems(1) in \<open>simp_all add: d' awaits_response_def\<close>)
    then have await: "awaits_response n mid q d'"
      using Cons.prems(1) b(3,4) by (simp add: d' awaits_response_def wf_conn_def)
    have "m_write_index (m_in_buffer d') + int (length (concat segs)) < n" using b(6) Cons.prems(4) by (simp add: d')
    from Cons.IH [OF await Cons.prems(2) segs this] f b(5) Cons.prems(6) show ?thesis
      unfolding step using round_tasks_connection(1) [of objects q d'] Cons.prems(2) d(5) by (simp add: d' ms2)
  next
    case (Cons y ys)
    then have "ms1 = [m]" using ms by simp
    note fin = response_handled [OF Cons.prems(1,6), of d' env b', unfolded d'_def \<open>ms1 = [m]\<close>, OF refl]
    let ?c = "queue_put (round_tasks objects (Epoll_events [(Some q, EPOLLIN)]) d') d'"
    have "client_loop env objects (reading_rounds q segs) ?c = Returns ?c"
      using fin(1) by (cases segs) (simp_all add: reading_rounds_def d'_def \<open>ms1 = [m]\<close>)
    with fin show ?thesis unfolding step by (simp add: d'_def \<open>ms1 = [m]\<close>) (simp add: queue_put_def)
  qed
qed

section \<open>Sending the request\<close>

text \<open>The connection is there and the request waits for the socket.\<close>

definition request_queued :: "int \<Rightarrow> tinypb_protocol \<Rightarrow> nat \<Rightarrow> 'pb client \<Rightarrow> bool" where
  "request_queued n req q d \<longleftrightarrow> wf_conn n d \<and> m_state d = Connected \<and> m_conn_type d = TcpConnectionByClient
     \<and> m_write_cb d = [(TinyPB req, WriteCb)] \<and> m_read_cb d = Map.empty \<and> content (m_out_buffer d) = []
     \<and> (\<exists>x. m_write_callback (conn_event d) = Some (OnWrite x)) \<and> m_fd (conn_event d) = int q
     \<and> m_pending_tasks (conn_loop d) = [] \<and> stop_inv d \<and> done_runs (m_world d) = 0
     \<and> \<not> m_is_canceled (m_controller (m_world d))"

lemma request_sent:
  assumes "request_queued n req q d" and "length (wire req) \<le> k" and "objects q = None"
  shows "\<exists>d'. client_round env objects (takes k, Epoll_events [(Some q, EPOLLIN)])
        (queue_put [Call (m_write_callback (conn_event d))] d) = Some (queue_put [Call (m_read_callback (conn_event d'))] d')
     \<and> awaits_response n (m_msg_id (with_id req)) q d' \<and> m_in_buffer d' = m_in_buffer d
     \<and> m_sent d' = m_sent d @ wire req \<and> m_world d' = m_world d"
proof -
  have d: "wf_conn n d" "m_state d = Connected" "m_conn_type d = TcpConnectionByClient" "m_write_cb d = [(TinyPB req, WriteCb)]"
    "content (m_out_buffer d) = []" "m_pending_tasks (conn_loop d) = []" "stop_inv d"
    using assms(1) by (simp_all add: request_queued_def)
  obtain d' where d': "onWrite (run_message_cb env) [Accept k] d = Some d'" "m_state d' = Connected"
     "m_conn_type d' = TcpConnectionByClient" "m_in_buffer d' = m_in_buffer d" "wf_conn n d'" "m_sent d' = m_sent d @ wire req"
     "m_world d' = m_world d" "m_read_cb d' = (m_read_cb d)(m_msg_id (with_id req) \<mapsto> ReadCb)"
     "m_read_callback (conn_event d') = Some (OnRead (m_this d))" "m_fd (conn_event d') = m_fd (conn_event d)"
    using client_onWrite_request [OF d(1-5) assms(2), of env] by blast
  obtain x where x: "m_write_callback (conn_event d) = Some (OnWrite x)" using assms(1) by (auto simp: request_queued_def)
  have "run_client_handler env (takes k) (OnWrite x) d = Some d'" using d'(1) by (simp add: run_client_handler_def takes_def)
  note round = round_of_handler(1) [OF d(6) this, of objects] and queue = round_of_handler(2) [OF d(6) this]
  have fd: "m_fd (conn_event d') = int q" using assms(1) d'(10) by (simp add: request_queued_def)
  have "stop_inv d'" by (rule stopping.writing [OF d(7) d'(1)])
  then have "awaits_response n (m_msg_id (with_id req)) q d'"
    using assms(1) d' queue fd by (simp add: awaits_response_def request_queued_def)
  then show ?thesis
    using round [of "Epoll_events [(Some q, EPOLLIN)]"] round_tasks_connection(1) [of objects q d', OF assms(3) fd] x d'
    by (intro exI [of _ d']) simp
qed

lemma writeMessage_facts:
  "m_write_cb (writeMessage m k c) = m_write_cb c @ [(m, k)]" "m_read_cb (writeMessage m k c) = m_read_cb c"
  "m_state (writeMessage m k c) = m_state c" "m_conn_type (writeMessage m k c) = m_conn_type c"
  "m_in_buffer (writeMessage m k c) = m_in_buffer c" "m_out_buffer (writeMessage m k c) = m_out_buffer c"
  "m_write_callback (conn_event (writeMessage m k c)) = Some (OnWrite (m_this c))"
  "m_fd (conn_event (writeMessage m k c)) = m_fd (conn_event c)" "m_world (writeMessage m k c) = m_world c"
  "m_sent (writeMessage m k c) = m_sent c"
  "m_pending_tasks (conn_loop (writeMessage m k c)) = m_pending_tasks (conn_loop c)"
  by (simp_all add: writeMessage_def listenWriteEvent_def conn_addEpollEvent_def addMessage_def listen_def
      addEpollEvent_def isInLoopThread_def)

lemma connected_more:
  "conn_event (connected env c) = conn_event c" "conn_loop (connected env c) = conn_loop c" "m_sent (connected env c) = m_sent c"
  "m_in_buffer (connected env c) = m_in_buffer c" "m_out_buffer (connected env c) = m_out_buffer c"
  "m_state (connected env c) = Connected" "m_done (m_world (connected env c)) = m_done (m_world c)"
  "m_response (m_world (connected env c)) = m_response (m_world c)"
  "m_timer_event (m_world (connected env c)) = m_timer_event (m_world c)"
  by (simp_all add: connected_def initLocalAddr_def setState_def on_world_def)

lemma prepared_more:
  assumes "fresh_client c"
  shows "m_write_cb (prepared new_id name pb_data i c) = []" and "m_read_cb (prepared new_id name pb_data i c) = Map.empty"
    and "m_conn_type (prepared new_id name pb_data i c) = TcpConnectionByClient"
    and "m_in_buffer (prepared new_id name pb_data i c) = m_in_buffer c"
    and "m_out_buffer (prepared new_id name pb_data i c) = m_out_buffer c" and "m_sent (prepared new_id name pb_data i c) = m_sent c"
    and "\<not> m_is_canceled (m_controller (m_world (prepared new_id name pb_data i c)))"
  using assms by (simp_all add: prepared_def Let_def fresh_client_def on_world_def)

text \<open>The two ways in which a connection comes about.\<close>

lemma deleteEpollEvent_more [simp]:
  "m_in_buffer (conn_deleteEpollEvent k c) = m_in_buffer c" "m_out_buffer (conn_deleteEpollEvent k c) = m_out_buffer c"
  "m_sent (conn_deleteEpollEvent k c) = m_sent c" "conn_event (conn_deleteEpollEvent k c) = conn_event c"
  by (simp_all add: conn_deleteEpollEvent_def)

lemma request_queued_at_once:
  assumes fresh: "fresh_call c" and bufs: "wf_conn n c" "content (m_out_buffer c) = []" "m_fd (conn_event c) = int q"
    and d_def: "d = RpcChannel_CallMethod env ConnectOk True new_id name (Some pb_data) (Some (RpcClosure True)) i c"
  shows "request_queued n (complete (setPbData pb_data (CallMethod_request new_id name c))) q d"
    and "m_in_buffer d = m_in_buffer c" and "m_sent d = m_sent c" and "m_timer_event (m_world d) = i"
proof -
  let ?req = "complete (setPbData pb_data (CallMethod_request new_id name c))" and ?p = "prepared new_id name pb_data i c"
  have client: "fresh_client c" and init: "m_is_init (m_world c)" and queue: "m_pending_tasks (conn_loop c) = []"
    using fresh by (simp_all add: fresh_call_def fresh_client_def)
  have d: "d = enter_loop (writeMessage (TinyPB ?req) WriteCb (connected env ?p))"
    by (simp add: d_def CallMethod_prepared [OF init] connect_def run_conn_cb_def)
  have enter: "m_write_cb (enter_loop e) = m_write_cb e" "m_read_cb (enter_loop e) = m_read_cb e"
    "m_conn_type (enter_loop e) = m_conn_type e" "m_in_buffer (enter_loop e) = m_in_buffer e"
    "m_out_buffer (enter_loop e) = m_out_buffer e" "m_sent (enter_loop e) = m_sent e" for e :: "'a client"
    by (simp_all add: enter_loop_def)
  note facts = prepared_facts [OF client, of new_id name pb_data i] prepared_more [OF client, of new_id name pb_data i]
  have "stop_inv d" using call_starts(1) [OF fresh _ d_def] by (auto dest: between_inv)
  then show "request_queued n ?req q d"
    using bufs facts queue by (simp add: request_queued_def d enter writeMessage_facts connected_more wf_conn_def)
  show "m_in_buffer d = m_in_buffer c" "m_sent d = m_sent c" "m_timer_event (m_world d) = i"
    using facts by (simp_all add: d enter writeMessage_facts connected_more)
qed

lemma request_queued_later:
  assumes fresh: "fresh_call c" and bufs: "wf_conn n c" "content (m_out_buffer c) = []" "m_fd (conn_event c) = int q"
    and c1_def: "c1 = RpcChannel_CallMethod env EINPROGRESS True new_id name (Some pb_data) (Some (RpcClosure True)) i c"
    and d_def: "d = on_connect env EISCONN (ConnCb req) c1"
  shows "request_queued n req q d" and "m_in_buffer d = m_in_buffer c" and "m_sent d = m_sent c"
    and "m_timer_event (m_world d) = i"
    and "m_write_callback (conn_event c1) = Some (OnConnect (ConnCb (complete (setPbData pb_data (CallMethod_request new_id name c)))))"
    and "m_fd (conn_event c1) = int q" and "m_pending_tasks (conn_loop c1) = []"
    and "m_controller (m_world d) = m_controller (m_world c1)" and "m_response (m_world d) = m_response (m_world c1)"
proof -
  let ?req = "complete (setPbData pb_data (CallMethod_request new_id name c))" and ?p = "prepared new_id name pb_data i c"
  have client: "fresh_client c" and init: "m_is_init (m_world c)" and queue: "m_pending_tasks (conn_loop c) = []"
    using fresh by (simp_all add: fresh_call_def fresh_client_def)
  let ?e = "?p\<lparr>conn_event := listen OUT_EVENT (OnConnect (ConnCb ?req)) (conn_event c)\<rparr>"
  have c1: "c1 = enter_loop (conn_addEpollEvent (m_tid (conn_loop c)) ?e)"
    by (simp add: c1_def CallMethod_prepared [OF init] connect_def)
  have same: "m_write_cb c1 = m_write_cb ?p" "m_read_cb c1 = m_read_cb ?p" "m_conn_type c1 = m_conn_type ?p"
    "m_in_buffer c1 = m_in_buffer ?p" "m_out_buffer c1 = m_out_buffer ?p" "m_sent c1 = m_sent ?p" "m_world c1 = m_world ?p"
    by (simp_all add: c1 enter_loop_def conn_addEpollEvent_def)
  show e: "m_write_callback (conn_event c1) = Some (OnConnect (ConnCb ?req))" "m_fd (conn_event c1) = int q"
    "m_pending_tasks (conn_loop c1) = []"
    using bufs(3) queue by (simp_all add: c1 conn_addEpollEvent_def listen_def addEpollEvent_def isInLoopThread_def)
  have d: "d = writeMessage (TinyPB req) WriteCb (conn_deleteEpollEvent (m_tid (conn_loop (connected env c1))) (connected env c1))"
    by (simp add: d_def on_connect_def run_conn_cb_def Let_def)
  note facts = prepared_facts [OF client, of new_id name pb_data i] prepared_more [OF client, of new_id name pb_data i]
  have stop: "stop_inv d"
    using call_starts(1) [OF fresh _ c1_def] by (auto simp: d_def intro: stopping.connecting dest: between_inv)
  have queue: "m_pending_tasks (conn_loop d) = []"
    using queue_kept.connecting [of c1 "[]" env EISCONN "ConnCb req"] e(3) by (simp add: d_def)
  show "request_queued n req q d"
    using bufs facts stop queue e(2)
    by (simp add: request_queued_def) (simp add: d same writeMessage_facts connected_more wf_conn_def)
  show "m_in_buffer d = m_in_buffer c" "m_sent d = m_sent c" "m_timer_event (m_world d) = i"
    "m_controller (m_world d) = m_controller (m_world c1)" "m_response (m_world d) = m_response (m_world c1)"
    using facts by (simp_all add: d same writeMessage_facts connected_more)
qed

section \<open>The whole call\<close>

lemma idle_round:
  "m_pending_tasks (conn_loop d) = [] \<Longrightarrow>
     client_round env objects (a, rt) d = Some (queue_put (round_tasks objects rt d) d)"
  by (simp add: client_round_eq)

lemma loop_step:
  "\<not> m_stop_flag (conn_loop c) \<Longrightarrow> client_round env objects r c = Some c' \<Longrightarrow>
     client_loop env objects (r # rs) c = client_loop env objects rs c'"
  by simp

text \<open>The rounds of a call on a healthy connection: the socket becomes writable, which connects it if
  that was in progress; it takes the request; it delivers the response in segments.\<close>

definition call_rounds :: "connect_result \<Rightarrow> nat \<Rightarrow> nat \<Rightarrow> byte list list \<Rightarrow> (client_answers \<times> epoll_result) list" where
  "call_rounds rt q k segs =
     (takes 0, Epoll_events [(Some q, EPOLLOUT)])
     # (if rt = EINPROGRESS then [(takes 0, Epoll_events [(Some q, EPOLLOUT)])] else [])
     @ (takes k, Epoll_events [(Some q, EPOLLIN)]) # reading_rounds q segs"

lemma rounds_after_connect:
  assumes d: "request_queued n req q d" and "length (wire req) \<le> k" and objects: "objects q = None"
    and "encodable resp" and "m_msg_id (with_id resp) = m_msg_id (with_id req)"
    and "concat segs = wire resp" and "[] \<notin> set segs" and "content (m_in_buffer d) = []"
    and "m_write_index (m_in_buffer d) + int (length (wire resp)) < n"
  shows "\<exists>c'. client_loop env objects ((takes k, Epoll_events [(Some q, EPOLLIN)]) # reading_rounds q segs)
        (queue_put [Call (m_write_callback (conn_event d))] d) = Returns c'
     \<and> m_sent c' = m_sent d @ wire req \<and> done_runs (m_world c') = 1
     \<and> response_outcome env (received resp) (m_world d) (m_world c')
     \<and> te_is_canceled (m_heap (m_timer (m_world c')) (m_timer_event (m_world d)))"
proof -
  obtain e where e: "client_round env objects (takes k, Epoll_events [(Some q, EPOLLIN)])
        (queue_put [Call (m_write_callback (conn_event d))] d) = Some (queue_put [Call (m_read_callback (conn_event e))] e)"
      "awaits_response n (m_msg_id (with_id req)) q e" "m_in_buffer e = m_in_buffer d"
      "m_sent e = m_sent d @ wire req" "m_world e = m_world d"
    using request_sent [where q = q and objects = objects and env = env, OF d assms(2) objects] by blast
  have go: "\<not> m_stop_flag (conn_loop d)" using d by (simp add: request_queued_def stop_inv_def)
  have bound: "m_write_index (m_in_buffer e) + int (length (concat segs)) < n" using assms(6,9) e(3) by simp
  have feed: "feed parse_stream (content (m_in_buffer e)) segs = Some ([received resp], [])"
    using tinypb.feed_encoded [of "[resp]" segs] assms(4,6,8) e(3) by simp
  have id: "m_msg_id (received resp) = m_msg_id (with_id req)" using assms(5) by (simp add: received_fields)
  from loop_reads_response [where q = q and objects = objects and env = env, OF e(2) objects assms(7) bound feed id] e go show ?thesis by auto
qed

lemma response_outcome_cong:
  "m_response w1 = m_response w \<Longrightarrow> m_controller w1 = m_controller w \<Longrightarrow>
     response_outcome env resp w1 w' = response_outcome env resp w w'"
  by (simp add: response_outcome_def split_def)

lemma call_outcome:
  assumes "fresh_call c" and "wf_conn n c" and "content (m_in_buffer c) = []" and "content (m_out_buffer c) = []"
    and "m_fd (conn_event c) = int q" and "objects q = None" and "rt = ConnectOk \<or> rt = EINPROGRESS"
    and "req = complete (setPbData pb_data (CallMethod_request new_id name c))" and "length (wire req) \<le> k"
    and "encodable resp" and "m_msg_id (with_id resp) = m_msg_id (with_id req)"
    and "concat segs = wire resp" and "[] \<notin> set segs"
    and "m_write_index (m_in_buffer c) + int (length (wire resp)) < n"
    and "c1 = RpcChannel_CallMethod env rt True new_id name (Some pb_data) (Some (RpcClosure True)) i c"
  shows "\<exists>c'. blocking_call env objects rt True new_id name (Some pb_data) (Some (RpcClosure True)) i
        (call_rounds rt q k segs) c = Returns c'
     \<and> m_sent c' = m_sent c @ wire req \<and> done_runs (m_world c') = 1
     \<and> response_outcome env (received resp) (m_world c1) (m_world c')
     \<and> te_is_canceled (m_heap (m_timer (m_world c')) i)"
proof -
  note start = call_starts [OF assms(1,7,15)]
  have call: "blocking_call env objects rt True new_id name (Some pb_data) (Some (RpcClosure True)) i rs c
      = client_loop env objects rs c1" for rs
    using start(2) assms(1) by (simp add: blocking_call_def assms(15) [symmetric] fresh_call_def unused_loop_def)
  have go: "\<not> m_stop_flag (conn_loop c1)"
    using call_completion [of c env rt new_id name "Some pb_data" i] assms(1,7,15)
    by (auto simp: fresh_call_def fresh_client_def completion_def)
  obtain d where d: "request_queued n req q d" "m_in_buffer d = m_in_buffer c" "m_sent d = m_sent c" "m_timer_event (m_world d) = i"
      "m_controller (m_world d) = m_controller (m_world c1)" "m_response (m_world d) = m_response (m_world c1)"
    and loop: "client_loop env objects (call_rounds rt q k segs) c1
      = client_loop env objects ((takes k, Epoll_events [(Some q, EPOLLIN)]) # reading_rounds q segs)
          (queue_put [Call (m_write_callback (conn_event d))] d)"
  proof (cases "rt = ConnectOk")
    case True
    note now = request_queued_at_once [OF assms(1,2,4,5) assms(15) [unfolded True], folded assms(8)]
    then have "m_fd (conn_event c1) = int q" "m_pending_tasks (conn_loop c1) = []" by (simp_all add: request_queued_def)
    then have "client_round env objects (takes 0, Epoll_events [(Some q, EPOLLOUT)]) c1
        = Some (queue_put [Call (m_write_callback (conn_event c1))] c1)"
      using round_tasks_connection(2) [of objects q c1] assms(6) by (simp add: idle_round)
    from loop_step [OF go this] have "client_loop env objects (call_rounds rt q k segs) c1
      = client_loop env objects ((takes k, Epoll_events [(Some q, EPOLLIN)]) # reading_rounds q segs)
          (queue_put [Call (m_write_callback (conn_event c1))] c1)"
      by (simp only: call_rounds_def True connect_result.distinct if_False append.simps)
    with now show ?thesis by (intro that [of c1]) simp_all
  next
    case False
    with assms(7) have rt: "rt = EINPROGRESS" by simp
    define d where "d = on_connect env EISCONN (ConnCb req) c1"
    note later = request_queued_later [OF assms(1,2,4,5) assms(15) [unfolded rt] d_def, folded assms(8)]
    have "run_client_handler env (takes 0) (OnConnect (ConnCb req)) c1 = Some d"
      by (simp add: run_client_handler_def takes_def d_def)
    note conn = round_of_handler(1) [OF later(7) this, of objects "Epoll_events [(Some q, EPOLLOUT)]"]
    have fd: "m_fd (conn_event d) = int q" using later(1) by (simp add: request_queued_def)
    have "client_round env objects (takes 0, Epoll_events [(Some q, EPOLLOUT)]) c1
        = Some (queue_put [Call (Some (OnConnect (ConnCb req)))] c1)"
      using round_tasks_connection(2) [of objects q c1] assms(6) later(5-7) by (simp add: idle_round)
    note first = loop_step [OF go this]
    have "client_round env objects (takes 0, Epoll_events [(Some q, EPOLLOUT)]) (queue_put [Call (Some (OnConnect (ConnCb req)))] c1)
        = Some (queue_put [Call (m_write_callback (conn_event d))] d)"
      using conn round_tasks_connection(2) [of objects q d] assms(6) fd by simp
    moreover have "\<not> m_stop_flag (conn_loop (queue_put ts c1))" for ts using go by simp
    ultimately have "client_loop env objects (call_rounds rt q k segs) c1
      = client_loop env objects ((takes k, Epoll_events [(Some q, EPOLLIN)]) # reading_rounds q segs)
          (queue_put [Call (m_write_callback (conn_event d))] d)"
      using first by (simp only: call_rounds_def rt simp_thms if_True append.simps loop_step)
    with later show ?thesis by (intro that [of d]) simp_all
  qed
  have empty: "content (m_in_buffer d) = []" "m_write_index (m_in_buffer d) + int (length (wire resp)) < n"
    using d(2) assms(3,14) by simp_all
  from rounds_after_connect [where q = q and objects = objects and env = env, OF d(1) assms(9,6,10-13) empty] obtain c' where
    "client_loop env objects ((takes k, Epoll_events [(Some q, EPOLLIN)]) # reading_rounds q segs)
        (queue_put [Call (m_write_callback (conn_event d))] d) = Returns c'"
     "m_sent c' = m_sent d @ wire req" "done_runs (m_world c') = 1"
     "response_outcome env (received resp) (m_world d) (m_world c')"
     "te_is_canceled (m_heap (m_timer (m_world c')) (m_timer_event (m_world d)))" by blast
  with d(3,4) response_outcome_cong [OF d(6,5)] show ?thesis unfolding call loop by auto
qed

text \<open>
  C9: A blocking call returns what the server answers.  On a healthy connection, connected at once or
  in progress, the loop writes the request, reads a response that fits the free space of its input buffer
  however TCP cuts it, and the call returns: the user's callback has run once, the timeout is cancelled,
  and the response object and the controller are what the response says: its error, a failure to parse,
  or its result.
\<close>

theorem call_returns_response:
  assumes "fresh_call c" and "wf_conn n c" and "content (m_in_buffer c) = []" and "content (m_out_buffer c) = []"
    and "m_fd (conn_event c) = int q" and "objects q = None" and "rt = ConnectOk \<or> rt = EINPROGRESS"
    and "req = complete (setPbData pb_data (CallMethod_request new_id name c))" and "length (wire req) \<le> k"
    and "encodable resp" and "m_msg_id (with_id resp) = m_msg_id (with_id req)"
    and "concat segs = wire resp" and "[] \<notin> set segs"
    and "m_write_index (m_in_buffer c) + int (length (wire resp)) < n"
    and "c1 = RpcChannel_CallMethod env rt True new_id name (Some pb_data) (Some (RpcClosure True)) i c"
  shows "\<exists>c'. blocking_call env objects rt True new_id name (Some pb_data) (Some (RpcClosure True)) i
        (call_rounds rt q k segs) c = Returns c'
     \<and> m_sent c' = m_sent c @ wire req \<and> done_runs (m_world c') = 1
     \<and> response_outcome env (received resp) (m_world c1) (m_world c')
     \<and> te_is_canceled (m_heap (m_timer (m_world c')) i)"
  using assms by (rule call_outcome [where objects = objects and q = q])

text \<open>The call of the witness: the sample client with buffers of the real size, on descriptor 7.\<close>

lemma fresh_sample_caller: "fresh_call sample_caller" "m_fd (conn_event sample_caller) = int 7" "sample_objects 7 = None"
proof -
  show "fresh_call sample_caller"
    using fresh_sample_call sample_caller_facts(1) by (simp add: fresh_call_def no_connect_def) (simp add: sample_caller_def)
  show "m_fd (conn_event sample_caller) = int 7"
    by (simp add: sample_caller_def sample_client_def TcpConnection_new_def Let_def setNonBlocking_def FdEvent_new_def)
  show "sample_objects 7 = None" by (simp add: sample_objects_def)
qed

theorem call_returns_response_witness:
  "let resp = reply_to (received (complete (setPbData [8, 1] (CallMethod_request [] (ascii ''Echo.inc'') sample_caller))))
       OK (ascii ''success'') [8, 1]
   in \<exists>c'. blocking_call sample_env sample_objects EINPROGRESS True [] (ascii ''Echo.inc'') (Some [8, 1]) (Some (RpcClosure True)) 0
        (call_rounds EINPROGRESS 7 100 [take 5 (wire resp), drop 5 (wire resp)]) sample_caller = Returns c'
      \<and> done_runs (m_world c') = 1"
proof -
  define req where "req = complete (setPbData [8, 1] (CallMethod_request [] (ascii ''Echo.inc'') sample_caller))"
  define resp where "resp = reply_to (received req) OK (ascii ''success'') [8, 1]"
  have req: "m_msg_id req = [55]" "m_method_name req = ascii ''Echo.inc''" "m_pb_data req = [8, 1]" "m_err_info req = []"
    by (simp_all add: req_def setter_defs CallMethod_request_def Let_def sample_caller_facts GetMsgId_def TinyPBProtocol_new_def)
  have resp: "m_msg_id resp = [55]" "m_method_name resp = ascii ''Echo.inc''" "m_pb_data resp = [8, 1]" "m_err_info resp = ascii ''success''"
    using req by (simp_all add: resp_def received_fields with_id_same)
  have len: "length (wire req) = 37" "length (wire resp) = 44" "encodable resp"
    by (simp_all add: length_wire encodable_def with_id_same pk_size_def req resp)
  have segs: "[] \<notin> set [take 5 (wire resp), drop 5 (wire resp)]" using len(2) by (auto dest: arg_cong [where f = length])
  have "m_write_index (m_in_buffer sample_caller) + int (length (wire resp)) < 1024" "length (wire req) \<le> 100"
    by (simp_all add: sample_caller_facts len)
  from call_returns_response [where objects = sample_objects and q = 7 and rt = EINPROGRESS and env = sample_env and i = 0,
      OF fresh_sample_caller(1) sample_caller_facts(2-4) fresh_sample_caller(2,3) _ req_def this(2) len(3) _ _ segs
      this(1) refl]
  show ?thesis unfolding Let_def req_def [symmetric] resp_def [symmetric]
    by (simp add: with_id_same req resp) blast
qed

section \<open>Client and server\<close>

text \<open>
  C4: A whole remote call, when it fits.  The request that a blocking call writes reaches the server in
  whatever segments; the server calls the registered handler once with the request and its application
  state, and writes its result; the loop of the client reads that in whatever segments and the call
  returns: the response object holds the parsed result, the user's callback has run once, and the
  controller is as it was when the call started.  The conditions: the request and the response are
  shorter than the free space of the input buffers that read them (larger ones are never decoded:
  \<open>oversized_frame_blocks_connection\<close>), the handler's result serializes to at least one byte (the dispatcher
  takes an empty one for a failure), each side's socket takes its whole message in one write, and
  the timer is not reported meanwhile.
\<close>

theorem remote_call_end_to_end:
  assumes client: "fresh_call c" "wf_conn n c" "content (m_in_buffer c) = []" "content (m_out_buffer c) = []"
      "m_fd (conn_event c) = int q" "objects q = None" "rt = ConnectOk \<or> rt = EINPROGRESS"
    and server: "wf_conn n' s" "m_state s = Connected" "m_conn_type s = TcpConnectionByServer"
      "content (m_in_buffer s) = []" "content (m_out_buffer s) = []" "m_world s = (rtm, app)"
    and req: "req = complete (setPbData pb_data (CallMethod_request new_id name c))" "encodable req"
    and handler: "callable d (received req) service md fr mname"
      "CallMethod service md (call_controller (received req)) (call_runtime (received req) mname) fr
         (NewResponse service md) app = (func_resp, app')"
      "SerializeAsString service func_resp \<noteq> []"
    and resp: "resp = reply_to (received req) OK (ascii ''success'') (SerializeAsString service func_resp)" "encodable resp"
    and there: "concat segs = wire req" "[] \<notin> set segs"
      "m_write_index (m_in_buffer s) + int (length (wire req)) < n'" "length (wire req) \<le> k"
    and home: "concat segs' = wire resp" "[] \<notin> set segs'"
      "m_write_index (m_in_buffer c) + int (length (wire resp)) < n" "length (wire resp) \<le> k'"
    and started: "c1 = RpcChannel_CallMethod env rt True new_id name (Some pb_data) (Some (RpcClosure True)) i c"
      "ParseResponse env (m_response (m_world c1)) (SerializeAsString service func_resp) = (True, r)"
  shows "\<exists>c'. blocking_call env objects rt True new_id name (Some pb_data) (Some (RpcClosure True)) i
        (call_rounds rt q k segs') c = Returns c'
     \<and> m_sent c' = m_sent c @ wire req
     \<and> (let s1 = run_steps (read_all (dispatching d) run_cb) s (segments segs);
             s2 = conn_step (dispatching d) run_cb s1 (DoWrite [Accept k'])
        in m_sent s2 = m_sent s @ wire resp \<and> m_world s2 = (call_runtime (received req) mname, app'))
     \<and> done_runs (m_world c') = 1 \<and> m_response (m_world c') = r
     \<and> m_controller (m_world c') = m_controller (m_world c1) \<and> te_is_canceled (m_heap (m_timer (m_world c')) i)"
proof -
  have id: "m_msg_id (with_id resp) = m_msg_id (with_id req)"
    using with_id_same [of resp] received_fields(6) [of req] by (simp add: received_fields resp(1))
  have ok: "m_err_code (received resp) = 0" "m_pb_data (received resp) = SerializeAsString service func_resp"
    by (simp_all add: received_fields resp(1))
  obtain c' where c': "blocking_call env objects rt True new_id name (Some pb_data) (Some (RpcClosure True)) i
        (call_rounds rt q k segs') c = Returns c'" "m_sent c' = m_sent c @ wire req" "done_runs (m_world c') = 1"
      "response_outcome env (received resp) (m_world c1) (m_world c')" "te_is_canceled (m_heap (m_timer (m_world c')) i)"
    using call_outcome [where q = q and objects = objects and env = env, OF client req(1) there(4) resp(2) id home(1-3) started(1)] by blast
  define s1 where "s1 = run_steps (read_all (dispatching d) run_cb) s (segments segs)"
  have bound: "m_write_index (m_in_buffer s) + int (length (concat segs)) < n'" using there(1,3) by simp
  have feed: "feed parse_stream (content (m_in_buffer s)) segs = Some ([received req], [])"
    using tinypb.feed_encoded [of "[req]" segs] req(2) there(1) server(4) by simp
  have "dispatch_all (dispatching d) [received req] (m_world s) = Inr ([resp], call_runtime (received req) mname, app')"
    using dispatch_all_one [OF handler] server(6) resp(1) by simp
  from server_segments [OF server(1-3) there(2) bound feed this, of run_cb] server(5)
  have s1: "wf_conn n' s1" "m_state s1 = Connected" "m_conn_type s1 = TcpConnectionByServer"
    "content (m_out_buffer s1) = wire resp" "m_world s1 = (call_runtime (received req) mname, app')" "m_sent s1 = m_sent s"
    by (simp_all add: s1_def Let_def del: read_all.simps)
  have "wire resp \<noteq> []" using length_wire [of resp] by (auto simp: pk_size_def)
  then obtain s2 where "onWrite run_cb [Accept k'] s1 = Some s2" "m_sent s2 = m_sent s @ wire resp" "m_world s2 = m_world s1"
    using server_onWrite_all [OF s1(1-3), of k' run_cb] s1(4,6) home(4) by auto
  with c' ok started(2) s1(5) show ?thesis
    unfolding Let_def s1_def [symmetric] by (auto simp: response_outcome_def)
qed

theorem remote_call_end_to_end_witness:
  "let resp = reply_to (received (complete (setPbData [8, 1] (CallMethod_request [] (ascii ''Echo.inc'') sample_caller))))
       OK (ascii ''success'') [8, 1]
   in \<exists>c'. blocking_call sample_env sample_objects ConnectOk True [] (ascii ''Echo.inc'') (Some [8, 1]) (Some (RpcClosure True)) 0
        (call_rounds ConnectOk 7 100 [wire resp]) sample_caller = Returns c'
      \<and> done_runs (m_world c') = 1 \<and> m_response (m_world c') = 2"
proof -
  define req where "req = complete (setPbData [8, 1] (CallMethod_request [] (ascii ''Echo.inc'') sample_caller))"
  define resp where "resp = reply_to (received req) OK (ascii ''success'') [8, 1]"
  have req: "m_msg_id req = [55]" "m_method_name req = ascii ''Echo.inc''" "m_pb_data req = [8, 1]" "m_err_info req = []"
    by (simp_all add: req_def setter_defs CallMethod_request_def Let_def sample_caller_facts GetMsgId_def TinyPBProtocol_new_def)
  have resp: "m_msg_id resp = [55]" "m_method_name resp = ascii ''Echo.inc''" "m_pb_data resp = [8, 1]" "m_err_info resp = ascii ''success''"
    using req by (simp_all add: resp_def received_fields with_id_same)
  have len: "length (wire req) = 37" "length (wire resp) = 44" "encodable req" "encodable resp"
    by (simp_all add: length_wire encodable_def with_id_same pk_size_def req resp)
  have callable: "callable echo_dispatcher (received req) echo_service 0 [8, 1] (ascii ''inc'')"
    using echo_callable [of "[8, 1]"] req by (simp add: callable_def received_fields echo_request_def)
  have ne: "[] \<notin> set [wire req]" "[] \<notin> set [wire resp]" using len by (auto dest: arg_cong [where f = length])
  have handler: "CallMethod echo_service 0 (call_controller (received req)) (call_runtime (received req) (ascii ''inc''))
      [8, 1] (NewResponse echo_service 0) 5 = ([8, 1], 7)" "SerializeAsString echo_service [8, 1] \<noteq> []"
    "resp = reply_to (received req) OK (ascii ''success'') (SerializeAsString echo_service [8, 1])"
    by (simp_all add: echo_service_def resp_def)
  define s where "s = (sample_conn TcpConnectionByServer (Runtime_new, 5) :: (nat, runtime \<times> nat) tcp_connection)"
  have s: "wf_conn 1024 s" "m_state s = Connected" "m_conn_type s = TcpConnectionByServer"
    "content (m_in_buffer s) = []" "content (m_out_buffer s) = []" "m_world s = (Runtime_new, 5)"
    by (simp_all add: s_def wf_sample_conn sample_conn_facts content_TcpBuffer_new)
  have env: "ParseResponse sample_env m (SerializeAsString echo_service [8, 1]) = (True, 2)" for m
    by (simp add: sample_env_def echo_service_def)
  have there: "concat [wire req] = wire req" "m_write_index (m_in_buffer s) + int (length (wire req)) < 1024"
    "length (wire req) \<le> 100"
    by (simp_all add: s_def sample_conn_facts TcpBuffer_new_def len)
  have home: "concat [wire resp] = wire resp" "m_write_index (m_in_buffer sample_caller) + int (length (wire resp)) < 1024"
    "length (wire resp) \<le> 100"
    by (simp_all add: sample_caller_facts len)
  from remote_call_end_to_end [where objects = sample_objects and q = 7 and rt = ConnectOk and run_cb = "\<lambda>(_ :: nat) _ c. c" and i = 0,
      OF fresh_sample_caller(1) sample_caller_facts(2-4) fresh_sample_caller(2,3) disjI1 [OF refl] s req_def len(3) callable handler len(4)
      there(1) ne(1) there(2,3) home(1) ne(2) home(2,3) refl env]
  show ?thesis unfolding Let_def req_def [symmetric] resp_def [symmetric] by blast
qed

text \<open>\<open>CALL_RPC\<close> is a blocking call on such a client: whenever the address is well formed, the socket can
  be made, and the thread's loop is new with an idle timer.\<close>

lemma CALL_RPC_blocks:
  assumes "IpNetAddr_text inet_pton addr = Inr peer" and "0 \<le> sys_socket (getFamily peer)"
    and "getFdEvent events (sys_socket (getFamily peer)) = Inr (e, events')" and "m_fd e = sys_socket (getFamily peer)"
    and "\<And>k. m_read_callback e \<noteq> Some (OnConnect k) \<and> m_write_callback e \<noteq> Some (OnConnect k)"
    and "wf_timer t" and "m_pending_events t = []" and "\<not> m_is_canceled controller" and "in_block \<noteq> []"
    and "unused_loop l" and "m_pending_tasks l = []"
  shows "\<exists>c events''. fresh_call c \<and> wf_conn (int (length in_block)) c \<and> content (m_in_buffer c) = [] \<and> content (m_out_buffer c) = []
     \<and> m_fd (conn_event c) = sys_socket (getFamily peer)
     \<and> CALL_RPC env objects inet_pton rt addr methodName new_id controller request response (Some (RpcClosure True)) this sys_socket
          l events in_block out_block t i rounds
        = Inr (Some (blocking_call env objects rt True new_id methodName request (Some (RpcClosure True)) i rounds c), events'')"
proof -
  obtain c events'' where c: "RpcChannel_new this sys_socket peer l events in_block out_block controller response t = Inr (Some c, events'')"
    and ready: "let c' = on_world (Channel_Init controller response (Some (RpcClosure True))) c
      in fresh_client c' \<and> wf_conn (int (length in_block)) c' \<and> content (m_in_buffer c') = []
        \<and> content (m_out_buffer c') = [] \<and> m_write_index (m_in_buffer c') = 0 \<and> nonblocking (conn_event c')
        \<and> conn_loop c' = l \<and> m_done (m_world c') = Some (RpcClosure True) \<and> m_response (m_world c') = response
        \<and> m_state c' = NotConnected \<and> m_fd (conn_event c') = m_fd e
        \<and> m_read_callback (conn_event c') = m_read_callback e \<and> m_write_callback (conn_event c') = m_write_callback e"
    using new_channel_ready [where peer = peer and sys_socket = sys_socket and response = response and l = l and name = this
        and out_block = out_block and ctl_null = controller and response_null = response and cl = "Some (RpcClosure True)",
        OF assms(2-4,6-9)]
    by (elim exE conjE) (rule that)
  let ?c = "on_world (Channel_Init controller response (Some (RpcClosure True))) c"
  have "CALL_RPC env objects inet_pton rt addr methodName new_id controller request response (Some (RpcClosure True)) this sys_socket
      l events in_block out_block t i rounds
    = Inr (Some (blocking_call env objects rt True new_id methodName request (Some (RpcClosure True)) i rounds ?c), events'')"
    using assms(1) c by (simp add: CALL_RPC_def NEW_RPC_CHANNEL_def Let_def)
  moreover have "fresh_call ?c"
    using ready assms(5,10,11) unfolding Let_def fresh_call_def no_connect_def by simp
  ultimately show ?thesis using ready assms(4) unfolding Let_def by metis
qed

section \<open>The timeout together with a failing connection\<close>

lemma failed_connect_completes:
  assumes "stop_inv c" and "rt \<noteq> EISCONN" and "rt \<noteq> ConnectOk"
  shows "done_runs (m_world (on_connect env rt (ConnCb req) c)) = done_runs (m_world c) + 1"
    and "GetErrorCode (m_controller (m_world (on_connect env rt (ConnCb req) c)))
       = error_code (if rt = ECONNREFUSED then SYS_PEER_CLOSED else SYS_FAILED_CONNECT)"
  using assms
  by (simp_all add: on_connect_def run_conn_cb_def Let_def closure_Run_def stop_inv_def)
    (simp_all add: GetErrorCode_def SetErrorCode_def)

text \<open>
  C36: When one \<open>epoll_wait\<close> reports the timer of an overdue call before its connection, the timeout
  completes the call and closes the descriptor; the handler of \<open>connect\<close> that is queued behind it does
  not look at the cancellation, finds the closed descriptor not connected, and completes the call a
  second time, with the error of the connection in place of the timeout.
\<close>

theorem timeout_before_connect_completes_twice:
  assumes "fresh_call c" and "m_fd (conn_event c) = int q" and "objects q = None"
    and "objects p = Some timer_event" and "m_read_callback timer_event = Some OnTimer"
    and "ca_connect ans \<noteq> EISCONN" and "ca_connect ans \<noteq> ConnectOk"
    and "c1 = RpcChannel_CallMethod env EINPROGRESS True new_id name (Some pb_data) (Some (RpcClosure True)) i c"
    and "call_deadline c \<le> m_clock (m_timer (m_world c1)) (m_readings (m_timer (m_world c1)))"
  shows "\<exists>c'. blocking_call env objects EINPROGRESS True new_id name (Some pb_data) (Some (RpcClosure True)) i
        [(ans, Epoll_events [(Some p, EPOLLIN), (Some q, EPOLLOUT)]), (ans, rt)] c = Returns c'
     \<and> done_runs (m_world c') = 2
     \<and> GetErrorCode (m_controller (m_world c')) = error_code (if ca_connect ans = ECONNREFUSED then SYS_PEER_CLOSED else SYS_FAILED_CONNECT)"
proof -
  define req where "req = complete (setPbData pb_data (CallMethod_request new_id name c))"
  note start = call_starts [OF assms(1) _ assms(8), folded req_def, simplified]
  from between_inv [OF start(1)] have inv: "call_inv c1" "stop_inv c1" "call_live i (call_deadline c) (m_world c1)" by simp_all
  have zero: "done_runs (m_world c1) = 0" "\<not> m_stop_flag (conn_loop c1)"
    using call_completion [of c env EINPROGRESS new_id name "Some pb_data" i] assms(1,8)
    by (auto simp: fresh_call_def fresh_client_def completion_def)
  have queue: "m_pending_tasks (conn_loop c1) = []" "m_fd (conn_event c1) = int q"
    "m_write_callback (conn_event c1) = Some (OnConnect (ConnCb req))"
    using assms(1,2) unfolding assms(8)
    by (simp_all add: CallMethod_prepared fresh_call_def fresh_client_def connect_def conn_addEpollEvent_def listen_def
        addEpollEvent_def isInLoopThread_def req_def)
  have "client_onTimer c1 \<noteq> None"
    using inv(3) zero(1) onTimer_collect_None [of "m_timer (m_world c1)"]
    by (auto simp: client_onTimer_def call_live_def wf_timer_def timely_def)
  then obtain c2 where c2: "client_onTimer c1 = Some c2" by blast
  have once: "done_runs (m_world c2) = 1"
    using onTimer_live(2) [OF inv(3) c2 assms(9)] client_onTimer_inv [OF inv(1) c2] by (simp add: call_inv_def Let_def)
  have stop: "stop_inv c2" by (rule stopping.timing [OF inv(2) c2])
  define c3 where "c3 = on_connect env (ca_connect ans) (ConnCb req) c2"
  have flag: "m_stop_flag (conn_loop c3)"
    using stop once stopped.connecting [of c2 env "ca_connect ans" "ConnCb req"] by (simp add: stop_inv_def c3_def)
  have "round_tasks objects (Epoll_events [(Some p, EPOLLIN), (Some q, EPOLLOUT)]) c1
      = [Call (Some OnTimer), Call (Some (OnConnect (ConnCb req)))]"
    using assms(3-5) queue(2,3) by (simp add: round_tasks_def client_fd_object_def EPOLLIN_def EPOLLOUT_def)
  with idle_round [OF queue(1)] have first: "client_round env objects (ans, Epoll_events [(Some p, EPOLLIN), (Some q, EPOLLOUT)]) c1
      = Some (queue_put [Call (Some OnTimer), Call (Some (OnConnect (ConnCb req)))] c1)" by simp
  have second: "client_round env objects (ans, rt) (queue_put [Call (Some OnTimer), Call (Some (OnConnect (ConnCb req)))] c1)
      = Some (queue_put (round_tasks objects rt c3) c3)"
    using queue(1) c2 by (simp add: client_round_eq client_task_def run_client_handler_def c3_def)
  have "blocking_call env objects EINPROGRESS True new_id name (Some pb_data) (Some (RpcClosure True)) i rs c
      = client_loop env objects rs c1" for rs
    using start(2) assms(1) by (simp add: blocking_call_def assms(8) [symmetric] fresh_call_def unused_loop_def)
  then show ?thesis
    using failed_connect_completes [OF stop assms(6,7), of env req] first second zero(2) flag once
    by (auto simp: c3_def [symmetric] loop_step simp del: error_code.simps)
qed

definition refused :: client_answers where
  "refused = \<lparr>ca_read = [], ca_write = [], ca_connect = OtherErrno\<rparr>"

theorem timeout_before_connect_completes_twice_witness:
  "\<exists>c'. blocking_call sample_env sample_objects EINPROGRESS True [] [46] (Some []) (Some (RpcClosure True)) 0
        [(refused, Epoll_events [(Some 4, EPOLLIN), (Some 7, EPOLLOUT)]), (refused, Epoll_error)] sample_caller = Returns c'
     \<and> done_runs (m_world c') = 2"
proof -
  let ?c = "RpcChannel_CallMethod sample_env EINPROGRESS True [] [46] (Some []) (Some (RpcClosure True)) 0 sample_caller"
  have "call_deadline sample_caller \<le> m_clock (m_timer (m_world ?c)) (m_readings (m_timer (m_world ?c)))"
    by (simp add: RpcChannel_CallMethod_def sample_caller_def sample_client_def TcpConnection_new_def Let_def connect_def
        enter_loop_def RpcController_new_def Timer_new_def TimerEvent_new_def call_deadline_def conn_addEpollEvent_def
        resetArriveTime_def getNowMs_def addTimerEvent_def resetTimer_def timerfd_settime_def GetMsgId_def GetTimeout_def)
  from timeout_before_connect_completes_twice [where objects = sample_objects and q = 7 and p = 4 and ans = refused and rt = Epoll_error,
      OF fresh_sample_caller sample_objects_facts(2,3) _ _ refl this]
  show ?thesis by (simp add: refused_def) blast
qed

end
