(* ===== verification/DecodedMessages.thy ===== *)
theory DecodedMessages
  imports ConnectionProperties
begin

text \<open>
  What the decoder hands to the rest of the program is well typed: whatever bytes a peer sends, the length
  fields of every decoded message agree with its strings.
\<close>

section \<open>Fields\<close>

lemma read_string_Field:
  assumes "read_string tmp idx len pk_len = Field s" and "0 \<le> idx" and "pk_len \<le> int (length tmp)"
  shows "0 \<le> len" "int (length s) = len" "idx + len < pk_len"
proof -
  have f: "0 \<le> len" "s = mem_read tmp (nat idx) (nat len)" "idx + len < pk_len"
    using assms(1) by (auto simp: read_string_def checkIndexValid_def split: if_splits)
  then show "0 \<le> len" "idx + len < pk_len" by simp_all
  have "nat idx + nat len \<le> length tmp" using f assms(2,3) by linarith
  then show "int (length s) = len" using f(1,2) by (simp add: mem_read_def)
qed

lemma of_nat_sint: "of_nat n = w" if "int n = sint (w :: int32)"
proof -
  have "(of_int (int n) :: int32) = of_int (sint w)" using that by simp
  then show ?thesis by simp
qed

lemma size32_sint: "int (length s) = sint w \<Longrightarrow> size32 s = (w :: int32)"
  by (simp add: size32_def of_nat_sint)

lemma decode_frame_types:
  assumes run: "decode_frame tmp w = Field m" and len: "int (length tmp) = sint w"
  shows "lengths_ok m"
proof -
  let ?pk = "sint w"
  obtain l1 i1 l2 i2 e l3 i3 where
    f: "read_string tmp 9 (sint l1) ?pk = Field i1"
      "read_string tmp (9 + sint l1 + 4) (sint l2) ?pk = Field i2"
      "read_string tmp (9 + sint l1 + 4 + sint l2 + 4 + 4) (sint l3) ?pk = Field i3"
    and pos: "\<not> ?pk < 9 + sint l1 + 4 + sint l2 + 4 + 4 + sint l3 + 5"
    and m: "m = TinyPBProtocol_new\<lparr>m_pk_len := w, m_msg_id_len := l1, m_msg_id := i1, m_method_name_len := l2, m_method_name := i2,
        m_err_code := e, m_err_info_len := l3, m_err_info := i3, m_pb_data := mem_read tmp
          (nat (9 + sint l1 + 4 + sint l2 + 4 + 4 + sint l3)) (nat (?pk - 5 - (9 + sint l1 + 4 + sint l2 + 4 + 4 + sint l3)))\<rparr>"
    using run unfolding decode_frame_def Let_def bind_field_Field by (elim exE conjE) (auto split: if_splits)
  have l1: "int (length i1) = sint l1" "0 \<le> sint l1"
    using read_string_Field [OF f(1)] len by simp_all
  have l2: "int (length i2) = sint l2" "0 \<le> sint l2"
    using read_string_Field [OF f(2)] len l1(2) by simp_all
  have l3: "int (length i3) = sint l3" "0 \<le> sint l3"
    using read_string_Field [OF f(3)] len l1(2) l2(2) by simp_all
  let ?idx = "9 + sint l1 + 4 + sint l2 + 4 + 4 + sint l3"
  have pb: "int (length (m_pb_data m)) = ?pk - 5 - ?idx"
    using pos len l1(2) l2(2) l3(2) by (simp add: m mem_read_def)
  have "int (pk_size m) = ?pk" using pb l1(1) l2(1) l3(1) by (simp add: m pk_size_def)
  then have "(of_nat (pk_size m) :: int32) = w" by (rule of_nat_sint)
  then show ?thesis
    using size32_sint [OF l1(1)] size32_sint [OF l2(1)] size32_sint [OF l3(1)]
    by (simp add: lengths_ok_def) (simp add: m)
qed

section \<open>The loop\<close>

lemma decode_iter_types:
  assumes "roomy b" and it: "decode_iter b = Again b' (Some m)"
  shows "lengths_ok m"
proof -
  define b1 where "b1 = skip_to_start b"
  define w where "w = ntohl_at (m_buffer b1) (nat (readIndex b1 + 1))"
  have wf: "wf_buffer b1" using roomy_skip_to_start [OF assms(1)] by (simp add: b1_def roomy_def)
  obtain tmp b2 n where fr: "decode_frame tmp w = Field m" and rd: "readFromBuffer b1 (replicate (nat (sint w)) 0) (sint w) = (tmp, b2, n)"
    and pos: "0 \<le> sint w" "sint w \<le> readAvailable b1"
    using it unfolding decode_iter_def b1_def [symmetric] Let_def w_def [symmetric]
    by (auto split: if_splits prod.splits field.splits)
  have "int (length tmp) = sint w"
  proof (cases "readAvailable b1 \<le> 0 \<or> sint w \<le> 0")
    case True
    then have "tmp = replicate (nat (sint w)) 0" using rd by (simp add: readFromBuffer_def)
    with pos(1) show ?thesis by simp
  next
    case False
    then have "tmp = mem_read (m_buffer b1) (nat (m_read_index b1)) (nat (sint w))"
      using rd pos(2) by (auto simp: readFromBuffer_def Let_def)
    moreover have "nat (m_read_index b1) + nat (sint w) \<le> length (m_buffer b1)"
      using wf pos by (auto simp: wf_buffer_def readAvailable_def)
    ultimately show ?thesis using pos(1) by (simp add: mem_read_def)
  qed
  with decode_frame_types [OF fr] show ?thesis by simp
qed

lemma decode_loop_types:
  assumes "decode_loop out b = Some r"
  shows "roomy b \<longrightarrow> (\<forall>m \<in> set out. lengths_ok m) \<longrightarrow> (\<forall>ms b'. r = Inr (ms, b') \<longrightarrow> (\<forall>m \<in> set ms. lengths_ok m))"
proof (rule decode_loop.raw_induct [where P = "\<lambda>out b r. roomy b \<longrightarrow> (\<forall>m \<in> set out. lengths_ok m) \<longrightarrow>
      (\<forall>ms b'. r = Inr (ms, b') \<longrightarrow> (\<forall>m \<in> set ms. lengths_ok m))", OF _ assms])
  fix f :: "tinypb_protocol list \<Rightarrow> tcp_buffer \<Rightarrow> (fault + tinypb_protocol list \<times> tcp_buffer) option"
    and out b r
  assume IH: "\<And>out b r. f out b = Some r \<Longrightarrow> roomy b \<longrightarrow> (\<forall>m \<in> set out. lengths_ok m) \<longrightarrow>
      (\<forall>ms b'. r = Inr (ms, b') \<longrightarrow> (\<forall>m \<in> set ms. lengths_ok m))"
    and body: "(case decode_iter b of Return b' \<Rightarrow> Some (Inr (out, b'))
      | Again b' message \<Rightarrow> f (out @ opt_list message) b' | Crash e \<Rightarrow> Some (Inl e)) = Some r"
  show "roomy b \<longrightarrow> (\<forall>m \<in> set out. lengths_ok m) \<longrightarrow> (\<forall>ms b'. r = Inr (ms, b') \<longrightarrow> (\<forall>m \<in> set ms. lengths_ok m))"
  proof (intro impI)
    assume roomy: "roomy b" and out: "\<forall>m \<in> set out. lengths_ok m"
    show "\<forall>ms b'. r = Inr (ms, b') \<longrightarrow> (\<forall>m \<in> set ms. lengths_ok m)"
    proof (cases "decode_iter b")
      case (Again b1 mo)
      with body have "f (out @ opt_list mo) b1 = Some r" by simp
      moreover have "\<forall>m \<in> set (out @ opt_list mo). lengths_ok m"
        using out decode_iter_types [OF roomy] Again by (cases mo) auto
      ultimately show ?thesis using IH roomy_decode_iter(2) [OF roomy Again] by blast
    qed (use body out in auto)
  qed
qed

text \<open>
  C3: Whatever bytes a connection has received, every message that decoding its input buffer yields is well
  typed: the three length fields are the lengths of the strings, and the frame length is the encoded size.
\<close>

theorem decoded_messages_well_typed:
  assumes "roomy b" and "tinypb_decode b = Some (Inr (ms, b'))"
  shows "list_all lengths_ok ms \<and> roomy b' \<and> m_size b' = m_size b"
  using decode_loop_types [of "[]" b] roomy_decode_loop [of "[]" b] assms
  by (auto simp: tinypb_decode_def list_all_iff)

theorem decoded_messages_well_typed_witness:
  "\<exists>ms b'. tinypb_decode (fst (writeToBuffer (TcpBuffer_new block) (wire (echo_request [8, 1])))) = Some (Inr (ms, b'))
     \<and> ms \<noteq> [] \<and> list_all lengths_ok ms"
proof -
  let ?w = "wire (echo_request [8, 1])" and ?b = "fst (writeToBuffer (TcpBuffer_new block) (wire (echo_request [8, 1])))"
  have "wf_buffer ?b" by (simp add: wf_writeToBuffer wf_TcpBuffer_new)
  moreover have "m_write_index ?b < m_size ?b"
    by (simp add: writeToBuffer_def Let_def writeAvailable_def echo_request_wire) (simp add: TcpBuffer_new_def)
  ultimately have roomy: "roomy ?b" by (simp add: roomy_def)
  moreover have "content ?b = ?w" by (simp add: content_writeToBuffer wf_TcpBuffer_new content_TcpBuffer_new)
  ultimately obtain b' where "tinypb_decode ?b = Some (Inr ([received (echo_request [8, 1])], b'))"
    using decode_content [OF roomy, of "[received (echo_request [8, 1])]" "[]"] parse_one echo_request_wire by auto
  with decoded_messages_well_typed [OF roomy this] show ?thesis by blast
qed

end
