(* ===== verification/ServerLoop.thy ===== *)
theory ServerLoop
  imports TcpServer ConnectionProperties
begin

text \<open>
  The running server: the main loop and the loops of the I/O threads, each an \<open>EventLoop\<close> whose tasks
  are the handlers of the acceptor and of the connections.  In one step a thread swaps its queue out, runs
  one whole task of its batch, or handles the result of one \<open>epoll_wait\<close>; the threads' steps interleave in
  any order.  A handler is thus atomic, which is coarser than the locks of the code: what another thread
  does in the middle of a handler is left out.  Such windows exist inside \<open>onAccept\<close>, where the constructor of
  the connection queues its registration before the state and the removal callback are set and the
  connection is inserted (\<open>registered_before_ready\<close> in \<open>ConnectionProperties\<close> shows what can go wrong there),
  and inside \<open>FdEvent::close\<close>, which closes the descriptor before it clears the shared event object, so that
  the main thread may already have accepted the same number.
\<close>

section \<open>The state of all threads\<close>

datatype thread_id = Main | Io nat

text \<open>\<open>loop_objects\<close> are the wakeup and timer events of the loops, by descriptor, which are objects
  outside the table.  \<open>batches\<close> is the local \<open>tasks\<close> of \<open>loop\<close>; \<open>draining\<close> tells that the thread is between
  the swap and the end of \<open>epoll_wait\<close>.\<close>

record ('k, 'w) server_machine =
  srv :: "('k, 'w) tcp_server"
  loop_objects :: "nat \<Rightarrow> 'k handler fd_event option"
  batches :: "thread_id \<Rightarrow> 'k handler loop_task list"
  draining :: "thread_id \<Rightarrow> bool"

definition get_loop :: "thread_id \<Rightarrow> ('k, 'w) tcp_server \<Rightarrow> 'k handler event_loop" where
  "get_loop r s = (case r of Main \<Rightarrow> main_loop s | Io t \<Rightarrow> io_loops s ! t)"

definition put_loop :: "thread_id \<Rightarrow> 'k handler event_loop \<Rightarrow> ('k, 'w) tcp_server \<Rightarrow> ('k, 'w) tcp_server" where
  "put_loop r l s = (case r of Main \<Rightarrow> s\<lparr>main_loop := l\<rparr> | Io t \<Rightarrow> s\<lparr>io_loops := (io_loops s)[t := l]\<rparr>)"

definition fd_object :: "(nat \<Rightarrow> 'k handler fd_event option) \<Rightarrow> ('k, 'w) tcp_server \<Rightarrow> nat \<Rightarrow> 'k handler fd_event" where
  "fd_object objects s p = (case objects p of Some e \<Rightarrow> e | None \<Rightarrow> server_events s ! p)"

section \<open>Handlers\<close>

text \<open>What the system calls of the handlers return.  A handler that throws ends the process; here it
  leaves the state as it was.\<close>

record answers =
  ans_read :: "sock_read list"
  ans_write :: "sock_write list"
  ans_accept :: int
  ans_again :: bool
  ans_peer :: net_addr
  ans_blocks :: "byte list \<times> byte list"

text \<open>The timer of a server's loop never has an event, and connecting is for clients.\<close>

definition run_handler :: "'w dispatching \<Rightarrow> ('k, 'w) runner \<Rightarrow> answers \<Rightarrow> thread_id \<Rightarrow> 'k handler
    \<Rightarrow> ('k, 'w) tcp_server \<Rightarrow> ('k, 'w) tcp_server" where
  "run_handler disp run_cb a r h s =
     (case h of
        OnRead i \<Rightarrow> with_connection i (\<lambda>c. case onRead disp run_cb (ans_read a) c of
                                              Some (Inr c') \<Rightarrow> c' | _ \<Rightarrow> c) s
      | OnWrite i \<Rightarrow> with_connection i (\<lambda>c. case onWrite run_cb (ans_write a) c of
                                               Some c' \<Rightarrow> c' | None \<Rightarrow> c) s
      | OnAccept \<Rightarrow>
          (case onAccept (ans_accept a) (ans_again a) (ans_peer a) (fst (ans_blocks a)) (snd (ans_blocks a)) s of
             Inl e \<Rightarrow> s | Inr s' \<Rightarrow> s')
      | OnWakeup \<Rightarrow>
          (let l = get_loop r s in
           case WakeupFdEvent_onRead [Done 8] (m_wakeups l) of
             None \<Rightarrow> s | Some n \<Rightarrow> put_loop r (l\<lparr>m_wakeups := n\<rparr>) s)
      | OnTimer \<Rightarrow> s
      | OnConnect _ \<Rightarrow> s)"

section \<open>One loop of the server as a reactor\<close>

text \<open>The state that the functions of \<open>EventLoop\<close> work on: the loop of thread \<open>r\<close> and the event objects,
  with the whole server beside them.\<close>

record ('k, 'w) server_view = "'k handler reactor" +
  view_server :: "('k, 'w) tcp_server"

definition view :: "(nat \<Rightarrow> 'k handler fd_event option) \<Rightarrow> thread_id \<Rightarrow> ('k, 'w) tcp_server \<Rightarrow> ('k, 'w) server_view" where
  "view objects r s = \<lparr>m_loop = get_loop r s, m_fd_events = fd_object objects s, view_server = s\<rparr>"

definition unview :: "thread_id \<Rightarrow> ('k, 'w) server_view \<Rightarrow> ('k, 'w) tcp_server" where
  "unview r v = put_loop r (m_loop v) (view_server v)"

definition server_exec :: "'w dispatching \<Rightarrow> ('k, 'w) runner \<Rightarrow> (nat \<Rightarrow> 'k handler fd_event option)
    \<Rightarrow> thread_id \<Rightarrow> ('k handler \<Rightarrow> answers) \<Rightarrow> 'k handler \<Rightarrow> ('k, 'w) server_view \<Rightarrow> ('k, 'w) server_view" where
  "server_exec disp run_cb objects r a h v = view objects r (run_handler disp run_cb (a h) r h (unview r v))"

section \<open>Steps\<close>

text \<open>The answers are given by handler: in one batch a handler of a connection occurs once.\<close>

datatype 'k machine_op =
    Swap thread_id
  | RunTask thread_id "'k handler \<Rightarrow> answers"
  | Waited thread_id "(nat option \<times> 32 word) list"

fun machine_step :: "'w dispatching \<Rightarrow> ('k, 'w) runner \<Rightarrow> ('k, 'w) server_machine \<Rightarrow> 'k machine_op
    \<Rightarrow> ('k, 'w) server_machine" where
  "machine_step disp run_cb m (Swap r) =
     m\<lparr>batches := (batches m)(r := m_pending_tasks (get_loop r (srv m))),
       srv := put_loop r ((get_loop r (srv m))\<lparr>m_pending_tasks := []\<rparr>) (srv m),
       draining := (draining m)(r := True)\<rparr>"
| "machine_step disp run_cb m (RunTask r a) =
     (case batches m r of
        [] \<Rightarrow> m
      | t # ts \<Rightarrow>
          m\<lparr>batches := (batches m)(r := ts),
            srv := unview r (run_task (server_exec disp run_cb (loop_objects m) r a) t
                     (view (loop_objects m) r (srv m)))\<rparr>)"
| "machine_step disp run_cb m (Waited r evs) =
     m\<lparr>srv := unview r (foldl handle_event (view (loop_objects m) r (srv m)) evs),
       draining := (draining m)(r := False)\<rparr>"

text \<open>What the environment does: \<open>accept\<close> returns a descriptor that is not open, the buffers of a new connection
  reserve the 1024 bytes they are asked for, and \<open>epoll_wait\<close> reports each
  registered descriptor once, for conditions that were asked for (or for errors and hangups).\<close>

definition reserved :: "byte list \<times> byte list \<Rightarrow> bool" where
  "reserved blocks \<longleftrightarrow> length (fst blocks) = 1024 \<and> length (snd blocks) = 1024"

definition threads :: "('k, 'w) tcp_server \<Rightarrow> thread_id set" where
  "threads s = insert Main (Io ` {..<length (io_loops s)})"

definition open_fds :: "('k, 'w) server_machine \<Rightarrow> int set" where
  "open_fds m = {m_listenfd (m_acceptor (srv m))} \<union> {int p | p. loop_objects m p \<noteq> None}
     \<union> (\<lambda>(t, c). m_fd (conn_event c)) ` ran (m_connections (srv m))"

definition reported :: "'cb event_loop \<Rightarrow> nat option \<times> 32 word \<Rightarrow> bool" where
  "reported l ev \<longleftrightarrow>
     (case ev of
        (None, _) \<Rightarrow> True
      | (Some p, trigger) \<Rightarrow>
          (case kernel_table (m_epoll_calls l) (int p) of
             None \<Rightarrow> False
           | Some wanted \<Rightarrow> (trigger AND EPOLLIN \<noteq> 0 \<longrightarrow> wanted AND EPOLLIN \<noteq> 0)
               \<and> (trigger AND EPOLLOUT \<noteq> 0 \<longrightarrow> wanted AND EPOLLOUT \<noteq> 0)))"

fun machine_allowed :: "('k, 'w) server_machine \<Rightarrow> 'k machine_op \<Rightarrow> bool" where
  "machine_allowed m (Swap r) \<longleftrightarrow>
     r \<in> threads (srv m) \<and> \<not> draining m r \<and> \<not> m_stop_flag (get_loop r (srv m))"
| "machine_allowed m (RunTask r a) \<longleftrightarrow>
     r \<in> threads (srv m) \<and> batches m r \<noteq> [] \<and> ans_accept (a OnAccept) \<notin> open_fds m
     \<and> reserved (ans_blocks (a OnAccept))"
| "machine_allowed m (Waited r evs) \<longleftrightarrow>
     r \<in> threads (srv m) \<and> draining m r \<and> batches m r = []
     \<and> distinct (List.map_filter fst evs) \<and> list_all (reported (get_loop r (srv m))) evs"

text \<open>The server after its construction, before the threads enter their loops.\<close>

definition machine_new :: "('k, 'w) tcp_server \<Rightarrow> (nat \<Rightarrow> 'k handler fd_event option) \<Rightarrow> ('k, 'w) server_machine" where
  "machine_new s objects = \<lparr>srv = s, loop_objects = objects, batches = (\<lambda>_. []), draining = (\<lambda>_. False)\<rparr>"

section \<open>A round of one thread\<close>

lemma get_put_loop [simp]:
  "r \<in> threads s \<Longrightarrow> get_loop r (put_loop r l s) = l"
  "put_loop r l (put_loop r l' s) = put_loop r l s" "put_loop r (get_loop r s) s = s"
  by (auto simp: get_loop_def put_loop_def threads_def split: thread_id.splits)

lemma get_put_other [simp]: "r \<noteq> r' \<Longrightarrow> get_loop r (put_loop r' l s) = get_loop r s"
  by (cases r; cases r') (simp_all add: get_loop_def put_loop_def)

lemma put_loop_facts [simp]:
  "server_events (put_loop r l s) = server_events s" "m_connections (put_loop r l s) = m_connections s"
  "m_acceptor (put_loop r l s) = m_acceptor s" "main_tid (put_loop r l s) = main_tid s"
  "m_io_thread_group (put_loop r l s) = m_io_thread_group s" "m_client_counts (put_loop r l s) = m_client_counts s"
  "next_connection (put_loop r l s) = next_connection s" "server_world (put_loop r l s) = server_world s"
  "length (io_loops (put_loop r l s)) = length (io_loops s)" "threads (put_loop r l s) = threads s"
  by (auto simp: put_loop_def threads_def split: thread_id.splits)

lemma fd_object_put [simp]: "fd_object objects (put_loop r l s) = fd_object objects s"
  by (simp add: fd_object_def fun_eq_iff split: option.split)

lemma view_facts [simp]:
  "m_loop (view objects r s) = get_loop r s" "m_fd_events (view objects r s) = fd_object objects s"
  "unview r (view objects r s) = s" "view_server (view objects r s) = s"
  by (simp_all add: view_def unview_def)

lemma with_connection_threads [simp]: "length (io_loops (with_connection i f s)) = length (io_loops s)"
  by (auto simp: with_connection_def removeConnection_def Let_def split: option.split)

lemma onAccept_threads: "onAccept fd ag peer b1 b2 s = Inr s' \<Longrightarrow> length (io_loops s') = length (io_loops s)"
  by (auto simp: onAccept_def Let_def split: prod.splits if_splits sum.splits)

lemma run_handler_threads [simp]: "threads (run_handler disp run_cb a r h s) = threads s"
  by (cases h) (auto simp: run_handler_def threads_def Let_def put_loop_def dest: onAccept_threads
      split: sum.split option.split thread_id.split)

text \<open>Only the loop and the objects of a view, and the server it stands for, matter.\<close>

definition valid_view :: "(nat \<Rightarrow> 'k handler fd_event option) \<Rightarrow> thread_id \<Rightarrow> ('k, 'w) server_view \<Rightarrow> bool" where
  "valid_view objects r v \<longleftrightarrow> r \<in> threads (view_server v) \<and> m_fd_events v = fd_object objects (view_server v)"

lemma valid_view_view: "r \<in> threads s \<Longrightarrow> valid_view objects r (view objects r s)"
  by (simp add: valid_view_def view_def)

lemma valid_view_loop [simp]: "valid_view objects r (v\<lparr>m_loop := l\<rparr>) = valid_view objects r v"
  by (simp add: valid_view_def)

lemma unview_loop [simp]: "unview r (v\<lparr>m_loop := l\<rparr>) = put_loop r l (view_server v)"
  by (simp add: unview_def)

lemma run_task_view:
  assumes "valid_view objects r v"
  shows "valid_view objects r (run_task (server_exec disp run_cb objects r a) t v)
     \<and> unview r (run_task (server_exec disp run_cb objects r a) t v)
         = unview r (run_task (server_exec disp run_cb objects r a) t (view objects r (unview r v)))"
proof -
  have r: "r \<in> threads (view_server v)" and e: "m_fd_events v = fd_object objects (view_server v)"
    using assms by (simp_all add: valid_view_def)
  have exec: "valid_view objects r (server_exec disp run_cb objects r a h v)" for h
    using r by (simp add: server_exec_def valid_view_view unview_def)
  show ?thesis
    by (cases t) (use assms exec r e in \<open>auto simp: run_task_def server_exec_def unview_def split: option.split\<close>)
qed

lemma run_tasks_view:
  "valid_view objects r v \<Longrightarrow>
     (let v' = foldl (\<lambda>v t. run_task (server_exec disp run_cb objects r a) t v) v ts
      in valid_view objects r v' \<and> unview r v' =
          foldl (\<lambda>s t. unview r (run_task (server_exec disp run_cb objects r a) t (view objects r s))) (unview r v) ts)"
proof (induction ts arbitrary: v)
  case (Cons t ts)
  with run_task_view [OF Cons.prems, of disp run_cb a t] show ?case by (simp add: Let_def)
qed simp

lemma handle_events_eq:
  "foldl handle_event v evs = v\<lparr>m_loop := (m_loop v)\<lparr>m_pending_tasks :=
     m_pending_tasks (m_loop v) @ trigger_tasks (m_fd_events v) evs\<rparr>\<rparr>"
proof (induction "m_fd_events v" evs arbitrary: v rule: trigger_tasks.induct)
  case 1
  then show ?case by simp
next
  case (2 uu evs)
  then show ?case by (simp add: handle_event_def)
next
  case (3 p ev evs)
  have fd: "m_fd_events (handle_event v (Some p, ev)) = m_fd_events v" by (simp add: handle_event_def)
  show ?case using 3 [of "handle_event v (Some p, ev)"] fd
    by (simp add: handle_event_def getHandler_def addTask_def Let_def)
qed

lemma handle_events_view:
  assumes "valid_view objects r v"
  shows "unview r (foldl handle_event v evs) = unview r (foldl handle_event (view objects r (unview r v)) evs)"
proof -
  have "r \<in> threads (view_server v)" "m_fd_events v = fd_object objects (view_server v)"
    using assms by (simp_all add: valid_view_def)
  then show ?thesis by (simp add: handle_events_eq) (simp add: unview_def)
qed

text \<open>The steps of a batch, one after the other.\<close>

lemma run_batch:
  assumes "batches m r = ts" and "r \<in> threads (srv m)"
  shows "run_steps (machine_step disp run_cb) m (replicate (length ts) (RunTask r a))
     = m\<lparr>batches := (batches m)(r := []),
         srv := foldl (\<lambda>s t. unview r (run_task (server_exec disp run_cb (loop_objects m) r a) t
                  (view (loop_objects m) r s))) (srv m) ts\<rparr>"
  using assms
proof (induction ts arbitrary: m)
  case Nil
  then have "(batches m)(r := []) = batches m" by auto
  then show ?case by simp
next
  case (Cons t ts)
  let ?s = "unview r (run_task (server_exec disp run_cb (loop_objects m) r a) t (view (loop_objects m) r (srv m)))"
  have "r \<in> threads ?s"
    using run_task_view [OF valid_view_view [OF Cons.prems(2)], where disp = disp and run_cb = run_cb and a = a
          and t = t and objects = "loop_objects m"]
    by (simp add: valid_view_def unview_def)
  with Cons.prems Cons.IH [of "m\<lparr>batches := (batches m)(r := ts), srv := ?s\<rparr>"] show ?case
    by (simp cong: if_cong)
qed

end
