(* ===== verification/ServerLoopProperties.thy ===== *)
theory ServerLoopProperties
  imports ServerLoop
begin

text \<open>
  What holds of the running server under every interleaving of its threads: handlers run only on live
  connections and only in the thread the connection was given to, every connection is watched by its
  loop or about to be, and no call of \<open>epoll_ctl\<close> is refused.  And what does not hold: a task queued from
  another thread can miss the wakeup.
\<close>

section \<open>What a handler does to its connection\<close>

definition conn_same :: "('k, 'w) tcp_connection \<Rightarrow> ('k, 'w) tcp_connection \<Rightarrow> bool" where
  "conn_same c c' \<longleftrightarrow> m_this c' = m_this c \<and> m_conn_type c' = m_conn_type c
     \<and> m_remove_conn_cb c' = m_remove_conn_cb c"

definition conn_kept :: "('k, 'w) tcp_connection \<Rightarrow> ('k, 'w) tcp_connection \<Rightarrow> bool" where
  "conn_kept c c' \<longleftrightarrow> conn_same c c' \<and> m_removals c' = m_removals c
     \<and> (conn_event c' = conn_event c \<and> conn_loop c' = conn_loop c
        \<or> (conn_event c' = listen OUT_EVENT (OnWrite (m_this c)) (conn_event c)
            \<or> conn_event c' = clearEvent OUT_EVENT (conn_event c))
          \<and> conn_loop c' = ADD_TO_EPOLL (conn_event c') (conn_loop c))"

definition closed_loop :: "'cb fd_event \<Rightarrow> 'cb event_loop \<Rightarrow> 'cb event_loop" where
  "closed_loop e l =
     (let l = DELETE_FROM_EPOLL e l
      in if 0 < m_fd e then l\<lparr>m_epoll_calls := m_epoll_calls l @ [CloseFd (m_fd e)]\<rparr> else l)"

definition conn_closed :: "('k, 'w) tcp_connection \<Rightarrow> ('k, 'w) tcp_connection \<Rightarrow> bool" where
  "conn_closed c c' \<longleftrightarrow> conn_same c c' \<and> m_removals c' = m_removals c + 1
     \<and> conn_event c' = fst (close_event (conn_event c)) \<and> conn_loop c' = closed_loop (conn_event c) (conn_loop c)"

lemma addEpollEvent_own [simp]: "addEpollEvent (m_tid l) p e l = ADD_TO_EPOLL e l"
  by (simp add: addEpollEvent_def isInLoopThread_def)

lemma deleteEpollEvent_own [simp]: "deleteEpollEvent (m_tid l) p e l = DELETE_FROM_EPOLL e l"
  by (simp add: deleteEpollEvent_def isInLoopThread_def)

lemma execute_effect:
  assumes "m_conn_type c = TcpConnectionByServer" and "execute disp run_cb c = Some (Inr c')"
  shows "conn_kept c c'"
  using assms
  by (auto simp: execute_def Let_def conn_kept_def conn_same_def listenWriteEvent_def conn_addEpollEvent_def
      split: option.splits sum.splits if_splits)

lemma onRead_effect:
  assumes "m_conn_type c = TcpConnectionByServer" and "m_remove_conn_cb c"
    and run: "onRead disp run_cb script c = Some (Inr c')"
  shows "conn_kept c c' \<or> conn_closed c c'"
proof (cases "m_state c = Connected")
  case False
  with run show ?thesis by (simp add: onRead_def conn_kept_def conn_same_def)
next
  case True
  with run obtain b st failed where rd: "read_loop (m_in_buffer c) (m_state c) script = Some (b, st, failed)"
    by (cases "read_loop (m_in_buffer c) (m_state c) script") (auto simp: onRead_def)
  let ?c = "c\<lparr>m_in_buffer := b, m_state := st\<rparr>"
  consider "failed" | "\<not> failed" "st = Closed" | "\<not> failed" "st \<noteq> Closed" by blast
  then show ?thesis
  proof cases
    case 1
    with run rd True have "c' = ?c" by (simp add: onRead_def Let_def)
    then show ?thesis by (simp add: conn_kept_def conn_same_def)
  next
    case 2
    with run rd True have "c' = call_remove_conn_cb (conn_close_event (conn_deleteEpollEvent (m_tid (conn_loop c)) ?c))"
      by (simp add: onRead_def Let_def)
    with assms(2) show ?thesis
      by (auto simp: conn_closed_def conn_same_def call_remove_conn_cb_def conn_close_event_def conn_deleteEpollEvent_def
          close_event_def closed_loop_def Let_def)
  next
    case 3
    with run rd True have ex: "execute disp run_cb ?c = Some (Inr c')" by (simp add: onRead_def Let_def)
    from execute_effect [OF _ ex] assms(1) show ?thesis by (simp add: conn_kept_def conn_same_def)
  qed
qed

lemma onWrite_effect:
  assumes "m_conn_type c = TcpConnectionByServer" and run: "onWrite run_cb script c = Some c'"
  shows "conn_kept c c'"
proof (cases "m_state c = Connected \<and> readAvailable (m_out_buffer c) \<noteq> 0")
  case False
  with assms show ?thesis by (auto simp: onWrite_def conn_kept_def conn_same_def Let_def split: if_splits)
next
  case True
  obtain b sent how where wl: "write_loop script (m_out_buffer c) [] = (b, sent, how)" by (metis prod_cases3)
  from True assms wl show ?thesis
    by (auto simp: onWrite_def conn_kept_def conn_same_def Let_def conn_addEpollEvent_def split: if_splits)
qed

text \<open>The fields of a connection that its server refreshes before it calls a handler.\<close>

definition refreshed :: "nat \<Rightarrow> ('k, 'w) tcp_server \<Rightarrow> ('k, 'w) tcp_connection \<Rightarrow> ('k, 'w) tcp_connection" where
  "refreshed t s c = c\<lparr>conn_loop := io_loops s ! t, conn_event := server_events s ! nat (m_fd (conn_event c)),
     m_world := server_world s\<rparr>"

definition written_back :: "nat \<Rightarrow> nat \<Rightarrow> nat \<Rightarrow> ('k, 'w) tcp_connection \<Rightarrow> ('k, 'w) tcp_server \<Rightarrow> ('k, 'w) tcp_server" where
  "written_back i t fd c s = s\<lparr>m_connections := (m_connections s)(i \<mapsto> (t, c)),
     io_loops := (io_loops s)[t := conn_loop c], server_events := (server_events s)[fd := conn_event c],
     server_world := m_world c\<rparr>"

lemma with_connection_shape:
  assumes "m_connections s i = Some (t, c)" and "conn_event c = server_events s ! nat (m_fd (conn_event c))"
  shows "conn_kept (refreshed t s c) (f (refreshed t s c)) \<Longrightarrow>
      with_connection i f s = written_back i t (nat (m_fd (conn_event c))) (f (refreshed t s c)) s"
    and "conn_closed (refreshed t s c) (f (refreshed t s c)) \<Longrightarrow>
      with_connection i f s = removeConnection i (written_back i t (nat (m_fd (conn_event c))) (f (refreshed t s c)) s)"
  using assms by (simp_all add: with_connection_def Let_def refreshed_def written_back_def conn_kept_def conn_closed_def)

section \<open>The tasks of a loop\<close>

definition task_add :: "'k handler loop_task \<Rightarrow> nat option" where
  "task_add t = (case t of AddFd p \<Rightarrow> Some p | _ \<Rightarrow> None)"

definition handler_conn :: "'k handler \<Rightarrow> nat option" where
  "handler_conn h = (case h of OnRead i \<Rightarrow> Some i | OnWrite i \<Rightarrow> Some i | _ \<Rightarrow> None)"

definition task_call :: "'k handler loop_task \<Rightarrow> nat option" where
  "task_call t = (case t of Call (Some h) \<Rightarrow> handler_conn h | _ \<Rightarrow> None)"

definition add_fds :: "'k handler loop_task list \<Rightarrow> nat list" where
  "add_fds ts = List.map_filter task_add ts"

definition call_ids :: "'k handler loop_task list \<Rightarrow> nat list" where
  "call_ids ts = List.map_filter task_call ts"

lemma map_filter_Cons: "List.map_filter f (x # xs) = (case f x of None \<Rightarrow> [] | Some y \<Rightarrow> [y]) @ List.map_filter f xs"
  by (simp add: List.map_filter_simps split: option.split)

lemma map_filter_append: "List.map_filter f (xs @ ys) = List.map_filter f xs @ List.map_filter f ys"
  by (simp add: List.map_filter_def)

lemma task_projections [simp]:
  "add_fds [] = []" "call_ids [] = []"
  "add_fds (t # ts) = (case task_add t of None \<Rightarrow> [] | Some p \<Rightarrow> [p]) @ add_fds ts"
  "call_ids (t # ts) = (case task_call t of None \<Rightarrow> [] | Some i \<Rightarrow> [i]) @ call_ids ts"
  "add_fds (ts @ us) = add_fds ts @ add_fds us" "call_ids (ts @ us) = call_ids ts @ call_ids us"
  by (simp_all add: add_fds_def call_ids_def map_filter_Cons map_filter_append List.map_filter_simps(2) split: option.split)

lemma task_simps [simp]:
  "task_add (AddFd p) = Some p" "task_add (DelFd p) = None" "task_add (Call c) = None"
  "task_call (AddFd p) = None" "task_call (DelFd p) = None" "task_call (Call None) = None"
  "task_call (Call (Some h)) = handler_conn h"
  "handler_conn (OnRead i) = Some i" "handler_conn (OnWrite i) = Some i"
  "handler_conn OnAccept = None" "handler_conn OnWakeup = None" "handler_conn OnTimer = None"
  "handler_conn (OnConnect k) = None"
  by (simp_all add: task_add_def task_call_def handler_conn_def)

section \<open>What each loop keeps\<close>

text \<open>\<open>own\<close> are the connections of the loop's thread with their descriptors, \<open>fixed\<close> the other
  descriptors it may watch, \<open>wanted\<close> the masks of the event objects, \<open>b\<close> the batch.\<close>

definition owned_ok :: "(nat \<times> int) set \<Rightarrow> int set \<Rightarrow> bool" where
  "owned_ok own fixed \<longleftrightarrow> (\<forall>i fd. (i, fd) \<in> own \<longrightarrow> 0 \<le> fd \<and> fd \<notin> fixed)
     \<and> (\<forall>i fd j fd'. (i, fd) \<in> own \<longrightarrow> (j, fd') \<in> own \<longrightarrow> (i = j \<longleftrightarrow> fd = fd'))"

definition loop_ok :: "(nat \<times> int) set \<Rightarrow> int set \<Rightarrow> (int \<Rightarrow> 32 word) \<Rightarrow> bool \<Rightarrow> 'k handler loop_task list
    \<Rightarrow> 'k handler event_loop \<Rightarrow> bool" where
  "loop_ok own fixed wanted d b l \<longleftrightarrow>
     in_sync l
     \<and> (\<forall>fd \<in> m_listen_fds l. fd \<in> fixed \<or> (\<exists>i. (i, fd) \<in> own))
     \<and> (\<forall>i fd. (i, fd) \<in> own \<longrightarrow> (fd \<in> m_listen_fds l \<longleftrightarrow> nat fd \<notin> set (add_fds (b @ m_pending_tasks l))))
     \<and> (\<forall>i fd. (i, fd) \<in> own \<longrightarrow> fd \<in> m_listen_fds l \<longrightarrow> kernel_table (m_epoll_calls l) fd = Some (wanted fd))
     \<and> (\<forall>p \<in> set (add_fds (b @ m_pending_tasks l)). \<exists>i. (i, int p) \<in> own)
     \<and> distinct (add_fds (b @ m_pending_tasks l))
     \<and> (\<forall>i \<in> set (call_ids (b @ m_pending_tasks l)). \<exists>fd. (i, fd) \<in> own \<and> fd \<in> m_listen_fds l)
     \<and> distinct (call_ids (b @ m_pending_tasks l))
     \<and> (\<forall>p. DelFd p \<notin> set (b @ m_pending_tasks l))
     \<and> (d \<longrightarrow> call_ids (m_pending_tasks l) = []) \<and> (\<not> d \<longrightarrow> b = [])"

lemma loop_okI:
  assumes "in_sync l"
    and "\<And>fd. fd \<in> m_listen_fds l \<Longrightarrow> fd \<in> fixed \<or> (\<exists>i. (i, fd) \<in> own)"
    and "\<And>i fd. (i, fd) \<in> own \<Longrightarrow> fd \<in> m_listen_fds l \<longleftrightarrow> nat fd \<notin> set (add_fds (b @ m_pending_tasks l))"
    and "\<And>i fd. (i, fd) \<in> own \<Longrightarrow> fd \<in> m_listen_fds l \<Longrightarrow> kernel_table (m_epoll_calls l) fd = Some (wanted fd)"
    and "\<And>p. p \<in> set (add_fds (b @ m_pending_tasks l)) \<Longrightarrow> \<exists>i. (i, int p) \<in> own"
    and "distinct (add_fds (b @ m_pending_tasks l))"
    and "\<And>i. i \<in> set (call_ids (b @ m_pending_tasks l)) \<Longrightarrow> \<exists>fd. (i, fd) \<in> own \<and> fd \<in> m_listen_fds l"
    and "distinct (call_ids (b @ m_pending_tasks l))"
    and "\<And>p. DelFd p \<notin> set (b @ m_pending_tasks l)"
    and "d \<Longrightarrow> call_ids (m_pending_tasks l) = []" and "\<not> d \<Longrightarrow> b = []"
  shows "loop_ok own fixed wanted d b l"
  using assms unfolding loop_ok_def by blast

lemma loop_okD:
  assumes "loop_ok own fixed wanted d b l"
  shows "in_sync l"
    and "fd \<in> m_listen_fds l \<Longrightarrow> fd \<in> fixed \<or> (\<exists>i. (i, fd) \<in> own)"
    and "(i, fd) \<in> own \<Longrightarrow> fd \<in> m_listen_fds l \<longleftrightarrow> nat fd \<notin> set (add_fds (b @ m_pending_tasks l))"
    and "(i, fd) \<in> own \<Longrightarrow> fd \<in> m_listen_fds l \<Longrightarrow> kernel_table (m_epoll_calls l) fd = Some (wanted fd)"
    and "p \<in> set (add_fds (b @ m_pending_tasks l)) \<Longrightarrow> \<exists>i. (i, int p) \<in> own"
    and "distinct (add_fds (b @ m_pending_tasks l))"
    and "i \<in> set (call_ids (b @ m_pending_tasks l)) \<Longrightarrow> \<exists>fd. (i, fd) \<in> own \<and> fd \<in> m_listen_fds l"
    and "distinct (call_ids (b @ m_pending_tasks l))"
    and "DelFd p \<notin> set (b @ m_pending_tasks l)"
    and "d \<Longrightarrow> call_ids (m_pending_tasks l) = []" and "\<not> d \<Longrightarrow> b = []"
  using assms unfolding loop_ok_def by blast+

lemma kernel_add: "in_sync l \<Longrightarrow> 0 \<le> m_fd e \<Longrightarrow>
    kernel_table (m_epoll_calls (ADD_TO_EPOLL e l)) = (kernel_table (m_epoll_calls l))(m_fd e \<mapsto> m_events e)"
  by (auto simp: in_sync_def ADD_TO_EPOLL_def Let_def)

lemma listen_fds_add [simp]: "m_listen_fds (ADD_TO_EPOLL e l) = insert (m_fd e) (m_listen_fds l)"
  by (simp add: ADD_TO_EPOLL_def Let_def)

lemma closed_loop_facts:
  assumes "in_sync l"
  shows "in_sync (closed_loop e l)" "m_listen_fds (closed_loop e l) = m_listen_fds l - {m_fd e}"
    "kernel_table (m_epoll_calls (closed_loop e l)) = (kernel_table (m_epoll_calls l))(m_fd e := None)"
    "m_pending_tasks (closed_loop e l) = m_pending_tasks l"
proof -
  have "m_fd e \<notin> m_listen_fds l \<Longrightarrow> (kernel_table (m_epoll_calls l))(m_fd e := None) = kernel_table (m_epoll_calls l)"
    using assms by (auto simp: in_sync_def fun_eq_iff)
  then show "in_sync (closed_loop e l)" "m_listen_fds (closed_loop e l) = m_listen_fds l - {m_fd e}"
    "kernel_table (m_epoll_calls (closed_loop e l)) = (kernel_table (m_epoll_calls l))(m_fd e := None)"
    "m_pending_tasks (closed_loop e l) = m_pending_tasks l"
    using assms in_sync_delete [OF assms, of e] by (auto simp: closed_loop_def DELETE_FROM_EPOLL_def in_sync_def Let_def)
qed

lemma loop_ok_swap:
  assumes "loop_ok own fixed wanted False [] l"
  shows "loop_ok own fixed wanted True (m_pending_tasks l) (l\<lparr>m_pending_tasks := []\<rparr>)"
  using assms by (simp add: loop_ok_def in_sync_def)

lemma loop_ok_skip:
  assumes "loop_ok own fixed wanted True (t # b) l" and "task_add t = None"
    and "m_epoll_calls l' = m_epoll_calls l" "m_listen_fds l' = m_listen_fds l" "m_pending_tasks l' = m_pending_tasks l"
  shows "loop_ok own fixed wanted True b l'"
  using assms in_sync_cong [OF assms(3,4)] by (auto simp: loop_ok_def split: option.splits)

lemma owned_okD:
  assumes "owned_ok own fixed" and "(i, fd) \<in> own"
  shows "0 \<le> fd" "fd \<notin> fixed" "(j, fd') \<in> own \<Longrightarrow> i = j \<longleftrightarrow> fd = fd'"
  using assms unfolding owned_ok_def by blast+

lemma loop_ok_AddFd:
  assumes ok: "loop_ok own fixed wanted True (AddFd p # b) l" and own: "owned_ok own fixed"
    and e: "m_fd e = int p" "m_events e = wanted (int p)"
  shows "loop_ok own fixed wanted True b (ADD_TO_EPOLL e l)"
proof -
  note D = loop_okD [OF ok]
  have add: "\<exists>i. (i, int p) \<in> own" using D(5) [of p] by simp
  have fresh: "p \<notin> set (add_fds (b @ m_pending_tasks l))" using D(6) by simp
  have nonneg: "0 \<le> m_fd e" using e(1) by simp
  show ?thesis
  proof (rule loop_okI)
    show "in_sync (ADD_TO_EPOLL e l)" using D(1) nonneg by (rule in_sync_add)
    show "fd \<in> fixed \<or> (\<exists>i. (i, fd) \<in> own)" if "fd \<in> m_listen_fds (ADD_TO_EPOLL e l)" for fd
      using that add D(2) [of fd] e(1) by auto
    show "fd \<in> m_listen_fds (ADD_TO_EPOLL e l) \<longleftrightarrow> nat fd \<notin> set (add_fds (b @ m_pending_tasks (ADD_TO_EPOLL e l)))"
      if "(i, fd) \<in> own" for i fd
    proof (cases "fd = int p")
      case True
      with fresh e(1) show ?thesis by simp
    next
      case False
      moreover then have "nat fd \<noteq> p" using owned_okD(1) [OF own that] by auto
      ultimately show ?thesis using D(3) [OF that] e(1) by simp
    qed
    show "kernel_table (m_epoll_calls (ADD_TO_EPOLL e l)) fd = Some (wanted fd)"
      if "(i, fd) \<in> own" "fd \<in> m_listen_fds (ADD_TO_EPOLL e l)" for i fd
      using that D(4) [OF that(1)] kernel_add [OF D(1) nonneg] e by auto
    show "\<exists>fd. (i, fd) \<in> own \<and> fd \<in> m_listen_fds (ADD_TO_EPOLL e l)"
      if "i \<in> set (call_ids (b @ m_pending_tasks (ADD_TO_EPOLL e l)))" for i
      using that D(7) [of i] by auto
    show "distinct (add_fds (b @ m_pending_tasks (ADD_TO_EPOLL e l)))"
      "distinct (call_ids (b @ m_pending_tasks (ADD_TO_EPOLL e l)))" using D(6,8) by simp_all
    show "DelFd q \<notin> set (b @ m_pending_tasks (ADD_TO_EPOLL e l))" for q using D(9) [of q] by simp
    show "\<exists>i. (i, int q) \<in> own" if "q \<in> set (add_fds (b @ m_pending_tasks (ADD_TO_EPOLL e l)))" for q
      using that D(5) [of q] by auto
  qed (use D(10) in simp_all)
qed

lemma loop_ok_wanted:
  assumes "loop_ok own fixed wanted d b l" and "\<And>i fd. (i, fd) \<in> own \<Longrightarrow> wanted' fd = wanted fd"
  shows "loop_ok own fixed wanted' d b l"
  using assms unfolding loop_ok_def by simp

lemma loop_ok_watch_again:
  assumes ok: "loop_ok own fixed wanted True (t # b) l" and own: "owned_ok own fixed"
    and call: "task_call t = Some i" and i: "(i, m_fd e) \<in> own"
  shows "loop_ok own fixed (wanted(m_fd e := m_events e)) True b (ADD_TO_EPOLL e l)"
proof -
  note D = loop_okD [OF ok]
  have t: "task_add t = None" using call by (auto simp: task_add_def task_call_def split: loop_task.splits)
  obtain fd where "(i, fd) \<in> own" "fd \<in> m_listen_fds l" using D(7) [of i] call by auto
  with owned_okD(3) [OF own i] have watched: "m_fd e \<in> m_listen_fds l" by auto
  have nonneg: "0 \<le> m_fd e" by (rule owned_okD(1) [OF own i])
  from watched have same: "insert (m_fd e) (m_listen_fds l) = m_listen_fds l" by auto
  show ?thesis
  proof (rule loop_okI)
    show "in_sync (ADD_TO_EPOLL e l)" using D(1) nonneg by (rule in_sync_add)
    show "kernel_table (m_epoll_calls (ADD_TO_EPOLL e l)) fd = Some ((wanted(m_fd e := m_events e)) fd)"
      if "(j, fd) \<in> own" "fd \<in> m_listen_fds (ADD_TO_EPOLL e l)" for j fd
      using that D(4) [OF that(1)] kernel_add [OF D(1) nonneg] same by auto
    show "\<exists>fd. (j, fd) \<in> own \<and> fd \<in> m_listen_fds (ADD_TO_EPOLL e l)"
      if "j \<in> set (call_ids (b @ m_pending_tasks (ADD_TO_EPOLL e l)))" for j
      using that D(7) [of j] by auto
  qed (use D(2,3,5,6,8,9,10) call t in \<open>auto simp: same\<close>)
qed

lemma loop_ok_closed:
  assumes ok: "loop_ok own fixed wanted True (t # b) l" and own: "owned_ok own fixed"
    and call: "task_call t = Some i" and i: "(i, m_fd e) \<in> own"
  shows "loop_ok (own - {(i, m_fd e)}) fixed wanted True b (closed_loop e l)"
proof -
  note D = loop_okD [OF ok]
  note closed = closed_loop_facts [OF D(1), of e]
  have t: "task_add t = None" using call by (auto simp: task_add_def task_call_def split: loop_task.splits)
  obtain fd where "(i, fd) \<in> own" "fd \<in> m_listen_fds l" using D(7) [of i] call by auto
  with owned_okD(3) [OF own i] have watched: "m_fd e \<in> m_listen_fds l" by auto
  have other: "fd \<noteq> m_fd e" if "(j, fd) \<in> own" "(j, fd) \<noteq> (i, m_fd e)" for j fd
    using that owned_okD(3) [OF own i] by auto
  show ?thesis
  proof (rule loop_okI)
    show "\<exists>fd. (j, fd) \<in> own - {(i, m_fd e)} \<and> fd \<in> m_listen_fds (closed_loop e l)"
      if j: "j \<in> set (call_ids (b @ m_pending_tasks (closed_loop e l)))" for j
    proof -
      have "j \<noteq> i" using D(8) call j closed(4) by auto
      moreover obtain fd where "(j, fd) \<in> own" "fd \<in> m_listen_fds l" using D(7) [of j] j closed(4) by auto
      ultimately show ?thesis using other [of j fd] closed(2) by auto
    qed
    show "\<exists>j. (j, int p) \<in> own - {(i, m_fd e)}" if p: "p \<in> set (add_fds (b @ m_pending_tasks (closed_loop e l)))" for p
    proof -
      obtain j where j: "(j, int p) \<in> own" using D(5) [of p] p t closed(4) by auto
      have "m_fd e \<noteq> int p" using D(3) [OF i] watched p t closed(4) by auto
      with j show ?thesis by auto
    qed
    show "fd \<in> m_listen_fds (closed_loop e l) \<longleftrightarrow> nat fd \<notin> set (add_fds (b @ m_pending_tasks (closed_loop e l)))"
      if "(j, fd) \<in> own - {(i, m_fd e)}" for j fd
      using that other [of j fd] D(3) [of j fd] t closed(2,4) by auto
    show "kernel_table (m_epoll_calls (closed_loop e l)) fd = Some (wanted fd)"
      if "(j, fd) \<in> own - {(i, m_fd e)}" "fd \<in> m_listen_fds (closed_loop e l)" for j fd
      using that D(4) [of j fd] closed(2,3) by auto
    show "fd \<in> fixed \<or> (\<exists>j. (j, fd) \<in> own - {(i, m_fd e)})" if "fd \<in> m_listen_fds (closed_loop e l)" for fd
      using that D(2) [of fd] closed(2) by auto
  qed (use D(6,8,9,10) call t closed(1,4) in auto)
qed

lemma loop_ok_accept:
  assumes ok: "loop_ok own fixed wanted d b l" and own: "owned_ok own fixed"
    and new: "0 \<le> fd" "fd \<notin> fixed" "\<And>j. (j, fd) \<notin> own"
  shows "loop_ok (insert (i, fd) own) fixed wanted d b (addTask (AddFd (nat fd)) True l)"
proof -
  note D = loop_okD [OF ok]
  have unwatched: "fd \<notin> m_listen_fds l" using D(2) [of fd] new by auto
  have fresh: "nat fd \<notin> set (add_fds (b @ m_pending_tasks l))" using D(5) [of "nat fd"] new by auto
  have ne: "nat fd' \<noteq> nat fd" if "(j, fd') \<in> own" for j fd'
    using that new owned_okD(1) [OF own that] by (auto simp: eq_nat_nat_iff)
  show ?thesis
  proof (rule loop_okI)
    show "in_sync (addTask (AddFd (nat fd)) True l)" using D(1) by (rule in_sync_addTask)
    show "fd' \<in> m_listen_fds (addTask (AddFd (nat fd)) True l) \<longleftrightarrow>
        nat fd' \<notin> set (add_fds (b @ m_pending_tasks (addTask (AddFd (nat fd)) True l)))"
      if "(j, fd') \<in> insert (i, fd) own" for j fd'
      using that D(3) [of j fd'] unwatched ne [of j fd'] by auto
    show "kernel_table (m_epoll_calls (addTask (AddFd (nat fd)) True l)) fd' = Some (wanted fd')"
      if "(j, fd') \<in> insert (i, fd) own" "fd' \<in> m_listen_fds (addTask (AddFd (nat fd)) True l)" for j fd'
      using that D(4) [of j fd'] unwatched by auto
    show "\<exists>j. (j, int p) \<in> insert (i, fd) own"
      if "p \<in> set (add_fds (b @ m_pending_tasks (addTask (AddFd (nat fd)) True l)))" for p
      using that D(5) [of p] new(1) by auto
    show "\<exists>fd'. (j, fd') \<in> insert (i, fd) own \<and> fd' \<in> m_listen_fds (addTask (AddFd (nat fd)) True l)"
      if "j \<in> set (call_ids (b @ m_pending_tasks (addTask (AddFd (nat fd)) True l)))" for j
      using that D(7) [of j] by auto
    show "fd' \<in> fixed \<or> (\<exists>j. (j, fd') \<in> insert (i, fd) own)" if "fd' \<in> m_listen_fds (addTask (AddFd (nat fd)) True l)" for fd'
      using that D(2) [of fd'] by auto
  qed (use D(6,8,9,10,11) fresh in auto)
qed

lemma loop_ok_wait:
  assumes ok: "loop_ok own fixed wanted True [] l"
    and ts: "add_fds ts = []" "\<And>p. DelFd p \<notin> set ts" "distinct (call_ids ts)"
      "\<And>i. i \<in> set (call_ids ts) \<Longrightarrow> \<exists>fd. (i, fd) \<in> own \<and> fd \<in> m_listen_fds l"
  shows "loop_ok own fixed wanted False [] (l\<lparr>m_pending_tasks := m_pending_tasks l @ ts\<rparr>)"
proof -
  have "call_ids (m_pending_tasks l) = []" using loop_okD(10) [OF ok] by simp
  with ok ts show ?thesis by (simp add: loop_ok_def in_sync_def)
qed

section \<open>The tasks of triggered events\<close>

text \<open>Every reported descriptor's handler belongs to the connection that owns the descriptor.\<close>

lemma trigger_tasks_calls:
  assumes own: "owned_ok own fixed"
    and handlers: "\<And>p ev h i wanted. kernel_table (m_epoll_calls l) (int p) = Some wanted
        \<Longrightarrow> wanted AND (case ev of IN_EVENT \<Rightarrow> EPOLLIN | OUT_EVENT \<Rightarrow> EPOLLOUT) \<noteq> 0
        \<Longrightarrow> getHandler ev (heap p) = Some h \<Longrightarrow> handler_conn h = Some i \<Longrightarrow> (i, int p) \<in> own"
    and sync: "in_sync l"
    and evs: "distinct (List.map_filter fst evs)" "list_all (reported l) evs"
  shows "add_fds (trigger_tasks heap evs) = [] \<and> DelFd q \<notin> set (trigger_tasks heap evs)
     \<and> distinct (call_ids (trigger_tasks heap evs))
     \<and> (\<forall>i \<in> set (call_ids (trigger_tasks heap evs)). \<exists>p \<in> set (List.map_filter fst evs).
          (i, int p) \<in> own \<and> int p \<in> m_listen_fds l)"
  using evs
proof (induction evs)
  case Nil
  then show ?case by (simp add: List.map_filter_simps)
next
  case (Cons x evs)
  show ?case
  proof (cases "fst x")
    case None
    with Cons show ?thesis by (cases x) (simp add: map_filter_Cons)
  next
    case (Some p)
    then obtain ev where x: "x = (Some p, ev)" by (cases x) simp
    define ts where "ts = (if ev AND EPOLLIN \<noteq> 0 then [Call (getHandler IN_EVENT (heap p))]
        else if ev AND EPOLLOUT \<noteq> 0 then [Call (getHandler OUT_EVENT (heap p))] else [])"
    have split: "trigger_tasks heap (x # evs) = ts @ trigger_tasks heap evs"
      by (simp add: x ts_def getHandler_def)
    have IH: "add_fds (trigger_tasks heap evs) = []" "DelFd q \<notin> set (trigger_tasks heap evs)"
      "distinct (call_ids (trigger_tasks heap evs))" and p: "p \<notin> set (List.map_filter fst evs)"
      and calls: "\<And>i. i \<in> set (call_ids (trigger_tasks heap evs)) \<Longrightarrow>
          \<exists>p \<in> set (List.map_filter fst evs). (i, int p) \<in> own \<and> int p \<in> m_listen_fds l"
      using Cons by (simp_all add: map_filter_Cons x)
    obtain wanted where k: "kernel_table (m_epoll_calls l) (int p) = Some wanted"
      and asked: "ev AND EPOLLIN \<noteq> 0 \<Longrightarrow> wanted AND EPOLLIN \<noteq> 0" "ev AND EPOLLOUT \<noteq> 0 \<Longrightarrow> wanted AND EPOLLOUT \<noteq> 0"
      using Cons.prems(2) by (auto simp: x reported_def split: option.splits)
    have watched: "int p \<in> m_listen_fds l" using k sync by (auto simp: in_sync_def)
    have mine: "(i, int p) \<in> own" if "i \<in> set (call_ids ts)" for i
      using that handlers [OF k, of IN_EVENT _ i] handlers [OF k, of OUT_EVENT _ i] asked
      by (auto simp: ts_def task_call_def split: if_splits option.splits)
    have "i \<notin> set (call_ids (trigger_tasks heap evs))" if "i \<in> set (call_ids ts)" for i
      using mine [OF that] calls [of i] p owned_okD(3) [OF own] by (metis of_nat_eq_iff)
    moreover have "distinct (call_ids ts)" "add_fds ts = []" "DelFd q \<notin> set ts"
      by (simp_all add: ts_def split: option.split)
    ultimately show ?thesis
      using IH calls mine watched unfolding split by (auto simp: map_filter_Cons x)
  qed
qed

end
