(* ===== verification/ServerSafety.thy ===== *)
theory ServerSafety
  imports ServerLoopProperties
begin

text \<open>
  The invariant of the running server and its preservation by every step of every thread, with the
  safety properties that follow from it, and the wakeup that can be lost.
\<close>

section \<open>The invariant\<close>

definition owned :: "thread_id \<Rightarrow> ('k, 'w) tcp_server \<Rightarrow> (nat \<times> int) set" where
  "owned r s = {(i, fd). \<exists>t c. r = Io t \<and> m_connections s i = Some (t, c) \<and> fd = m_fd (conn_event c)}"

definition object_fds :: "('k, 'w) server_machine \<Rightarrow> int set" where
  "object_fds m = {int p | p. loop_objects m p \<noteq> None}"

definition fixed_fds :: "('k, 'w) server_machine \<Rightarrow> int set" where
  "fixed_fds m = insert (m_listenfd (m_acceptor (srv m))) (object_fds m)"

definition wanted_mask :: "('k, 'w) tcp_server \<Rightarrow> int \<Rightarrow> 32 word" where
  "wanted_mask s fd = m_events (server_events s ! nat fd)"

definition conn_ok :: "nat \<Rightarrow> ('k, 'w) tcp_connection \<Rightarrow> ('k, 'w) tcp_server \<Rightarrow> bool" where
  "conn_ok i c s \<longleftrightarrow> m_this c = i \<and> m_conn_type c = TcpConnectionByServer \<and> m_remove_conn_cb c
     \<and> 0 \<le> m_fd (conn_event c) \<and> nat (m_fd (conn_event c)) < length (server_events s)
     \<and> server_events s ! nat (m_fd (conn_event c)) = conn_event c
     \<and> listens IN_EVENT (conn_event c) \<and> getHandler IN_EVENT (conn_event c) = Some (OnRead i)
     \<and> (listens OUT_EVENT (conn_event c) \<longrightarrow> getHandler OUT_EVENT (conn_event c) = Some (OnWrite i))"

text \<open>The events, the table of connections and the identities of the loops.\<close>

definition tables_ok :: "nat \<Rightarrow> ('k, 'w) server_machine \<Rightarrow> bool" where
  "tables_ok n m \<longleftrightarrow>
     server_inv n (srv m) \<and> wf_group (server_events (srv m))
     \<and> (\<forall>i t c. m_connections (srv m) i = Some (t, c) \<longrightarrow> conn_ok i c (srv m) \<and> m_fd (conn_event c) \<notin> fixed_fds m)
     \<and> (\<forall>i t c j u d. m_connections (srv m) i = Some (t, c) \<longrightarrow> m_connections (srv m) j = Some (u, d)
          \<longrightarrow> m_fd (conn_event c) = m_fd (conn_event d) \<longrightarrow> i = j)
     \<and> (\<forall>p < length (server_events (srv m)). int p \<notin> open_fds m \<longrightarrow> m_events (server_events (srv m) ! p) = 0)
     \<and> (\<forall>p e ev h. loop_objects m p = Some e \<longrightarrow> getHandler ev e = Some h \<longrightarrow> handler_conn h = None)
     \<and> (\<forall>ev h. getHandler ev (server_events (srv m) ! nat (m_listenfd (m_acceptor (srv m)))) = Some h \<longrightarrow> handler_conn h = None)
     \<and> 0 \<le> m_listenfd (m_acceptor (srv m)) \<and> nat (m_listenfd (m_acceptor (srv m))) < length (server_events (srv m))
     \<and> (\<forall>t < n. m_tid (io_loops (srv m) ! t) \<noteq> main_tid (srv m))"

definition loops_ok :: "('k, 'w) server_machine \<Rightarrow> bool" where
  "loops_ok m \<longleftrightarrow> (\<forall>r \<in> threads (srv m).
     loop_ok (owned r (srv m)) (fixed_fds m) (wanted_mask (srv m)) (draining m r) (batches m r) (get_loop r (srv m)))"

definition machine_ok :: "nat \<Rightarrow> ('k, 'w) server_machine \<Rightarrow> bool" where
  "machine_ok n m \<longleftrightarrow> tables_ok n m \<and> loops_ok m"

lemma tables_okD:
  assumes "tables_ok n m"
  shows "server_inv n (srv m)" "wf_group (server_events (srv m))"
    and "m_connections (srv m) i = Some (t, c) \<Longrightarrow> conn_ok i c (srv m)"
    and "m_connections (srv m) i = Some (t, c) \<Longrightarrow> m_fd (conn_event c) \<notin> fixed_fds m"
    and "m_connections (srv m) i = Some (t, c) \<Longrightarrow> m_connections (srv m) j = Some (u, d)
          \<Longrightarrow> m_fd (conn_event c) = m_fd (conn_event d) \<Longrightarrow> i = j"
    and "p < length (server_events (srv m)) \<Longrightarrow> int p \<notin> open_fds m \<Longrightarrow> m_events (server_events (srv m) ! p) = 0"
    and "loop_objects m p = Some e \<Longrightarrow> getHandler ev e = Some h \<Longrightarrow> handler_conn h = None"
    and "getHandler ev (server_events (srv m) ! nat (m_listenfd (m_acceptor (srv m)))) = Some h \<Longrightarrow> handler_conn h = None"
    and "0 \<le> m_listenfd (m_acceptor (srv m))" "nat (m_listenfd (m_acceptor (srv m))) < length (server_events (srv m))"
    and "t' < n \<Longrightarrow> m_tid (io_loops (srv m) ! t') \<noteq> main_tid (srv m)"
  using assms unfolding tables_ok_def by blast+

lemma owned_ok_tables:
  assumes "tables_ok n m"
  shows "owned_ok (owned r (srv m)) (fixed_fds m)"
  unfolding owned_ok_def owned_def
  using tables_okD(3-5) [OF assms] by (fastforce simp: conn_ok_def)

lemma conn_thread:
  assumes "server_inv n s" and "m_connections s i = Some (t, c)"
  shows "Io t \<in> threads s" "t < n"
proof -
  have "(t, c) \<in> ran (m_connections s)" using assms(2) by (rule ranI)
  then show "t < n" using assms(1) by (auto simp: server_inv_def)
  then show "Io t \<in> threads s" using assms(1) by (simp add: server_inv_def threads_def)
qed

section \<open>Steps of one loop\<close>

lemma put_loop_owned [simp]: "owned r (put_loop r' l s) = owned r s" "wanted_mask (put_loop r l s) = wanted_mask s"
  by (simp_all add: owned_def wanted_mask_def fun_eq_iff)

lemma server_inv_put [simp]: "server_inv n (put_loop r l s) = server_inv n s"
  by (simp add: server_inv_def)

lemma tables_put:
  assumes ok: "tables_ok n m" and r: "r \<in> threads (srv m)" and tid: "m_tid l = m_tid (get_loop r (srv m))"
    and m': "srv m' = put_loop r l (srv m)" "loop_objects m' = loop_objects m"
  shows "tables_ok n m'"
proof -
  have "m_tid (io_loops (srv m') ! t) = m_tid (io_loops (srv m) ! t)" if "t < n" for t
    using tid r that by (cases r) (auto simp: m' put_loop_def get_loop_def threads_def nth_list_update)
  moreover have "fixed_fds m' = fixed_fds m" "open_fds m' = open_fds m"
    by (simp_all add: fixed_fds_def object_fds_def open_fds_def m')
  moreover have "conn_ok i c (srv m') = conn_ok i c (srv m)" for i c by (simp add: conn_ok_def m')
  ultimately show ?thesis using ok by (simp add: tables_ok_def m')
qed

lemma loops_put:
  assumes ok: "loops_ok m" and r: "r \<in> threads (srv m)"
    and l: "loop_ok (owned r (srv m)) (fixed_fds m) (wanted_mask (srv m)) d b l"
    and m': "srv m' = put_loop r l (srv m)" "loop_objects m' = loop_objects m"
      "batches m' = (batches m)(r := b)" "draining m' = (draining m)(r := d)"
  shows "loops_ok m'"
proof -
  have fixed: "fixed_fds m' = fixed_fds m" by (simp add: fixed_fds_def object_fds_def m')
  show ?thesis
    unfolding loops_ok_def fixed
  proof
    fix r' assume "r' \<in> threads (srv m')"
    then show "loop_ok (owned r' (srv m')) (fixed_fds m) (wanted_mask (srv m')) (draining m' r') (batches m' r') (get_loop r' (srv m'))"
      using ok l r by (cases "r' = r") (simp_all add: loops_ok_def m')
  qed
qed

lemma machine_put:
  assumes "machine_ok n m" and "r \<in> threads (srv m)" and "m_tid l = m_tid (get_loop r (srv m))"
    and "loop_ok (owned r (srv m)) (fixed_fds m) (wanted_mask (srv m)) d b l"
    and "srv m' = put_loop r l (srv m)" "loop_objects m' = loop_objects m"
      "batches m' = (batches m)(r := b)" "draining m' = (draining m)(r := d)"
  shows "machine_ok n m'"
  using assms tables_put [OF _ assms(2,3,5,6)] loops_put [OF _ assms(2,4-8)] by (simp add: machine_ok_def)

lemma machine_okD:
  assumes "machine_ok n m" and "r \<in> threads (srv m)"
  shows "loop_ok (owned r (srv m)) (fixed_fds m) (wanted_mask (srv m)) (draining m r) (batches m r) (get_loop r (srv m))"
    and "owned_ok (owned r (srv m)) (fixed_fds m)" and "tables_ok n m"
  using assms owned_ok_tables by (auto simp: machine_ok_def loops_ok_def)

lemma machine_ok_Swap:
  assumes ok: "machine_ok n m" and allowed: "machine_allowed m (Swap r)"
  shows "machine_ok n (machine_step disp run_cb m (Swap r))"
proof -
  have r: "r \<in> threads (srv m)" and d: "\<not> draining m r" using allowed by simp_all
  note L = machine_okD(1) [OF ok r]
  have "batches m r = []" using loop_okD(11) [OF L d] .
  with L d have "loop_ok (owned r (srv m)) (fixed_fds m) (wanted_mask (srv m)) False [] (get_loop r (srv m))" by simp
  from machine_put [OF ok r _ loop_ok_swap [OF this]] show ?thesis by simp
qed

lemma wanted_listens: "m_events e AND (case ev of IN_EVENT \<Rightarrow> EPOLLIN | OUT_EVENT \<Rightarrow> EPOLLOUT) \<noteq> 0 \<longleftrightarrow> listens ev e"
proof -
  have "EPOLLIN = 2 ^ 0" "EPOLLOUT = 2 ^ 2" by (simp_all add: EPOLLIN_def EPOLLOUT_def)
  then have "m_events e AND EPOLLIN = 0 \<longleftrightarrow> \<not> bit (m_events e) 0" "m_events e AND EPOLLOUT = 0 \<longleftrightarrow> \<not> bit (m_events e) 2"
    by (metis and_exp_eq_0_iff_not_bit)+
  then show ?thesis by (cases ev) (simp_all add: listens_def)
qed

lemma owner_handler:
  assumes ok: "machine_ok n m" and r: "r \<in> threads (srv m)"
    and k: "kernel_table (m_epoll_calls (get_loop r (srv m))) (int p) = Some wanted"
    and asked: "wanted AND (case ev of IN_EVENT \<Rightarrow> EPOLLIN | OUT_EVENT \<Rightarrow> EPOLLOUT) \<noteq> 0"
    and h: "getHandler ev (fd_object (loop_objects m) (srv m) p) = Some h" and i: "handler_conn h = Some i"
  shows "(i, int p) \<in> owned r (srv m)"
proof -
  note L = machine_okD(1) [OF ok r] and T = machine_okD(3) [OF ok r]
  have none: "loop_objects m p = None" using tables_okD(7) [OF T, of p] h i by (cases "loop_objects m p") (auto simp: fd_object_def)
  with h have h: "getHandler ev (server_events (srv m) ! p) = Some h" by (simp add: fd_object_def)
  have "int p \<in> m_listen_fds (get_loop r (srv m))" using k loop_okD(1) [OF L] by (auto simp: in_sync_def)
  moreover have "int p \<noteq> m_listenfd (m_acceptor (srv m))"
    using tables_okD(8) [OF T, of ev h] h i by (metis nat_int option.distinct(1))
  then have "int p \<notin> fixed_fds m" using none by (auto simp: fixed_fds_def object_fds_def)
  ultimately obtain j where j: "(j, int p) \<in> owned r (srv m)" using loop_okD(2) [OF L] by blast
  then obtain t c where c: "m_connections (srv m) j = Some (t, c)" "int p = m_fd (conn_event c)" by (auto simp: owned_def)
  have "wanted = m_events (conn_event c)"
    using loop_okD(4) [OF L j \<open>int p \<in> m_listen_fds (get_loop r (srv m))\<close>] k tables_okD(3) [OF T c(1)] c(2)
    by (simp add: wanted_mask_def conn_ok_def)
  then have "h = OnRead j \<or> h = OnWrite j"
    using asked h tables_okD(3) [OF T c(1)] c(2) wanted_listens [of "conn_event c" ev]
    by (cases ev) (auto simp: conn_ok_def dest: sym)
  with i j show ?thesis by auto
qed

lemma machine_ok_Waited:
  assumes ok: "machine_ok n m" and allowed: "machine_allowed m (Waited r evs)"
  shows "machine_ok n (machine_step disp run_cb m (Waited r evs))"
proof -
  have r: "r \<in> threads (srv m)" and d: "draining m r" and b: "batches m r = []"
    and evs: "distinct (List.map_filter fst evs)" "list_all (reported (get_loop r (srv m))) evs"
    using allowed by simp_all
  let ?l = "get_loop r (srv m)" and ?heap = "fd_object (loop_objects m) (srv m)"
  note L = machine_okD(1) [OF ok r] and own = machine_okD(2) [OF ok r]
  define ts where "ts = trigger_tasks ?heap evs"
  have calls: "add_fds ts = [] \<and> DelFd q \<notin> set ts \<and> distinct (call_ids ts)
      \<and> (\<forall>i \<in> set (call_ids ts). \<exists>p \<in> set (List.map_filter fst evs).
          (i, int p) \<in> owned r (srv m) \<and> int p \<in> m_listen_fds ?l)" for q
    unfolding ts_def by (rule trigger_tasks_calls [OF own owner_handler [OF ok r] loop_okD(1) [OF L] evs])
  have "loop_ok (owned r (srv m)) (fixed_fds m) (wanted_mask (srv m)) True [] ?l" using L d b by simp
  from loop_ok_wait [OF this, of ts] calls
  have "loop_ok (owned r (srv m)) (fixed_fds m) (wanted_mask (srv m)) False []
      (?l\<lparr>m_pending_tasks := m_pending_tasks ?l @ ts\<rparr>)" by blast
  from machine_put [OF ok r _ this, where m' = "machine_step disp run_cb m (Waited r evs)"] b show ?thesis
    by (simp add: handle_events_eq ts_def fun_upd_idem)
qed

section \<open>Steps that change a connection\<close>

lemma tables_update:
  assumes T: "tables_ok n m" and c: "m_connections (srv m) i = Some (u, c)"
    and inv: "server_inv n (srv m')"
    and same: "main_tid (srv m') = main_tid (srv m)" "m_acceptor (srv m') = m_acceptor (srv m)"
      "loop_objects m' = loop_objects m"
    and events: "server_events (srv m') = (server_events (srv m))[nat (m_fd (conn_event c)) := e]"
      "m_fd e = m_fd (conn_event c)"
    and loops: "io_loops (srv m') = (io_loops (srv m))[u := l]" "m_tid l = m_tid (io_loops (srv m) ! u)"
    and conns: "m_connections (srv m') = (m_connections (srv m))(i := x)"
    and x: "case x of None \<Rightarrow> m_events e = 0
      | Some (u', c') \<Rightarrow> u' = u \<and> conn_event c' = e \<and> conn_same c c' \<and> listens IN_EVENT e
          \<and> getHandler IN_EVENT e = Some (OnRead i) \<and> (listens OUT_EVENT e \<longrightarrow> getHandler OUT_EVENT e = Some (OnWrite i))"
  shows "tables_ok n m'"
proof -
  let ?fd = "m_fd (conn_event c)"
  note D = tables_okD [OF T]
  have me: "conn_ok i c (srv m)" "?fd \<notin> fixed_fds m" using D(3,4) [OF c] by simp_all
  have fixed: "fixed_fds m' = fixed_fds m" by (simp add: fixed_fds_def object_fds_def same)
  have listen: "m_listenfd (m_acceptor (srv m)) \<noteq> ?fd" using me(2) by (auto simp: fixed_fds_def)
  have nats: "nat fd' = nat ?fd \<longleftrightarrow> fd' = ?fd" if "0 \<le> fd'" for fd'
    using that me(1) by (auto simp: conn_ok_def eq_nat_nat_iff)
  have other: "conn_ok j d (srv m') \<and> m_fd (conn_event d) \<noteq> ?fd"
    if "j \<noteq> i" "m_connections (srv m) j = Some (v, d)" for j v d
  proof -
    have "m_fd (conn_event d) \<noteq> ?fd" using D(5) [OF that(2) c] that(1) by blast
    moreover then have "nat ?fd \<noteq> nat (m_fd (conn_event d))"
      using D(3) [OF that(2)] nats [of "m_fd (conn_event d)"] by (auto simp: conn_ok_def)
    ultimately show ?thesis using D(3) [OF that(2)] by (simp add: conn_ok_def events)
  qed
  have mine: "conn_ok i c' (srv m') \<and> m_fd (conn_event c') = ?fd \<and> u' = u" if "x = Some (u', c')" for u' c'
    using that x me(1) events by (auto simp: conn_ok_def conn_same_def)
  have open_fds: "insert ?fd (open_fds m') = open_fds m"
  proof -
    have "insert ?fd ((\<lambda>(t, c). m_fd (conn_event c)) ` ran (m_connections (srv m')))
        = (\<lambda>(t, c). m_fd (conn_event c)) ` ran (m_connections (srv m))"
    proof (intro set_eqI iffI)
      fix fd assume "fd \<in> insert ?fd ((\<lambda>(t, c). m_fd (conn_event c)) ` ran (m_connections (srv m')))"
      then show "fd \<in> (\<lambda>(t, c). m_fd (conn_event c)) ` ran (m_connections (srv m))"
        using c mine by (fastforce simp: conns ran_def image_iff split: if_splits)
    next
      fix fd assume "fd \<in> (\<lambda>(t, c). m_fd (conn_event c)) ` ran (m_connections (srv m))"
      then obtain j v d where d: "m_connections (srv m) j = Some (v, d)" "fd = m_fd (conn_event d)" by (auto simp: ran_def)
      show "fd \<in> insert ?fd ((\<lambda>(t, c). m_fd (conn_event c)) ` ran (m_connections (srv m')))"
      proof (cases "j = i")
        case True
        with c d show ?thesis by simp
      next
        case False
        then have "(v, d) \<in> ran (m_connections (srv m'))" using d(1) by (auto simp: conns intro: ranI [of _ j])
        with d(2) show ?thesis by force
      qed
    qed
    then show ?thesis unfolding open_fds_def same by (metis (no_types, lifting) Un_insert_right)
  qed
  show ?thesis
    unfolding tables_ok_def fixed
  proof (intro conjI allI impI)
    show "server_inv n (srv m')" by (rule inv)
    show "wf_group (server_events (srv m'))"
      using D(2) events(2) nats me(1) by (auto simp: wf_group_def events(1) nth_list_update conn_ok_def)
    show "conn_ok j d (srv m')" "m_fd (conn_event d) \<notin> fixed_fds m" if "m_connections (srv m') j = Some (v, d)" for j v d
      using that other [of j v d] mine me(2) D(4) [of j v d] by (auto simp: conns split: if_splits)
    show "j = k" if "m_connections (srv m') j = Some (v, d)" "m_connections (srv m') k = Some (w, d')"
      "m_fd (conn_event d) = m_fd (conn_event d')" for j v d k w d'
      using that mine other D(5) [of j v d k w d'] by (auto simp: conns split: if_splits)
    show "m_events (server_events (srv m') ! p) = 0" if "p < length (server_events (srv m'))" "int p \<notin> open_fds m'" for p
    proof (cases "int p = ?fd")
      case True
      have "x = None"
      proof (rule ccontr)
        assume "x \<noteq> None"
        then obtain u' c' where xs: "x = Some (u', c')" by auto
        then have "(u', c') \<in> ran (m_connections (srv m'))" by (auto simp: conns ran_def)
        then have "?fd \<in> open_fds m'" using mine [OF xs] by (force simp: open_fds_def)
        with that(2) True show False by simp
      qed
      moreover have "nat ?fd = p" using True by (metis nat_int)
      ultimately show ?thesis using x that(1) by (simp add: events)
    next
      case False
      then have "int p \<notin> open_fds m" using that(2) open_fds by auto
      moreover have "p \<noteq> nat ?fd" using False me(1) by (auto simp: conn_ok_def)
      ultimately show ?thesis using D(6) [of p] that(1) by (simp add: events)
    qed
    show "m_tid (io_loops (srv m') ! t) \<noteq> main_tid (srv m')" if "t < n" for t
      using D(11) [OF that] loops by (cases "t = u"; cases "u < length (io_loops (srv m))") (auto simp: same list_update_beyond)
  qed (use D(7-10) nats [OF D(9)] listen in \<open>auto simp: same events(1)\<close>)
qed

lemma loops_update:
  assumes ok: "machine_ok n m" and c: "m_connections (srv m) i = Some (u, c)"
    and same: "m_acceptor (srv m') = m_acceptor (srv m)" "loop_objects m' = loop_objects m"
      "main_loop (srv m') = main_loop (srv m)" "draining m' = draining m" "batches m' = (batches m)(Io u := b)"
    and events: "server_events (srv m') = (server_events (srv m))[nat (m_fd (conn_event c)) := e]"
    and loops: "io_loops (srv m') = (io_loops (srv m))[u := l]"
    and conns: "m_connections (srv m') = (m_connections (srv m))(i := x)"
    and x: "case x of None \<Rightarrow> True | Some (u', c') \<Rightarrow> u' = u"
    and l: "loop_ok (owned (Io u) (srv m')) (fixed_fds m) (wanted_mask (srv m')) (draining m (Io u)) b l"
  shows "loops_ok m'"
proof -
  let ?fd = "m_fd (conn_event c)"
  note T = tables_okD [OF machine_okD(3) [OF ok]]
  have T': "tables_ok n m" using ok by (simp add: machine_ok_def)
  note D = tables_okD [OF T']
  have fixed: "fixed_fds m' = fixed_fds m" by (simp add: fixed_fds_def object_fds_def same)
  have thr: "threads (srv m') = threads (srv m)" by (simp add: threads_def loops)
  have u: "Io u \<in> threads (srv m)" using conn_thread [OF D(1) c] by simp
  have "loop_ok (owned r (srv m')) (fixed_fds m) (wanted_mask (srv m')) (draining m' r) (batches m' r) (get_loop r (srv m'))"
    if r: "r \<in> threads (srv m)" for r
  proof (cases "r = Io u")
    case True
    with l u show ?thesis by (simp add: same loops get_loop_def threads_def image_iff)
  next
    case False
    have own: "owned r (srv m') = owned r (srv m)"
      using False c x by (auto simp: owned_def conns split: if_splits option.splits)
    have "wanted_mask (srv m') fd = wanted_mask (srv m) fd" if mine: "(j, fd) \<in> owned r (srv m)" for j fd
    proof -
      obtain t d where d: "r = Io t" "m_connections (srv m) j = Some (t, d)" "fd = m_fd (conn_event d)"
        using mine by (auto simp: owned_def)
      have "fd \<noteq> ?fd" using D(5) [OF d(2) c] d False c by auto
      with D(3) [OF d(2)] D(3) [OF c] d(3) have "nat ?fd \<noteq> nat fd" by (auto simp: conn_ok_def)
      then show ?thesis by (simp add: wanted_mask_def events)
    qed
    moreover have "get_loop r (srv m') = get_loop r (srv m)" "batches m' r = batches m r"
      using False by (cases r; simp add: get_loop_def same loops)+
    ultimately show ?thesis
      using loop_ok_wanted [OF machine_okD(1) [OF ok r], of "wanted_mask (srv m')"] by (simp add: own same)
  qed
  then show ?thesis by (simp add: loops_ok_def fixed thr)
qed

lemma machine_kept:
  assumes ok: "machine_ok n m" and b: "batches m (Io u) = t # b" and t: "task_call t = Some i"
    and c: "m_connections (srv m) i = Some (u, c)"
    and kept: "conn_kept (refreshed u (srv m) c) c'"
    and inv: "server_inv n (written_back i u (nat (m_fd (conn_event c))) c' (srv m))"
  shows "machine_ok n (m\<lparr>batches := (batches m)(Io u := b),
           srv := written_back i u (nat (m_fd (conn_event c))) c' (srv m)\<rparr>)" (is "machine_ok n ?m")
proof -
  have T: "tables_ok n m" using ok by (simp add: machine_ok_def)
  note D = tables_okD [OF T]
  have u: "Io u \<in> threads (srv m)" using conn_thread [OF D(1) c] by simp
  note L = machine_okD(1) [OF ok u] and own = machine_okD(2) [OF ok u]
  have d: "draining m (Io u)" using loop_okD(11) [OF L] b by auto
  have me: "conn_ok i c (srv m)" using D(3) [OF c] .
  let ?fd = "m_fd (conn_event c)" and ?l = "get_loop (Io u) (srv m)"
  have ev: "conn_event (refreshed u (srv m) c) = conn_event c" "conn_loop (refreshed u (srv m) c) = ?l"
    using me by (simp_all add: refreshed_def conn_ok_def get_loop_def)
  have same: "conn_same c c'" using kept by (simp add: conn_kept_def conn_same_def refreshed_def)
  have e': "m_fd (conn_event c') = ?fd" "listens IN_EVENT (conn_event c')"
    "getHandler IN_EVENT (conn_event c') = Some (OnRead i)"
    "listens OUT_EVENT (conn_event c') \<longrightarrow> getHandler OUT_EVENT (conn_event c') = Some (OnWrite i)"
    using kept me ev by (auto simp: conn_kept_def conn_ok_def refreshed_def)
  have l': "m_tid (conn_loop c') = m_tid ?l" using kept ev by (auto simp: conn_kept_def)
  have mine: "(i, ?fd) \<in> owned (Io u) (srv m)" using c by (auto simp: owned_def)
  have owned': "owned (Io u) (srv ?m) = owned (Io u) (srv m)"
    using c e'(1) by (auto simp: owned_def written_back_def split: if_splits)
  have wanted': "wanted_mask (srv ?m) fd = ((wanted_mask (srv m))(?fd := m_events (conn_event c'))) fd"
    if "(j, fd) \<in> owned (Io u) (srv m)" for j fd
    using me owned_okD(1) [OF own that]
    by (auto simp: wanted_mask_def written_back_def conn_ok_def nth_list_update eq_nat_nat_iff)
  have "loop_ok (owned (Io u) (srv m)) (fixed_fds m) ((wanted_mask (srv m))(?fd := m_events (conn_event c'))) True b (conn_loop c')"
  proof (cases "conn_loop c' = ?l \<and> conn_event c' = conn_event c")
    case True
    have "wanted_mask (srv m) ?fd = m_events (conn_event c')" using me True by (simp add: wanted_mask_def conn_ok_def)
    then have "(wanted_mask (srv m))(?fd := m_events (conn_event c')) = wanted_mask (srv m)" by auto
    moreover have "task_add t = None" using t by (auto simp: task_add_def task_call_def split: loop_task.splits)
    ultimately show ?thesis using loop_ok_skip [of _ _ _ t b ?l ?l] L b d True by simp
  next
    case False
    then have "conn_loop c' = ADD_TO_EPOLL (conn_event c') ?l" using kept ev by (auto simp: conn_kept_def)
    then show ?thesis using loop_ok_watch_again [of _ _ _ t b ?l i "conn_event c'"] L own b d t mine e'(1) by simp
  qed
  then have "loop_ok (owned (Io u) (srv ?m)) (fixed_fds m) (wanted_mask (srv ?m)) True b (conn_loop c')"
    unfolding owned' by (rule loop_ok_wanted) (rule wanted')
  then have "loops_ok ?m"
    by (intro loops_update [OF ok c, where x = "Some (u, c')" and e = "conn_event c'" and l = "conn_loop c'"])
      (simp_all add: written_back_def d)
  moreover have "tables_ok n ?m"
    by (rule tables_update [OF T c, where x = "Some (u, c')" and e = "conn_event c'" and l = "conn_loop c'"])
      (use inv same e' l' in \<open>simp_all add: written_back_def get_loop_def\<close>)
  ultimately show ?thesis by (simp add: machine_ok_def)
qed

lemma machine_closed:
  assumes ok: "machine_ok n m" and b: "batches m (Io u) = t # b" and t: "task_call t = Some i"
    and c: "m_connections (srv m) i = Some (u, c)"
    and closed: "conn_closed (refreshed u (srv m) c) c'"
    and inv: "server_inv n (removeConnection i (written_back i u (nat (m_fd (conn_event c))) c' (srv m)))"
  shows "machine_ok n (m\<lparr>batches := (batches m)(Io u := b),
           srv := removeConnection i (written_back i u (nat (m_fd (conn_event c))) c' (srv m))\<rparr>)" (is "machine_ok n ?m")
proof -
  have T: "tables_ok n m" using ok by (simp add: machine_ok_def)
  note D = tables_okD [OF T]
  have u: "Io u \<in> threads (srv m)" using conn_thread [OF D(1) c] by simp
  note L = machine_okD(1) [OF ok u] and own = machine_okD(2) [OF ok u]
  have d: "draining m (Io u)" using loop_okD(11) [OF L] b by auto
  have me: "conn_ok i c (srv m)" using D(3) [OF c] .
  let ?fd = "m_fd (conn_event c)" and ?l = "get_loop (Io u) (srv m)" and ?e = "fst (close_event (conn_event c))"
  have c': "conn_event c' = ?e" "conn_loop c' = closed_loop (conn_event c) ?l"
    using closed me by (simp_all add: conn_closed_def refreshed_def conn_ok_def get_loop_def)
  have m: "srv ?m = (srv m)\<lparr>m_connections := (m_connections (srv m))(i := None),
      io_loops := (io_loops (srv m))[u := closed_loop (conn_event c) ?l],
      server_events := (server_events (srv m))[nat ?fd := ?e], server_world := m_world c',
      m_client_counts := m_client_counts (srv m) - 1\<rparr>"
    by (simp add: removeConnection_def written_back_def c')
  have inv': "server_inv n (srv ?m)" using inv by simp
  have mine: "(i, ?fd) \<in> owned (Io u) (srv m)" using c by (auto simp: owned_def)
  have owned': "owned (Io u) (srv ?m) = owned (Io u) (srv m) - {(i, ?fd)}"
    using c by (auto simp: owned_def m split: if_splits)
  have wanted': "wanted_mask (srv ?m) fd = wanted_mask (srv m) fd" if "(j, fd) \<in> owned (Io u) (srv m) - {(i, ?fd)}" for j fd
  proof -
    have "fd \<noteq> ?fd" "0 \<le> fd" using that owned_okD(1) [OF own, of j fd] owned_okD(3) [OF own mine, of j fd] by auto
    then have "nat ?fd \<noteq> nat fd" using me by (auto simp: conn_ok_def)
    then show ?thesis by (simp add: wanted_mask_def m)
  qed
  have "loop_ok (owned (Io u) (srv m) - {(i, ?fd)}) (fixed_fds m) (wanted_mask (srv m)) True b (closed_loop (conn_event c) ?l)"
    using loop_ok_closed [of _ _ _ t b ?l i "conn_event c"] L own b d t mine by simp
  then have "loop_ok (owned (Io u) (srv ?m)) (fixed_fds m) (wanted_mask (srv ?m)) True b (closed_loop (conn_event c) ?l)"
    unfolding owned' by (rule loop_ok_wanted) (rule wanted')
  then have loops: "loops_ok ?m"
    by (intro loops_update [OF ok c, where x = None and e = ?e and l = "closed_loop (conn_event c) ?l"])
      (simp_all only: m, simp_all add: d)
  moreover have "m_tid (closed_loop (conn_event c) ?l) = m_tid ?l" by (simp add: closed_loop_def Let_def)
  moreover have "m_events ?e = 0" by (simp add: close_event_def)
  ultimately have "tables_ok n ?m"
    by (intro tables_update [OF T c, where x = None and e = ?e and l = "closed_loop (conn_event c) ?l"])
      (use inv' in \<open>simp_all add: m get_loop_def\<close>)
  with loops show ?thesis by (simp add: machine_ok_def)
qed

section \<open>Accepting\<close>

lemma getFdEvent_shape:
  assumes "getFdEvent events fd = Inr (e, events')" and "0 \<le> fd"
  shows "e = events' ! nat fd" "nat fd < length events'"
    and "\<exists>k. events' = events @ map (\<lambda>i. FdEvent_new (int i)) [length events..<k]"
proof -
  have "e = events' ! nat fd \<and> nat fd < length events'
      \<and> (\<exists>k. events' = events @ map (\<lambda>i. FdEvent_new (int i)) [length events..<k])"
  proof (cases "fd < int (length events)")
    case True
    with assms have "e = events ! nat fd" "events' = events @ map (\<lambda>i. FdEvent_new (int i)) [length events..<0]"
      by (auto simp: getFdEvent_def)
    moreover have "nat fd < length events" using True assms(2) by (simp add: nat_less_iff)
    ultimately show ?thesis by auto
  next
    case False
    define k where "k = nat (grown_size fd)"
    have "length events \<le> k" using False assms(2) by (simp add: k_def grown_size_def)
    with False assms show ?thesis
      by (auto simp: getFdEvent_def Let_def k_def nat_less_iff split: if_splits)
  qed
  then show "e = events' ! nat fd" "nat fd < length events'"
    "\<exists>k. events' = events @ map (\<lambda>i. FdEvent_new (int i)) [length events..<k]" by blast+
qed

text \<open>The state that \<open>onAccept\<close> leaves.\<close>

definition accepted_state :: "nat \<Rightarrow> io_thread_group \<Rightarrow> 'k handler fd_event_group \<Rightarrow> ('k, 'w) tcp_connection
    \<Rightarrow> ('k, 'w) tcp_server \<Rightarrow> ('k, 'w) tcp_server" where
  "accepted_state t g events conn s = s\<lparr>m_io_thread_group := g, io_loops := (io_loops s)[t := conn_loop conn],
     server_events := events[nat (m_fd (conn_event conn)) := conn_event conn],
     m_client_counts := m_client_counts s + 1,
     m_connections := (m_connections s)(next_connection s \<mapsto> (t, conn)), next_connection := next_connection s + 1\<rparr>"

lemma onAccept_shape:
  assumes T: "tables_ok n m" and run: "onAccept fd ag peer b1 b2 (srv m) = Inr s'" and "0 \<le> fd" and "s' \<noteq> srv m"
  shows "\<exists>t g e events conn. s' = accepted_state t g events conn (srv m) \<and> t < n
     \<and> getFdEvent (server_events (srv m)) fd = Inr (e, events)
     \<and> m_this conn = next_connection (srv m) \<and> m_conn_type conn = TcpConnectionByServer \<and> m_remove_conn_cb conn
     \<and> conn_event conn = listen IN_EVENT (OnRead (next_connection (srv m))) (setNonBlocking e)
     \<and> m_fd (conn_event conn) = fd
     \<and> conn_loop conn = addTask (AddFd (nat fd)) True (io_loops (srv m) ! t)"
proof -
  let ?s = "srv m"
  note D = tables_okD [OF T]
  obtain client_fd client_addr where acc: "acceptor_accept (m_acceptor ?s) fd ag peer
      (empty_addr (m_family (m_acceptor ?s))) = (client_fd, client_addr)" by fastforce
  have "\<not> client_fd < 0" using run acc assms(4) by (auto simp: onAccept_def)
  then have fd: "client_fd = fd" using acc by (auto simp: acceptor_accept_def split: if_splits)
  obtain t g e events where pick: "getIOThread (m_io_thread_group ?s) = Inr (t, g)"
    and ev: "getFdEvent (server_events ?s) fd = Inr (e, events)"
    using acc run fd assms(3) by (auto simp: onAccept_def split: sum.splits)
  obtain k where k: "m_io_thread_group ?s = group_at n k" using D(1) by (auto simp: server_inv_def)
  then have n: "0 < n" using pick by (cases n) (auto simp: getIOThread_def group_at_def)
  then have t: "t < n" using pick k by (auto simp: getIOThread_at)
  define conn where "conn = setRemoveConnCb (setState Connected
      (TcpConnection_new (next_connection ?s) (main_tid ?s) (io_loops ?s ! t) e b1 b2 TcpConnectionByServer (server_world ?s)))"
  obtain new where new: "events = server_events ?s @ map (\<lambda>i. FdEvent_new (int i)) [length (server_events ?s)..<new]"
    using getFdEvent_shape(3) [OF ev assms(3)] by blast
  have "m_fd e = fd"
    using getFdEvent_shape(1,2) [OF ev assms(3)] D(2) assms(3)
    by (auto simp: new wf_group_def nth_append FdEvent_new_def)
  then have conn: "m_fd (conn_event conn) = fd"
    "conn_event conn = listen IN_EVENT (OnRead (next_connection ?s)) (setNonBlocking e)"
    "conn_loop conn = addTask (AddFd (nat fd)) True (io_loops ?s ! t)"
    "m_this conn = next_connection ?s" "m_conn_type conn = TcpConnectionByServer" "m_remove_conn_cb conn"
    using D(11) [OF t] by (auto simp: conn_def setRemoveConnCb_def setState_def TcpConnection_new_def Let_def
        listenReadEvent_def conn_addEpollEvent_def addEpollEvent_def isInLoopThread_def)
  have "s' = accepted_state t g events conn ?s"
    using run acc fd assms(3) pick ev conn(1) by (simp add: onAccept_def Let_def conn_def accepted_state_def)
  with conn t ev show ?thesis by blast
qed

lemma open_fdsI: "m_connections (srv m) j = Some (v, d) \<Longrightarrow> m_fd (conn_event d) \<in> open_fds m"
  unfolding open_fds_def by (force intro: ranI)

lemma fixed_open: "fixed_fds m \<subseteq> open_fds m"
  by (auto simp: fixed_fds_def object_fds_def open_fds_def)

lemma machine_accept:
  assumes ok: "machine_ok n m" and run: "onAccept fd ag peer b1 b2 (srv m) = Inr s'" and closed: "fd \<notin> open_fds m"
    and pos: "0 \<le> fd" and new: "s' \<noteq> srv m"
  shows "machine_ok n (m\<lparr>srv := s'\<rparr>)"
proof -
  have T: "tables_ok n m" using ok by (simp add: machine_ok_def)
  note D = tables_okD [OF T]
  let ?i = "next_connection (srv m)" and ?old = "server_events (srv m)" and ?m = "m\<lparr>srv := s'\<rparr>"
  obtain t g e events conn where s': "s' = accepted_state t g events conn (srv m)" and t: "t < n"
    and ev: "getFdEvent ?old fd = Inr (e, events)"
    and conn: "m_this conn = ?i" "m_conn_type conn = TcpConnectionByServer" "m_remove_conn_cb conn"
      "conn_event conn = listen IN_EVENT (OnRead ?i) (setNonBlocking e)" "m_fd (conn_event conn) = fd"
      "conn_loop conn = addTask (AddFd (nat fd)) True (io_loops (srv m) ! t)"
    using onAccept_shape [OF T run pos new] by (elim exE conjE)
  note e = getFdEvent_shape(1,2) [OF ev pos]
  obtain k where events: "events = ?old @ map (\<lambda>i. FdEvent_new (int i)) [length ?old..<k]"
    using getFdEvent_shape(3) [OF ev pos] by blast
  have nlen: "n = length (io_loops (srv m))" using D(1) by (simp add: server_inv_def)
  have free: "m_connections (srv m) ?i = None" using D(1) by (auto simp: server_inv_def)
  have fixed: "fixed_fds ?m = fixed_fds m" by (simp add: fixed_fds_def object_fds_def s' accepted_state_def)
  have s'e: "server_events s' ! p = (if p = nat fd then conn_event conn else if p < length ?old then ?old ! p else FdEvent_new (int p))"
    if "p < length (server_events s')" for p
    using that conn(5) e(2) by (auto simp: s' accepted_state_def events nth_append nth_list_update)
  have len: "nat fd < length (server_events s')" "length ?old \<le> length (server_events s')"
    using e(2) by (simp_all add: s' accepted_state_def events)
  have other: "conn_ok j d s' \<and> m_fd (conn_event d) \<noteq> fd" if d: "m_connections (srv m) j = Some (v, d)" for j v d
  proof -
    have "m_fd (conn_event d) \<noteq> fd" using open_fdsI [OF d] closed by auto
    moreover then have "nat (m_fd (conn_event d)) \<noteq> nat fd" using D(3) [OF d] pos by (auto simp: conn_ok_def)
    ultimately show ?thesis using D(3) [OF d] len(2) s'e [of "nat (m_fd (conn_event d))"] by (simp add: conn_ok_def)
  qed
  have quiet: "m_events e = 0"
  proof (cases "nat fd < length ?old")
    case True
    then show ?thesis using D(6) [of "nat fd"] closed pos e(1) by (simp add: events nth_append)
  next
    case False
    then show ?thesis using e by (auto simp: events nth_append FdEvent_new_def)
  qed
  then have "\<not> listens OUT_EVENT e" by (simp add: listens_def)
  then have "\<not> listens OUT_EVENT (conn_event conn)" using conn(4) by simp
  then have mine: "conn_ok ?i conn s'" using conn pos len(1) s'e [OF len(1)] by (simp add: conn_ok_def)
  have conns: "m_connections s' = (m_connections (srv m))(?i \<mapsto> (t, conn))" by (simp add: s' accepted_state_def)
  have open': "open_fds ?m = insert fd (open_fds m)"
    using free conn(5) by (auto simp: open_fds_def conns ran_map_upd) (auto simp: s' accepted_state_def)
  have tables: "tables_ok n ?m"
    unfolding tables_ok_def fixed
  proof (intro conjI allI impI)
    show "server_inv n (srv ?m)" using server_inv_onAccept [OF D(1) run] by simp
    show "wf_group (server_events (srv ?m))"
      using D(2) s'e conn(5) pos by (auto simp: wf_group_def FdEvent_new_def)
    show "conn_ok j d (srv ?m)" "m_fd (conn_event d) \<notin> fixed_fds m" if "m_connections (srv ?m) j = Some (v, d)" for j v d
      using that other [of j v d] mine D(4) [of j v d] closed conn(5) fixed_open [of m]
      by (auto simp: conns split: if_splits)
    show "j = k" if jk: "m_connections (srv ?m) j = Some (v, d)" "m_connections (srv ?m) k = Some (w, d')"
      and same: "m_fd (conn_event d) = m_fd (conn_event d')" for j v d k w d'
    proof -
      have conn_fd: "l = ?i \<and> m_fd (conn_event z) = fd \<or> l \<noteq> ?i \<and> m_fd (conn_event z) \<noteq> fd
          \<and> m_connections (srv m) l = Some (x, z)" if z: "m_connections (srv ?m) l = Some (x, z)" for l x z
        using z other [of l x z] conn(5) by (cases "l = ?i") (simp_all add: conns)
      show ?thesis using conn_fd [OF jk(1)] conn_fd [OF jk(2)] D(5) [of j v d k w d'] same by metis
    qed
    show "m_events (server_events (srv ?m) ! p) = 0" if "p < length (server_events (srv ?m))" "int p \<notin> open_fds ?m" for p
      using that D(6) [of p] s'e [of p] pos by (auto simp: open' FdEvent_new_def)
    show "m_tid (io_loops (srv ?m) ! u) \<noteq> main_tid (srv ?m)" if "u < n" for u
      using D(11) [OF that] that nlen conn(6) by (cases "u = t") (simp_all add: s' accepted_state_def)
    have l: "m_listenfd (m_acceptor (srv m)) \<in> open_fds m" by (simp add: open_fds_def)
    then have "nat (m_listenfd (m_acceptor (srv m))) \<noteq> nat fd" using closed pos D(9) by (auto simp: eq_nat_nat_iff)
    then show "getHandler ev (server_events (srv ?m) ! nat (m_listenfd (m_acceptor (srv ?m)))) = Some h \<Longrightarrow> handler_conn h = None" for ev h
      using D(8) [of ev h] D(10) len(2) s'e [of "nat (m_listenfd (m_acceptor (srv m)))"]
      by (simp add: s' accepted_state_def)
    show "nat (m_listenfd (m_acceptor (srv ?m))) < length (server_events (srv ?m))"
      using D(10) len(2) by (simp add: s' accepted_state_def)
  qed (use D(7,9) in \<open>simp_all add: s' accepted_state_def\<close>)
  have "loop_ok (owned r s') (fixed_fds m) (wanted_mask s') (draining m r) (batches m r) (get_loop r s')"
    if r: "r \<in> threads (srv m)" for r
  proof -
    note L = machine_okD(1) [OF ok r] and own = machine_okD(2) [OF ok r]
    have w: "wanted_mask s' fd' = wanted_mask (srv m) fd'" if mine: "(j, fd') \<in> owned r (srv m)" for j fd'
    proof -
      obtain v d where d: "m_connections (srv m) j = Some (v, d)" "fd' = m_fd (conn_event d)"
        using mine by (auto simp: owned_def)
      have "server_events s' ! nat fd' = server_events (srv m) ! nat fd'"
        using other [OF d(1)] D(3) [OF d(1)] d(2) by (simp add: conn_ok_def)
      then show ?thesis by (simp add: wanted_mask_def)
    qed
    have L': "loop_ok (owned r (srv m)) (fixed_fds m) (wanted_mask s') (draining m r) (batches m r) (get_loop r (srv m))"
      by (rule loop_ok_wanted [OF L]) (rule w)
    show ?thesis
    proof (cases "r = Io t")
      case True
      have "owned r s' = insert (?i, fd) (owned r (srv m))"
        using True free conn(5) by (auto simp: owned_def conns split: if_splits)
      moreover have "get_loop r s' = addTask (AddFd (nat fd)) True (get_loop r (srv m))"
        using True r conn(6) by (simp add: get_loop_def s' accepted_state_def threads_def image_iff)
      moreover have "(j, fd) \<notin> owned r (srv m)" for j using open_fdsI closed by (auto simp: owned_def)
      ultimately show ?thesis
        using loop_ok_accept [OF L' own pos, where i = ?i] closed fixed_open [of m] by auto
    next
      case False
      then have "owned r s' = owned r (srv m)" using free by (auto simp: owned_def conns split: if_splits)
      moreover have "get_loop r s' = get_loop r (srv m)"
        using False by (cases r) (simp_all add: get_loop_def s' accepted_state_def)
      ultimately show ?thesis using L' by simp
    qed
  qed
  moreover have "threads s' = threads (srv m)" by (simp add: threads_def s' accepted_state_def)
  ultimately show ?thesis using tables by (simp add: machine_ok_def loops_ok_def fixed)
qed

section \<open>Every step\<close>

lemma machine_pop:
  assumes ok: "machine_ok n m" and r: "r \<in> threads (srv m)" and b: "batches m r = t # ts" and t: "task_add t = None"
    and l: "m_epoll_calls l = m_epoll_calls (get_loop r (srv m))" "m_listen_fds l = m_listen_fds (get_loop r (srv m))"
      "m_pending_tasks l = m_pending_tasks (get_loop r (srv m))" "m_tid l = m_tid (get_loop r (srv m))"
  shows "machine_ok n (m\<lparr>batches := (batches m)(r := ts), srv := put_loop r l (srv m)\<rparr>)"
proof -
  note L = machine_okD(1) [OF ok r]
  have d: "draining m r" using loop_okD(11) [OF L] b by auto
  have "loop_ok (owned r (srv m)) (fixed_fds m) (wanted_mask (srv m)) True ts l"
    using loop_ok_skip [OF _ t l(1-3)] L b d by simp
  from machine_put [OF ok r l(4) this] d show ?thesis by (simp add: fun_upd_idem)
qed

lemma machine_connection:
  assumes ok: "machine_ok n m" and r: "r \<in> threads (srv m)" and b: "batches m r = t # ts" and t: "task_call t = Some i"
    and f: "\<And>c. m_conn_type c = TcpConnectionByServer \<Longrightarrow> m_remove_conn_cb c \<Longrightarrow> conn_kept c (f c) \<or> conn_closed c (f c)"
  shows "machine_ok n (m\<lparr>batches := (batches m)(r := ts), srv := with_connection i f (srv m)\<rparr>)"
proof -
  note L = machine_okD(1) [OF ok r] and D = tables_okD [OF machine_okD(3) [OF ok r]]
  obtain fd where "(i, fd) \<in> owned r (srv m)" using loop_okD(7) [OF L, of i] b t by auto
  then obtain u c where u: "r = Io u" and c: "m_connections (srv m) i = Some (u, c)" by (auto simp: owned_def)
  have me: "conn_ok i c (srv m)" using D(3) [OF c] .
  let ?c = "refreshed u (srv m) c"
  have "m_conn_type ?c = TcpConnectionByServer" "m_remove_conn_cb ?c" using me by (simp_all add: refreshed_def conn_ok_def)
  moreover have inv: "server_inv n (with_connection i f (srv m))" by (rule server_inv_with_connection [OF D(1)])
  moreover have ev: "conn_event c = server_events (srv m) ! nat (m_fd (conn_event c))" using me by (simp add: conn_ok_def)
  ultimately show ?thesis
    using f [of ?c] with_connection_shape [OF c ev, of f]
      machine_kept [OF ok _ t c, of ts "f ?c"] machine_closed [OF ok _ t c, of ts "f ?c"] b u by auto
qed

lemma conn_kept_refl: "conn_kept c c"
  by (simp add: conn_kept_def conn_same_def)

lemma machine_handler:
  assumes ok: "machine_ok n m" and r: "r \<in> threads (srv m)" and b: "batches m r = Call (Some h) # ts"
    and fresh: "ans_accept (a OnAccept) \<notin> open_fds m"
  shows "machine_ok n (m\<lparr>batches := (batches m)(r := ts), srv := run_handler disp run_cb (a h) r h (srv m)\<rparr>)"
proof -
  have same: "machine_ok n (m\<lparr>batches := (batches m)(r := ts)\<rparr>)"
    using machine_pop [OF ok r b, of "get_loop r (srv m)"] by simp
  show ?thesis
  proof (cases h)
    case (OnRead i)
    with b have "machine_ok n (m\<lparr>batches := (batches m)(r := ts), srv := with_connection i
        (\<lambda>c. case onRead disp run_cb (ans_read (a h)) c of Some (Inr c') \<Rightarrow> c' | _ \<Rightarrow> c) (srv m)\<rparr>)"
      by (intro machine_connection [OF ok r b])
        (auto split: option.split sum.split dest: onRead_effect intro: conn_kept_refl)
    with OnRead show ?thesis by (simp add: run_handler_def)
  next
    case (OnWrite i)
    with b have "machine_ok n (m\<lparr>batches := (batches m)(r := ts), srv := with_connection i
        (\<lambda>c. case onWrite run_cb (ans_write (a h)) c of Some c' \<Rightarrow> c' | None \<Rightarrow> c) (srv m)\<rparr>)"
      by (intro machine_connection [OF ok r b])
        (auto split: option.split dest: onWrite_effect intro: conn_kept_refl)
    with OnWrite show ?thesis by (simp add: run_handler_def)
  next
    case OnAccept
    let ?m = "m\<lparr>batches := (batches m)(r := ts)\<rparr>"
    let ?run = "onAccept (ans_accept (a h)) (ans_again (a h)) (ans_peer (a h)) (fst (ans_blocks (a h))) (snd (ans_blocks (a h)))"
    have open': "open_fds ?m = open_fds m" by (simp add: open_fds_def)
    show ?thesis
    proof (cases "?run (srv m)")
      case (Inl e)
      with OnAccept same show ?thesis by (simp add: run_handler_def)
    next
      case (Inr s')
      show ?thesis
      proof (cases "s' = srv m \<or> ans_accept (a h) < 0")
        case True
        then have "s' = srv m" using Inr by (auto simp: onAccept_def acceptor_accept_def split: if_splits)
        with OnAccept Inr same show ?thesis by (simp add: run_handler_def)
      next
        case False
        then have "machine_ok n (?m\<lparr>srv := s'\<rparr>)"
          using machine_accept [OF same, of "ans_accept (a h)"] Inr fresh OnAccept open' by auto
        with OnAccept Inr show ?thesis by (simp add: run_handler_def)
      qed
    qed
  next
    case OnWakeup
    then show ?thesis
      using machine_pop [OF ok r b, of "(get_loop r (srv m))\<lparr>m_wakeups := 0\<rparr>"]
      by (simp add: run_handler_def Let_def WakeupFdEvent_onRead_def)
  qed (use same in \<open>simp_all add: run_handler_def\<close>)
qed

lemma machine_ok_RunTask:
  assumes ok: "machine_ok n m" and allowed: "machine_allowed m (RunTask r a)"
  shows "machine_ok n (machine_step disp run_cb m (RunTask r a))"
proof -
  have r: "r \<in> threads (srv m)" and fresh: "ans_accept (a OnAccept) \<notin> open_fds m" using allowed by simp_all
  obtain t ts where b: "batches m r = t # ts" using allowed by (cases "batches m r") auto
  note L = machine_okD(1) [OF ok r] and own = machine_okD(2) [OF ok r] and D = tables_okD [OF machine_okD(3) [OF ok r]]
  show ?thesis
  proof (cases t)
    case (Call h)
    show ?thesis
    proof (cases h)
      case None
      with Call b machine_pop [OF ok r b, of "get_loop r (srv m)"] show ?thesis by (simp add: run_task_def)
    next
      case (Some k)
      with Call b machine_handler [OF ok r, of k ts a] fresh show ?thesis
        by (simp add: run_task_def server_exec_def)
    qed
  next
    case (AddFd p)
    have d: "draining m r" using loop_okD(11) [OF L] b by auto
    obtain i where i: "(i, int p) \<in> owned r (srv m)" using loop_okD(5) [OF L, of p] b AddFd by auto
    then obtain u c where c: "m_connections (srv m) i = Some (u, c)" "int p = m_fd (conn_event c)" by (auto simp: owned_def)
    let ?e = "fd_object (loop_objects m) (srv m) p"
    have "loop_objects m p = None" using owned_okD(2) [OF own i] by (auto simp: fixed_fds_def object_fds_def)
    then have "?e = server_events (srv m) ! p" by (simp add: fd_object_def)
    moreover have p: "nat (m_fd (conn_event c)) = p" using c(2) by (metis nat_int)
    then have "server_events (srv m) ! p = conn_event c" using D(3) [OF c(1)] by (simp add: conn_ok_def)
    ultimately have e: "m_fd ?e = int p" "m_events ?e = wanted_mask (srv m) (int p)" using c(2) p by (simp_all add: wanted_mask_def)
    have "loop_ok (owned r (srv m)) (fixed_fds m) (wanted_mask (srv m)) True ts (ADD_TO_EPOLL ?e (get_loop r (srv m)))"
      using loop_ok_AddFd [of _ _ "wanted_mask (srv m)" p ts "get_loop r (srv m)" ?e] L own e b d AddFd by simp
    from machine_put [OF ok r _ this] b d AddFd show ?thesis
      by (simp add: run_task_def fun_upd_idem)
  next
    case (DelFd p)
    with b have "DelFd p \<in> set (batches m r @ m_pending_tasks (get_loop r (srv m)))" by simp
    with loop_okD(9) [OF L] show ?thesis by blast
  qed
qed

interpretation server_machine: stepwise_invariant "machine_step disp run_cb" machine_allowed "machine_ok n"
  for disp run_cb n
proof unfold_locales
  fix m :: "('b, 'a) server_machine" and op
  assume "machine_ok n m" "machine_allowed m op"
  then show "machine_ok n (machine_step disp run_cb m op)"
    using machine_ok_Swap machine_ok_RunTask machine_ok_Waited by (cases op) blast+
qed

end
