(* ===== verification/ServerStart.thy ===== *)
theory ServerStart
  imports ServerSafety
begin

text \<open>
  The server after its constructor satisfies the invariant, hence so does every state it reaches; and a
  small server whose first steps are computed, for the witnesses.
\<close>

section \<open>The start\<close>

text \<open>What the constructors of the loops leave: the wakeup and timer events are watched, nothing is queued;
  the main thread is not an I/O thread.\<close>

definition loop_new :: "(nat \<Rightarrow> 'k handler fd_event option) \<Rightarrow> 'k handler event_loop \<Rightarrow> bool" where
  "loop_new objects l \<longleftrightarrow> in_sync l \<and> (\<forall>fd \<in> m_listen_fds l. 0 \<le> fd \<and> objects (nat fd) \<noteq> None)
     \<and> m_pending_tasks l = []"

definition loop_object :: "'k handler fd_event \<Rightarrow> bool" where
  "loop_object e \<longleftrightarrow> (\<forall>ev. getHandler ev e \<in> {None, Some OnWakeup, Some OnTimer})"

definition server_started :: "tcp_acceptor \<Rightarrow> 'k handler event_loop \<Rightarrow> int \<Rightarrow> (nat \<Rightarrow> 'k handler event_loop)
    \<Rightarrow> nat \<Rightarrow> 'w \<Rightarrow> (nat \<Rightarrow> 'k handler fd_event option) \<Rightarrow> ('k, 'w) server_machine \<Rightarrow> bool" where
  "server_started acceptor l io_threads loops sz w objects m \<longleftrightarrow>
     (\<exists>s. TcpServer_init acceptor l io_threads loops (FdEventGroup_new sz) w = Inr s \<and> m = machine_new s objects)
     \<and> 0 \<le> m_listenfd acceptor \<and> loop_new objects l \<and> (\<forall>t < nat io_threads. loop_new objects (loops t))
     \<and> (\<forall>t < nat io_threads. m_tid (loops t) \<noteq> m_tid l)
     \<and> (\<forall>p e. objects p = Some e \<longrightarrow> loop_object e)"

lemma fresh_group:
  assumes "getFdEvent (FdEventGroup_new sz) fd = Inr (e, events)" and "0 \<le> fd"
  shows "\<forall>p < length events. events ! p = FdEvent_new (int p)" "e = FdEvent_new fd" "nat fd < length events"
proof -
  obtain k where events: "events = FdEventGroup_new sz @ map (\<lambda>i. FdEvent_new (int i)) [length (FdEventGroup_new sz :: 'a fd_event_group)..<k]"
    using getFdEvent_shape(3) [OF assms] by blast
  show all: "\<forall>p < length events. events ! p = FdEvent_new (int p)"
    by (auto simp: events nth_append FdEventGroup_new_def)
  show "nat fd < length events" "e = FdEvent_new fd" using getFdEvent_shape(1,2) [OF assms] all assms(2) by simp_all
qed

lemma machine_ok_start:
  fixes m :: "('k, 'w) server_machine"
  assumes "server_started acceptor l io_threads loops sz w objects m"
  shows "machine_ok (nat io_threads) m"
proof -
  obtain s where init: "TcpServer_init acceptor l io_threads loops (FdEventGroup_new sz) w = Inr s"
    and m: "m = machine_new s objects"
    and lfd: "0 \<le> m_listenfd acceptor" and l: "loop_new objects l" and ls: "\<forall>t < nat io_threads. loop_new objects (loops t)"
    and tids: "\<forall>t < nat io_threads. m_tid (loops t) \<noteq> m_tid l"
    and objs: "\<And>p e. objects p = Some e \<Longrightarrow> loop_object e"
    using assms by (auto simp: server_started_def)
  have n: "0 \<le> io_threads" using init by (auto simp: TcpServer_init_def IOThreadGroup_new_def split: if_splits)
  let ?n = "nat io_threads"
  obtain e0 events where ev: "getFdEvent (FdEventGroup_new sz :: 'k handler fd_event_group) (m_listenfd acceptor) = Inr (e0, events)"
    using init by (auto simp: TcpServer_init_def split: sum.splits)
  note group = fresh_group [OF ev lfd]
  define e where "e = listen IN_EVENT OnAccept (setNonBlocking e0)"
  have e: "m_fd e = m_listenfd acceptor" "getHandler IN_EVENT e = Some OnAccept" "getHandler OUT_EVENT e = None"
    using group(2) by (simp_all add: e_def) (simp add: FdEvent_new_def)
  have s: "s = \<lparr>m_acceptor = acceptor, main_tid = m_tid l, main_loop = ADD_TO_EPOLL e l,
      m_io_thread_group = group_at ?n 0, io_loops = map loops [0..<?n],
      server_events = events[nat (m_listenfd acceptor) := e], m_client_counts = 0,
      m_connections = Map.empty, next_connection = 0, server_world = w\<rparr>"
    using init ev n e(1) by (simp add: TcpServer_init_def IOThreadGroup_new_def Let_def group_at_def e_def)
  have s_events: "server_events s ! p = (if p = nat (m_listenfd acceptor) then e else FdEvent_new (int p))"
    if "p < length (server_events s)" for p using that group(1) by (auto simp: s nth_list_update)
  have fixed: "fixed_fds m = insert (m_listenfd acceptor) {int p | p. objects p \<noteq> None}"
    by (simp add: fixed_fds_def object_fds_def m machine_new_def s)
  have obj: "fd \<in> fixed_fds m" if "loop_new objects x" "fd \<in> m_listen_fds x" for x :: "'k handler event_loop" and fd
  proof -
    have "fd = int (nat fd)" "objects (nat fd) \<noteq> None" using that by (auto simp: loop_new_def)
    then show ?thesis unfolding fixed by blast
  qed
  have tables: "tables_ok ?n m"
    unfolding tables_ok_def
  proof (intro conjI allI impI)
    show "server_inv ?n (srv m)" using server_inv_init [OF init] by (simp add: m machine_new_def)
    show "wf_group (server_events (srv m))"
      unfolding wf_group_def using s_events e(1) lfd by (auto simp: m machine_new_def FdEvent_new_def)
    show "m_events (server_events (srv m) ! p) = 0" if "p < length (server_events (srv m))" "int p \<notin> open_fds m" for p
      using that s_events [of p] lfd by (auto simp: m machine_new_def open_fds_def s FdEvent_new_def)
    show "handler_conn h = None" if "loop_objects m p = Some x" "getHandler evt x = Some h" for p x evt h
      using that objs [of p x] by (auto simp: m machine_new_def loop_object_def dest!: spec [of _ evt])
    show "nat (m_listenfd (m_acceptor (srv m))) < length (server_events (srv m))"
      using group(3) by (simp add: m machine_new_def s)
    then show "handler_conn h = None"
      if "getHandler evt (server_events (srv m) ! nat (m_listenfd (m_acceptor (srv m)))) = Some h" for evt h
      using that s_events [of "nat (m_listenfd acceptor)"] e(2,3) by (cases evt) (auto simp: m machine_new_def s)
    show "m_tid (io_loops (srv m) ! t) \<noteq> main_tid (srv m)" if "t < ?n" for t
      using that tids by (simp add: m machine_new_def s)
  qed (use lfd in \<open>simp_all add: m machine_new_def s\<close>)
  have "loop_ok {} (fixed_fds m) wm False [] (ADD_TO_EPOLL e l)" for wm
    by (rule loop_okI) (use l obj [OF l] e(1) in \<open>auto simp: loop_new_def in_sync_add fixed lfd\<close>)
  moreover have "loop_ok {} (fixed_fds m) wm False [] (loops t)" if "t < ?n" for t wm
    by (rule loop_okI) (use ls that obj [of "loops t"] in \<open>auto simp: loop_new_def\<close>)
  moreover have "owned r s = {}" for r by (auto simp: owned_def s)
  ultimately have "loops_ok m"
    by (auto simp: loops_ok_def m machine_new_def threads_def get_loop_def s)
  with tables show ?thesis by (simp add: machine_ok_def)
qed

lemma machine_ok_reachable:
  assumes "server_started acceptor l io_threads loops sz w objects m0"
    and "run_allowed (machine_step disp run_cb) machine_allowed m0 ops"
  shows "machine_ok (nat io_threads) (run_steps (machine_step disp run_cb) m0 ops)"
  by (rule server_machine.inv_run [OF machine_ok_start [OF assms(1)] assms(2)])

section \<open>A server with one I/O thread\<close>

text \<open>The listening descriptor is 6; 4, 5, 7 and 8 are the wakeup and timer descriptors of the two loops.\<close>

definition demo_main :: "'k handler event_loop" where
  "demo_main = EventLoop_new 1 (WakeupFdEvent_new 4) (listen IN_EVENT OnTimer (FdEvent_new 5))"

definition demo_io :: "nat \<Rightarrow> 'k handler event_loop" where
  "demo_io t = EventLoop_new 2 (WakeupFdEvent_new 7) (listen IN_EVENT OnTimer (FdEvent_new 8))"

definition demo_objects :: "nat \<Rightarrow> 'k handler fd_event option" where
  "demo_objects = [4 \<mapsto> WakeupFdEvent_new 4, 5 \<mapsto> listen IN_EVENT OnTimer (FdEvent_new 5),
     7 \<mapsto> WakeupFdEvent_new 7, 8 \<mapsto> listen IN_EVENT OnTimer (FdEvent_new 8)]"

definition demo_answers :: "int \<Rightarrow> unit handler \<Rightarrow> answers" where
  "demo_answers fd h = \<lparr>ans_read = [], ans_write = [], ans_accept = fd, ans_again = False,
     ans_peer = UnixNetAddr_path [], ans_blocks = (block, block)\<rparr>"

lemma group11: "FdEventGroup_new 11 = map (\<lambda>i. FdEvent_new (int i)) [0, 1, 2, 3, 4, 5, 6, 7, 8, 9, 10]"
  by (simp add: FdEventGroup_new_def upt_rec)

lemma getFdEvent_demo: "0 \<le> fd \<Longrightarrow> fd < int (length g) \<Longrightarrow> getFdEvent g fd = Inr (g ! nat fd, g)"
  by (simp add: getFdEvent_def)

lemma demo_loop_facts [simp]:
  "m_tid demo_main = 1" "m_listen_fds demo_main = {4, 5}" "m_pending_tasks demo_main = []"
  "\<not> m_stop_flag demo_main" "m_wakeups demo_main = 0"
  "m_tid (demo_io t) = 2" "m_listen_fds (demo_io t) = {7, 8}" "m_pending_tasks (demo_io t) = []"
  "\<not> m_stop_flag (demo_io t)" "m_wakeups (demo_io t) = 0"
  by (auto simp: demo_main_def demo_io_def EventLoop_new_eq ADD_TO_EPOLL_def WakeupFdEvent_new_def
      WakeupFdEvent_init_def FdEvent_new_def listen_def)

lemma demo_sync [simp]: "in_sync demo_main" "in_sync (demo_io t)"
  unfolding demo_main_def demo_io_def
  by (simp_all add: in_sync_new new_fds)

definition demo_server :: "(unit, runtime \<times> nat) tcp_server" where
  "demo_server = \<lparr>m_acceptor = sample_acceptor, main_tid = 1,
     main_loop = ADD_TO_EPOLL (listen IN_EVENT OnAccept (setNonBlocking (FdEvent_new 6))) demo_main,
     m_io_thread_group = group_at 1 0, io_loops = [demo_io 0],
     server_events = (FdEventGroup_new 11)[6 := listen IN_EVENT OnAccept (setNonBlocking (FdEvent_new 6))],
     m_client_counts = 0, m_connections = Map.empty, next_connection = 0, server_world = (Runtime_new, 5)\<rparr>"

lemma demo_init: "TcpServer_init sample_acceptor demo_main 1 demo_io (FdEventGroup_new 11) (Runtime_new, 5) = Inr demo_server"
  by (simp add: TcpServer_init_def IOThreadGroup_new_def demo_server_def getFdEvent_demo group11 sample_acceptor_def Let_def
    group_at_def) (simp add: FdEvent_new_def addEpollEvent_def isInLoopThread_def)

lemma demo_started: "server_started sample_acceptor demo_main 1 demo_io 11 (Runtime_new, 5) demo_objects (machine_new demo_server demo_objects)"
  unfolding server_started_def
proof (intro conjI allI impI)
  show "loop_object e" if "demo_objects p = Some (e :: unit handler fd_event)" for p e
    using that unfolding loop_object_def
    by (intro allI) (auto simp: demo_objects_def WakeupFdEvent_new_def WakeupFdEvent_init_def getHandler_def FdEvent_new_def listen_def
      split: if_splits TriggerEvent.split)
qed (use demo_init in \<open>auto simp: sample_acceptor_def loop_new_def demo_objects_def\<close>)

definition demo_accept :: "unit machine_op list" where
  "demo_accept = [Swap Main, Waited Main [(Some 6, EPOLLIN)], Swap Main, RunTask Main (demo_answers 9)]"

lemma demo_kernel: "kernel_table (m_epoll_calls (main_loop demo_server)) 6 = Some EPOLLIN"
  using mask_add [of demo_main "listen IN_EVENT OnAccept (setNonBlocking (FdEvent_new 6))"]
  by (simp add: demo_server_def) (simp add: listen_def FdEvent_new_def setNonBlocking_def)

lemma not_open: "fd \<notin> open_fds m \<longleftrightarrow> fd \<noteq> m_listenfd (m_acceptor (srv m)) \<and> (0 \<le> fd \<longrightarrow> loop_objects m (nat fd) = None)
  \<and> (\<forall>x \<in> ran (m_connections (srv m)). m_fd (conn_event (snd x)) \<noteq> fd)"
  unfolding open_fds_def by (force simp: split_def image_iff)

lemma demo_events: "length (server_events demo_server) = 11"
  "server_events demo_server ! 6 = listen IN_EVENT OnAccept (setNonBlocking (FdEvent_new 6))"
  "server_events demo_server ! 9 = FdEvent_new 9" "server_events demo_server ! 10 = FdEvent_new 10"
  by (simp_all add: demo_server_def group11)

lemma group_at_sel: "g_size (group_at n i) = int n" "g_threads (group_at n i) = [0..<n]" "m_index (group_at n i) = int (i mod n)"
  by (simp_all add: group_at_def)

lemma demo_fields: "m_acceptor demo_server = sample_acceptor" "main_tid demo_server = 1"
  "m_io_thread_group demo_server = group_at 1 0" "io_loops demo_server = [demo_io 0]" "m_connections demo_server = Map.empty"
  "next_connection demo_server = 0" "server_world demo_server = (Runtime_new, 5)"
  "m_pending_tasks (main_loop demo_server) = []" "\<not> m_stop_flag (main_loop demo_server)" "m_tid (main_loop demo_server) = 1"
  by (simp_all add: demo_server_def)

lemmas demo_eval = machine_new_def threads_def get_loop_def put_loop_def handle_event_def view_def unview_def fd_object_def
  addTask_def loop_wakeup_def run_task_def server_exec_def run_handler_def onAccept_def acceptor_accept_def demo_answers_def
  TcpConnection_new_def listenReadEvent_def conn_addEpollEvent_def addEpollEvent_def isInLoopThread_def setState_def
  setRemoveConnCb_def demo_fields demo_events getFdEvent_demo getIOThread_def group_at_sel Let_def reported_def demo_kernel
  sample_acceptor_def demo_objects_def EPOLLIN_def not_open reserved_def

lemma demo_accept_allowed:
  "run_allowed (machine_step d r) machine_allowed (machine_new demo_server demo_objects) demo_accept"
  unfolding demo_accept_def by (simp add: demo_eval)

definition demo_conn :: "(unit, runtime \<times> nat) tcp_connection" where
  "demo_conn = setRemoveConnCb (setState Connected (TcpConnection_new 0 1 (demo_io 0) (FdEvent_new 9)
     block block TcpConnectionByServer (Runtime_new, 5)))"

lemma main_loop_id [simp]: "(main_loop demo_server)\<lparr>m_pending_tasks := []\<rparr> = main_loop demo_server"
  using demo_fields(8) by (cases "main_loop demo_server") simp

lemma main_server_id [simp]: "demo_server\<lparr>main_loop := main_loop demo_server\<rparr> = demo_server"
  by (cases demo_server) simp

definition demo_machine :: "(unit, runtime \<times> nat) tcp_server \<Rightarrow> (thread_id \<Rightarrow> unit handler loop_task list) \<Rightarrow> (thread_id \<Rightarrow> bool) \<Rightarrow> (unit, runtime \<times> nat) server_machine"
  where "demo_machine s b d = \<lparr>srv = s, loop_objects = demo_objects, batches = b, draining = d\<rparr>"

definition demo_accepted :: "(unit, runtime \<times> nat) server_machine" where
  "demo_accepted = demo_machine (accepted_state 0 (group_at 1 1) (server_events demo_server) demo_conn demo_server) (\<lambda>_. [])
     ((\<lambda>_. False)(Main := True))"

lemma demo_accepts: "run_steps (machine_step d r) (machine_new demo_server demo_objects) demo_accept = demo_accepted"
  unfolding demo_accept_def
  by (simp add: demo_eval accepted_state_def demo_conn_def demo_machine_def fun_upd_idem demo_accepted_def)
    (simp add: group_at_def FdEvent_new_def)

definition demo_register :: "unit machine_op list" where
  "demo_register = [Swap (Io 0), RunTask (Io 0) (demo_answers (- 1)), Waited (Io 0) [(Some 9, EPOLLIN)], Swap (Io 0)]"

lemma demo_conn_facts [simp]:
  "conn_loop demo_conn = addTask (AddFd 9) True (demo_io 0)"
  "conn_event demo_conn = listen IN_EVENT (OnRead 0) (setNonBlocking (FdEvent_new 9))"
  by (simp_all add: demo_conn_def setRemoveConnCb_def setState_def TcpConnection_new_def Let_def listenReadEvent_def
    conn_addEpollEvent_def addEpollEvent_def isInLoopThread_def) (simp add: FdEvent_new_def)

lemma demo_io_eq: "demo_io 0 = \<lparr>m_tid = 2, m_epoll_calls = [Ctl CTL_ADD 7 EPOLLIN, Ctl CTL_ADD 8 EPOLLIN], m_stop_flag = False,
     m_listen_fds = {7, 8}, m_pending_tasks = [], m_is_looping = False, m_wakeups = 0\<rparr>"
  by (auto simp: demo_io_def EventLoop_new_eq ADD_TO_EPOLL_def WakeupFdEvent_new_def WakeupFdEvent_init_def FdEvent_new_def listen_def)

definition demo_watching :: "unit handler event_loop" where
  "demo_watching = (ADD_TO_EPOLL (listen IN_EVENT (OnRead 0) (setNonBlocking (FdEvent_new 9))) (demo_io 0))\<lparr>m_wakeups := 1\<rparr>"

lemma demo_watching_facts [simp]:
  "demo_watching\<lparr>m_pending_tasks := []\<rparr> = demo_watching" "m_pending_tasks demo_watching = []" "\<not> m_stop_flag demo_watching"
  "m_wakeups demo_watching = 1" "m_tid demo_watching = 2"
  by (simp_all add: demo_watching_def demo_io_eq ADD_TO_EPOLL_def Let_def)

lemma demo_watching_kernel [simp]: "kernel_table (m_epoll_calls demo_watching) 9 = Some EPOLLIN"
  "kernel_table (m_epoll_calls demo_watching) 7 = Some EPOLLIN"
proof -
  show "kernel_table (m_epoll_calls demo_watching) 9 = Some EPOLLIN"
    by (simp add: demo_watching_def kernel_add new_fds) (simp add: listen_def FdEvent_new_def setNonBlocking_def)
  have "kernel_table (m_epoll_calls (demo_io 0)) 7 = Some EPOLLIN"
    by (simp add: demo_io_def EventLoop_new_eq ADD_TO_EPOLL_def WakeupFdEvent_new_def WakeupFdEvent_init_def FdEvent_new_def
      kernel_table_def listen_def)
  then show "kernel_table (m_epoll_calls demo_watching) 7 = Some EPOLLIN"
    by (simp add: demo_watching_def kernel_add new_fds)
qed

lemma demo_watching_add [simp]:
  "ADD_TO_EPOLL (listen IN_EVENT (OnRead 0) (setNonBlocking (FdEvent_new 9))) (demo_io 0\<lparr>m_wakeups := Suc 0, m_pending_tasks := []\<rparr>)
    = demo_watching"
  by (simp add: demo_watching_def demo_io_eq ADD_TO_EPOLL_def Let_def)

lemma m_fd_new9 [simp]: "m_fd (FdEvent_new 9) = 9" by (simp add: FdEvent_new_def)

definition demo_served :: "(unit, runtime \<times> nat) tcp_server" where
  "demo_served = (accepted_state 0 (group_at 1 1) (server_events demo_server) demo_conn demo_server)\<lparr>io_loops := [demo_watching]\<rparr>"

lemma demo_registers: "run_steps (machine_step d r) demo_accepted demo_register
   = demo_machine demo_served ((\<lambda>_. [])(Io 0 := [Call (Some (OnRead 0))])) ((\<lambda>_. False)(Main := True, Io 0 := True))"
  unfolding demo_register_def demo_machine_def accepted_state_def demo_served_def demo_accepted_def
  by (simp add: demo_eval)

lemma demo_registers_allowed: "run_allowed (machine_step d r) machine_allowed demo_accepted demo_register"
  unfolding demo_register_def demo_machine_def accepted_state_def demo_accepted_def by (simp add: demo_eval)

end
