(* ===== verification/ServerStreams.thy ===== *)
theory ServerStreams
  imports ServerStart EndToEnd
begin

text \<open>
  What a client of the running server sees: the bytes that arrived on each connection are recorded beside
  the state of the threads, and a contract between those bytes and the connection is kept by every step of
  every thread.
\<close>

section \<open>What arrived\<close>

text \<open>A read takes the first segment of its script; the contracts below admit only segments that fit.\<close>

definition segment :: "sock_read list \<Rightarrow> byte list" where
  "segment script = (case script of Bytes bs # _ \<Rightarrow> bs | _ \<Rightarrow> [])"

definition reading :: "('k, 'w) server_machine \<Rightarrow> 'k machine_op \<Rightarrow> (nat \<times> sock_read list) option" where
  "reading m op =
     (case op of
        RunTask r a \<Rightarrow> (case batches m r of Call (Some (OnRead i)) # _ \<Rightarrow> Some (i, ans_read (a (OnRead i))) | _ \<Rightarrow> None)
      | _ \<Rightarrow> None)"

type_synonym ('k, 'w) traced = "('k, 'w) server_machine \<times> (nat \<Rightarrow> byte list)"

definition traced_step :: "'w dispatching \<Rightarrow> ('k, 'w) runner \<Rightarrow> ('k, 'w) traced \<Rightarrow> 'k machine_op \<Rightarrow> ('k, 'w) traced" where
  "traced_step disp run_cb s op =
     (machine_step disp run_cb (fst s) op,
      case reading (fst s) op of None \<Rightarrow> snd s
      | Some (i, script) \<Rightarrow> (snd s)(i := snd s i @ segment script))"

definition traced_allowed :: "(nat \<Rightarrow> tcp_buffer \<Rightarrow> sock_read list \<Rightarrow> bool) \<Rightarrow> ('k, 'w) traced \<Rightarrow> 'k machine_op \<Rightarrow> bool" where
  "traced_allowed proper s op \<longleftrightarrow> machine_allowed (fst s) op
     \<and> (case reading (fst s) op of None \<Rightarrow> True
        | Some (i, script) \<Rightarrow>
            (case m_connections (srv (fst s)) i of None \<Rightarrow> True | Some (t, c) \<Rightarrow> proper i (m_in_buffer c) script))"

lemma fst_traced_step [simp]: "fst (traced_step disp run_cb s op) = machine_step disp run_cb (fst s) op"
  by (simp add: traced_step_def)

lemma traced_run: "fst (run_steps (traced_step disp run_cb) s ops) = run_steps (machine_step disp run_cb) (fst s) ops"
  by (induction ops arbitrary: s) simp_all

lemma traced_run_allowed:
  "run_allowed (traced_step disp run_cb) (traced_allowed proper) s ops
     \<Longrightarrow> run_allowed (machine_step disp run_cb) machine_allowed (fst s) ops"
proof (induction ops arbitrary: s)
  case (Cons op ops)
  then have "machine_allowed (fst s) op" by (simp add: traced_allowed_def)
  with Cons.prems Cons.IH [of "traced_step disp run_cb s op"] show ?case by simp
qed simp

section \<open>Contracts of a connection\<close>

definition contract_kept :: "(nat \<Rightarrow> byte list \<Rightarrow> ('k, 'w) tcp_connection \<Rightarrow> bool) \<Rightarrow> ('k, 'w) traced \<Rightarrow> bool" where
  "contract_kept kept s \<longleftrightarrow>
     (\<forall>i t c. m_connections (srv (fst s)) i = Some (t, c) \<longrightarrow> kept i (snd s i) c)
     \<and> (\<forall>i \<ge> next_connection (srv (fst s)). snd s i = [])"

text \<open>A handler that does not return a connection leaves it as it was.\<close>

definition after_onRead :: "'w dispatching \<Rightarrow> ('k, 'w) runner \<Rightarrow> sock_read list \<Rightarrow> ('k, 'w) tcp_connection
    \<Rightarrow> ('k, 'w) tcp_connection" where
  "after_onRead disp run_cb script c = (case onRead disp run_cb script c of Some (Inr c') \<Rightarrow> c' | _ \<Rightarrow> c)"

definition after_onWrite :: "('k, 'w) runner \<Rightarrow> sock_write list \<Rightarrow> ('k, 'w) tcp_connection \<Rightarrow> ('k, 'w) tcp_connection" where
  "after_onWrite run_cb script c = (case onWrite run_cb script c of Some c' \<Rightarrow> c' | None \<Rightarrow> c)"

definition server_conn :: "nat \<Rightarrow> ('k, 'w) tcp_connection \<Rightarrow> bool" where
  "server_conn i c \<longleftrightarrow> m_this c = i \<and> m_conn_type c = TcpConnectionByServer \<and> m_remove_conn_cb c"

definition fresh_conn :: "('k, 'w) tcp_connection \<Rightarrow> bool" where
  "fresh_conn c \<longleftrightarrow> wf_conn 1024 c \<and> m_state c = Connected \<and> content (m_in_buffer c) = []
     \<and> content (m_out_buffer c) = [] \<and> m_sent c = []"

locale connection_contract =
  fixes disp :: "'w dispatching" and run_cb :: "('k, 'w) runner"
    and proper :: "nat \<Rightarrow> tcp_buffer \<Rightarrow> sock_read list \<Rightarrow> bool"
    and kept :: "nat \<Rightarrow> byte list \<Rightarrow> ('k, 'w) tcp_connection \<Rightarrow> bool"
  assumes contract_new: "server_conn i c \<Longrightarrow> fresh_conn c \<Longrightarrow> kept i [] c"
    and contract_shared: "kept i bs c \<Longrightarrow> kept i bs (c\<lparr>conn_loop := l, m_world := w\<rparr>)"
    and contract_read: "kept i bs c \<Longrightarrow> server_conn i c \<Longrightarrow> proper i (m_in_buffer c) script
      \<Longrightarrow> conn_closed c (after_onRead disp run_cb script c) \<or> kept i (bs @ segment script) (after_onRead disp run_cb script c)"
    and contract_write: "kept i bs c \<Longrightarrow> server_conn i c \<Longrightarrow> kept i bs (after_onWrite run_cb accepts c)"
begin

lemma refreshed_kept:
  assumes "kept i bs c" and "conn_ok i c s"
  shows "kept i bs (refreshed t s c)" "server_conn i (refreshed t s c)" "m_in_buffer (refreshed t s c) = m_in_buffer c"
proof -
  have "refreshed t s c = c\<lparr>conn_loop := io_loops s ! t, m_world := server_world s\<rparr>"
    using assms(2) by (cases c) (simp add: refreshed_def conn_ok_def)
  then show "kept i bs (refreshed t s c)" using contract_shared [OF assms(1)] by simp
qed (use assms(2) in \<open>simp_all add: server_conn_def conn_ok_def refreshed_def\<close>)

end

lemma with_connection_conns:
  assumes "m_connections s i = Some (t, c)"
  shows "m_connections (with_connection i f s) =
      (m_connections s)(i := if m_removals (refreshed t s c) < m_removals (f (refreshed t s c)) then None
                             else Some (t, f (refreshed t s c)))"
    and "next_connection (with_connection i f s) = next_connection s"
  using assms by (auto simp: with_connection_def Let_def refreshed_def removeConnection_def)

lemma onAccept_conns:
  assumes "onAccept fd ag peer b1 b2 s = Inr s'" and "length b1 = 1024" and "length b2 = 1024"
  obtains "s' = s"
  | t c where "m_connections s' = (m_connections s)(next_connection s \<mapsto> (t, c))"
      "next_connection s' = next_connection s + 1" "server_conn (next_connection s) c" "fresh_conn c"
proof -
  obtain client_fd client_addr where acc: "acceptor_accept (m_acceptor s) fd ag peer
      (empty_addr (m_family (m_acceptor s))) = (client_fd, client_addr)" by fastforce
  show ?thesis
  proof (cases "client_fd < 0")
    case True
    with acc assms(1) show ?thesis by (auto simp: onAccept_def intro: that(1))
  next
    case False
    then obtain t g e events where pick: "getIOThread (m_io_thread_group s) = Inr (t, g)"
      and ev: "getFdEvent (server_events s) client_fd = Inr (e, events)"
      using acc assms(1) by (auto simp: onAccept_def split: sum.splits)
    define c where "c = setRemoveConnCb (setState Connected
        (TcpConnection_new (next_connection s) (main_tid s) (io_loops s ! t) e b1 b2 TcpConnectionByServer (server_world s)))"
    have "server_conn (next_connection s) c" "fresh_conn c"
      using assms(2,3) by (simp_all add: c_def server_conn_def fresh_conn_def setRemoveConnCb_def setState_def
          TcpConnection_new_def Let_def wf_conn_def roomy_def wf_TcpBuffer_new content_TcpBuffer_new listenReadEvent_def
          conn_addEpollEvent_def) (simp_all add: TcpBuffer_new_def)
    moreover have "m_connections s' = (m_connections s)(next_connection s \<mapsto> (t, c))" "next_connection s' = next_connection s + 1"
      using False acc assms(1) pick ev by (auto simp: onAccept_def Let_def c_def)
    ultimately show ?thesis by (intro that(2))
  qed
qed

section \<open>Every step keeps a contract\<close>

lemma machine_step_other:
  assumes "reading m op = None" and "\<And>r a h ts. op = RunTask r a \<Longrightarrow> batches m r \<noteq> Call (Some h) # ts"
  shows "m_connections (srv (machine_step disp run_cb m op)) = m_connections (srv m)
     \<and> next_connection (srv (machine_step disp run_cb m op)) = next_connection (srv m)"
proof (cases op)
  case (RunTask r a)
  show ?thesis
  proof (cases "batches m r")
    case (Cons t ts)
    with RunTask assms(2) show ?thesis
      by (cases t rule: loop_task.exhaust) (auto simp: run_task_def unview_def split: option.split)
  qed (simp add: RunTask)
qed (simp_all add: unview_def handle_events_eq)

lemma machine_step_handler:
  assumes "batches m r = Call (Some h) # ts"
  shows "srv (machine_step disp run_cb m (RunTask r a)) = run_handler disp run_cb (a h) r h (srv m)"
  using assms by (simp add: run_task_def server_exec_def)

context connection_contract
begin

lemma kept_update:
  assumes "contract_kept kept s" and c: "m_connections (srv (fst s)) i = Some (t, c)"
    and "m_connections (srv m') = (m_connections (srv (fst s)))(i := x)" and "next_connection (srv m') = next_connection (srv (fst s))"
    and "i < next_connection (srv (fst s))" and "\<And>t' c'. x = Some (t', c') \<Longrightarrow> kept i bs c'"
  shows "contract_kept kept (m', (snd s)(i := bs))"
  using assms by (auto simp: contract_kept_def split: if_splits)

lemma contract_step:
  assumes ok: "machine_ok n (fst s)" and inv: "contract_kept kept s" and allowed: "traced_allowed proper s op"
  shows "contract_kept kept (traced_step disp run_cb s op)"
proof -
  obtain m arrived where s: "s = (m, arrived)" by (cases s)
  have allowed': "machine_allowed m op" using allowed by (simp add: traced_allowed_def s)
  have T: "tables_ok n m" using ok by (simp add: machine_ok_def s)
  show ?thesis
  proof (cases "\<exists>r a h ts. op = RunTask r a \<and> batches m r = Call (Some h) # ts")
    case False
    then have rd: "reading m op = None" by (auto simp: reading_def split: machine_op.split list.split loop_task.split option.split)
    have "m_connections (srv (machine_step disp run_cb m op)) = m_connections (srv m)
        \<and> next_connection (srv (machine_step disp run_cb m op)) = next_connection (srv m)"
      using machine_step_other [OF rd] False by blast
    with rd inv show ?thesis by (simp add: s contract_kept_def traced_step_def)
  next
    case True
    then obtain r a h ts where op: "op = RunTask r a" and b: "batches m r = Call (Some h) # ts" by blast
    have r: "r \<in> threads (srv m)" and blocks: "reserved (ans_blocks (a OnAccept))" using allowed' op by simp_all
    note step = machine_step_handler [OF b, of disp run_cb a]
    have owned: "\<exists>t c. m_connections (srv m) i = Some (t, c) \<and> conn_ok i c (srv m) \<and> i < next_connection (srv m)"
      if h: "handler_conn h = Some i" for i
    proof -
      obtain fd where "(i, fd) \<in> owned r (srv m)"
        using loop_okD(7) [OF machine_okD(1) [OF ok [unfolded s fst_conv] r], of i] b h by auto
      with tables_okD(1,3) [OF T] show ?thesis by (auto simp: owned_def server_inv_def)
    qed
    show ?thesis
    proof (cases h)
      case (OnRead i)
      then obtain t c where c: "m_connections (srv m) i = Some (t, c)" "conn_ok i c (srv m)" "i < next_connection (srv m)"
        using owned [of i] by auto
      let ?script = "ans_read (a (OnRead i))" and ?c = "refreshed t (srv m) c"
      have rd: "reading m op = Some (i, ?script)" using op b OnRead by (simp add: reading_def)
      have "kept i (arrived i) c" using inv c(1) by (auto simp: contract_kept_def s)
      note R = refreshed_kept [OF this c(2), of t]
      have "proper i (m_in_buffer ?c) ?script" using allowed rd c(1) R(3) by (simp add: traced_allowed_def s)
      note closed = contract_read [OF R(1,2) this]
      have "srv (machine_step disp run_cb m op) = with_connection i (after_onRead disp run_cb ?script) (srv m)"
        unfolding op step OnRead run_handler_def by (simp add: after_onRead_def [abs_def])
      with kept_update [OF inv, of i t c "machine_step disp run_cb m op" _ "arrived i @ segment ?script"] closed
        with_connection_conns [OF c(1), of "after_onRead disp run_cb ?script"] c rd show ?thesis
        by (auto simp: s traced_step_def conn_closed_def split: if_splits)
    next
      case (OnWrite i)
      then obtain t c where c: "m_connections (srv m) i = Some (t, c)" "conn_ok i c (srv m)" "i < next_connection (srv m)"
        using owned [of i] by auto
      let ?script = "ans_write (a (OnWrite i))" and ?c = "refreshed t (srv m) c"
      have rd: "reading m op = None" using op b OnWrite by (simp add: reading_def)
      have "kept i (arrived i) c" using inv c(1) by (auto simp: contract_kept_def s)
      note R = refreshed_kept [OF this c(2), of t]
      note w = contract_write [OF R(1,2), of ?script]
      have "srv (machine_step disp run_cb m op) = with_connection i (after_onWrite run_cb ?script) (srv m)"
        unfolding op step OnWrite run_handler_def by (simp add: after_onWrite_def [abs_def])
      with kept_update [OF inv, of i t c "machine_step disp run_cb m op" _ "arrived i"] w
        with_connection_conns [OF c(1), of "after_onWrite run_cb ?script"] c rd show ?thesis
        by (auto simp: s traced_step_def split: if_splits)
    next
      case OnAccept
      have rd: "reading m op = None" using op b OnAccept by (simp add: reading_def)
      show ?thesis
      proof (cases "onAccept (ans_accept (a h)) (ans_again (a h)) (ans_peer (a h)) (fst (ans_blocks (a h))) (snd (ans_blocks (a h))) (srv m)")
        case (Inl e)
        with step op OnAccept rd inv show ?thesis by (simp add: contract_kept_def traced_step_def s run_handler_def)
      next
        case (Inr s')
        have s': "srv (machine_step disp run_cb m op) = s'" using step op OnAccept Inr by (simp add: run_handler_def)
        have blocks': "length (fst (ans_blocks (a h))) = 1024" "length (snd (ans_blocks (a h))) = 1024"
          using blocks OnAccept by (simp_all add: reserved_def)
        from onAccept_conns [OF Inr blocks'] consider "s' = srv m"
          | t c where "m_connections s' = (m_connections (srv m))(next_connection (srv m) \<mapsto> (t, c))"
              "next_connection s' = next_connection (srv m) + 1" "kept (next_connection (srv m)) [] c"
          using contract_new by metis
        then show ?thesis
          by cases (use inv rd s' in \<open>auto simp: contract_kept_def traced_step_def s\<close>)
      qed
    qed (use step op b inv in \<open>auto simp: contract_kept_def traced_step_def s reading_def run_handler_def Let_def split: option.split\<close>)
  qed
qed

end

sublocale connection_contract \<subseteq> traced: stepwise_invariant "traced_step disp run_cb" "traced_allowed proper"
    "\<lambda>s. machine_ok n (fst s) \<and> contract_kept kept s" for n
  using server_machine.inv_step contract_step by unfold_locales (auto simp: traced_allowed_def)

context connection_contract
begin

lemma contract_run:
  assumes start: "server_started acceptor l io_threads loops sz w objects m0"
    and run: "run_allowed (traced_step disp run_cb) (traced_allowed proper) (m0, \<lambda>_. []) ops"
    and m: "(m, arrived) = run_steps (traced_step disp run_cb) (m0, \<lambda>_. []) ops"
  shows "contract_kept kept (m, arrived)" "machine_ok (nat io_threads) m"
proof -
  have "m_connections (srv m0) = Map.empty"
    using start by (auto simp: server_started_def TcpServer_init_def machine_new_def Let_def split: sum.splits if_splits)
  then have "contract_kept kept (m0, \<lambda>_. [])" by (simp add: contract_kept_def)
  with traced.inv_run [OF _ run, of "nat io_threads"] machine_ok_start [OF start]
  show "contract_kept kept (m, arrived)" "machine_ok (nat io_threads) m" by (simp_all flip: m)
qed

end

end
