(* ===== verification/ServerContracts.thy ===== *)
theory ServerContracts
  imports ServerStreams
begin

text \<open>
  Two contracts of a server's connections, kept under every interleaving: the soundness of its state,
  and the correspondence between the bytes that arrived on it and the responses it wrote.
\<close>

section \<open>Handlers of a server's connection\<close>

text \<open>The closures of clients play no role on the server's side.\<close>

lemma server_run_cb:
  assumes "m_conn_type c = TcpConnectionByServer"
  shows "onRead disp run_cb script c = onRead disp (\<lambda>_ _ c. c) script c"
    and "onWrite run_cb accepts c = onWrite (\<lambda>_ _ c. c) accepts c"
proof -
  show "onRead disp run_cb script c = onRead disp (\<lambda>_ _ c. c) script c"
    using assms by (auto simp: onRead_def execute_def conn_deleteEpollEvent_def Let_def split: option.split sum.split)
  obtain b s how where "write_loop accepts (m_out_buffer c) [] = (b, s, how)" by (metis prod_cases3)
  then show "onWrite run_cb accepts c = onWrite (\<lambda>_ _ c. c) accepts c"
    using assms by (simp add: onWrite_def Let_def conn_addEpollEvent_def)
qed

definition serving :: "('k, 'w) tcp_connection \<Rightarrow> bool" where
  "serving c \<longleftrightarrow> wf_conn 1024 c \<and> m_state c = Connected
     \<and> (content (m_out_buffer c) \<noteq> [] \<longrightarrow> listens OUT_EVENT (conn_event c))"

lemma execute_serving:
  assumes "execute disp run_cb c = Some (Inr c')" and "m_conn_type c = TcpConnectionByServer"
  shows "m_state c' = m_state c \<and> (m_out_buffer c' = m_out_buffer c \<and> conn_event c' = conn_event c \<or> listens OUT_EVENT (conn_event c'))"
  using assms by (auto simp: execute_def Let_def split: option.splits sum.splits if_splits)

lemma onRead_closed:
  assumes "m_state c = Connected" and "m_remove_conn_cb c" and "read_loop (m_in_buffer c) Connected script = Some (b, Closed, False)"
  shows "conn_closed c (after_onRead disp run_cb script c)"
  using assms by (simp add: after_onRead_def onRead_def Let_def conn_closed_def conn_same_def call_remove_conn_cb_def
      conn_close_event_def conn_deleteEpollEvent_def close_event_def closed_loop_def)

lemma serving_read:
  assumes c: "serving c" "m_conn_type c = TcpConnectionByServer" "m_remove_conn_cb c"
  shows "conn_closed c (after_onRead disp run_cb script c) \<or> serving (after_onRead disp run_cb script c)"
proof -
  obtain b st failed where rd: "read_loop (m_in_buffer c) Connected script = Some (b, st, failed)" "roomy b"
    "m_size b = m_size (m_in_buffer c)" "st = Connected \<or> st = Closed" "failed \<longrightarrow> st = Connected"
    using read_loop_total [of "m_in_buffer c" Connected script] c(1) by (auto simp: serving_def wf_conn_def)
  let ?c = "c\<lparr>m_in_buffer := b, m_state := st\<rparr>"
  have wf: "wf_conn 1024 ?c" using rd(2,3) c(1) by (simp add: serving_def wf_conn_def)
  consider "failed" "st = Connected" | "\<not> failed" "st = Closed" | "\<not> failed" "st = Connected" using rd(4,5) by blast
  then show ?thesis
  proof cases
    case 1
    with rd c wf show ?thesis by (simp add: after_onRead_def onRead_def serving_def Let_def)
  next
    case 2
    with onRead_closed [OF _ c(3)] rd(1) c(1) show ?thesis by (simp add: serving_def)
  next
    case 3
    then have run: "onRead disp run_cb script c = execute disp run_cb ?c"
      using rd(1) c(1) by (simp add: onRead_def serving_def Let_def)
    show ?thesis
    proof (cases "\<exists>c'. execute disp run_cb ?c = Some (Inr c')")
      case True
      then obtain c' where c': "execute disp run_cb ?c = Some (Inr c')" by blast
      have "wf_conn 1024 c'"
        using wf_conn_onRead [of 1024 c "\<lambda>_ _ c. c" disp script c'] run c' c server_run_cb(1) [OF c(2), of disp run_cb script]
        by (simp add: keeps_buffers_def serving_def)
      with execute_serving [OF c'] c 3 run c' show ?thesis by (auto simp: after_onRead_def serving_def)
    next
      case False
      then have "after_onRead disp run_cb script c = c"
        using run by (auto simp: after_onRead_def split: option.split sum.split)
      with c(1) show ?thesis by simp
    qed
  qed
qed

lemma onWrite_total:
  assumes "serving c" and "m_conn_type c = TcpConnectionByServer"
  shows "\<exists>c' s. onWrite run_cb accepts c = Some c' \<and> serving c' \<and> m_sent c' = m_sent c @ s
     \<and> content (m_out_buffer c) = s @ content (m_out_buffer c') \<and> m_in_buffer c' = m_in_buffer c"
proof (cases "content (m_out_buffer c) = []")
  case True
  then have "onWrite run_cb accepts c = Some c"
    using assms content_Nil_iff [of "m_out_buffer c"] by (simp add: onWrite_def serving_def wf_conn_def Let_def)
  with assms(1) show ?thesis by simp
next
  case False
  have wf: "wf_buffer (m_out_buffer c)" using assms(1) by (simp add: serving_def wf_conn_def)
  then have "readAvailable (m_out_buffer c) \<noteq> 0" using False by (simp add: content_Nil_iff)
  moreover obtain b s how where wl: "write_loop accepts (m_out_buffer c) [] = (b, s, how)" "wf_buffer b"
    "content (m_out_buffer c) = s @ content b" "how = AllSent \<longleftrightarrow> content b = []"
    using write_loop_facts [OF wf False, of accepts "[]"] by auto
  ultimately show ?thesis
    using assms False by (cases how) (auto simp: onWrite_def Let_def serving_def wf_conn_def)
qed

interpretation serving: connection_contract disp run_cb "\<lambda>_ _ _. True" "\<lambda>_ _ c. serving c"
  for disp :: "'w dispatching" and run_cb :: "('k, 'w) runner"
proof unfold_locales
  fix i bs and c :: "('k, 'w) tcp_connection" and accepts
  assume "serving c" "server_conn i c"
  then show "serving (after_onWrite run_cb accepts c)"
    using onWrite_total [of c run_cb accepts] by (auto simp: after_onWrite_def server_conn_def)
qed (simp_all add: serving_read server_conn_def fresh_conn_def, auto simp: serving_def)

section \<open>Requests that arrived and responses that were written\<close>

definition answered :: "('app, 'pb) dispatcher \<Rightarrow> tinypb_protocol \<Rightarrow> tinypb_protocol \<Rightarrow> bool" where
  "answered d req resp \<longleftrightarrow> (\<exists>w w'. dispatching d (TinyPB req) w = Inr (resp, w'))"

definition replied :: "('app, 'pb) dispatcher \<Rightarrow> byte list \<Rightarrow> ('k, runtime \<times> 'app) tcp_connection \<Rightarrow> bool" where
  "replied d bs c \<longleftrightarrow> (\<exists>reqs resps. parse_stream bs = Some (reqs, content (m_in_buffer c)) \<and> list_all2 (answered d) reqs resps
     \<and> m_sent c @ content (m_out_buffer c) = concat (map wire resps))"

text \<open>What the contract asks of the reads of connection \<open>i0\<close>: a segment leaves a byte of the input buffer free, and
  no frame of it has a negative or an inconsistent length.\<close>

definition fitting :: "nat \<Rightarrow> nat \<Rightarrow> tcp_buffer \<Rightarrow> sock_read list \<Rightarrow> bool" where
  "fitting i0 i b script \<longleftrightarrow>
     (i = i0 \<longrightarrow> (case script of
        Bytes bs # _ \<Rightarrow> int (length bs) < writeAvailable b \<and> parse_stream (content b @ bs) \<noteq> None
      | _ \<Rightarrow> True))"

lemma answered_all:
  "dispatch_all (dispatching d) reqs w = Inr (resps, w') \<Longrightarrow> list_all2 (answered d) reqs resps"
proof (induction reqs arbitrary: w resps)
  case (Cons req reqs)
  then obtain resp w1 rest where one: "dispatching d (TinyPB req) w = Inr (resp, w1)"
    and rest: "dispatch_all (dispatching d) reqs w1 = Inr (rest, w')" "resps = resp # rest"
    by (auto split: sum.splits)
  have "answered d req resp" unfolding answered_def using one by blast
  with Cons.IH [OF rest(1)] rest(2) show ?case by simp
qed simp

lemma parse_stream_rest: "parse_stream xs = Some (ms, r) \<Longrightarrow> parse_stream r = Some ([], r)"
  using parse_stream_incremental [of xs ms r "[]"] by (cases "parse_stream r") auto

lemma read_nothing:
  assumes c: "serving c" "m_conn_type c = TcpConnectionByServer" and p: "parse_stream (content (m_in_buffer c)) = Some ([], content (m_in_buffer c))"
    and script: "script = [] \<or> hd script = WouldBlock \<or> hd script = ReadError"
  shows "\<exists>b. after_onRead disp run_cb script c = c\<lparr>m_in_buffer := b\<rparr> \<and> content b = content (m_in_buffer c)"
proof -
  have room: "roomy (m_in_buffer c)" using c(1) by (simp add: serving_def wf_conn_def)
  then have free: "0 < writeAvailable (m_in_buffer c)" by (simp add: roomy_def writeAvailable_def)
  consider "script = [] \<or> hd script = WouldBlock" | "script \<noteq> []" "hd script = ReadError" using script by blast
  then show ?thesis
  proof cases
    case 1
    then have "read_loop (m_in_buffer c) Connected script = Some (m_in_buffer c, Connected, False)"
      using free by (cases script; subst read_loop.simps) (auto simp: Let_def)
    then have "onRead disp run_cb script c = execute disp run_cb (c\<lparr>m_in_buffer := m_in_buffer c, m_state := m_state c\<rparr>)"
      using c(1) by (simp add: onRead_def serving_def Let_def)
    then have run: "onRead disp run_cb script c = execute disp run_cb c" by simp
    obtain b where "tinypb_decode (m_in_buffer c) = Some (Inr ([], b))" "content b = content (m_in_buffer c)"
      using decode_content [OF room p] by auto
    with c(2) show ?thesis by (auto simp: after_onRead_def run execute_def Let_def)
  next
    case 2
    then have "read_loop (m_in_buffer c) Connected script = Some (m_in_buffer c, Connected, True)"
      using free by (cases script; subst read_loop.simps) (auto simp: Let_def)
    then have "onRead disp run_cb script c = Some (Inr (c\<lparr>m_in_buffer := m_in_buffer c, m_state := m_state c\<rparr>))"
      using c(1) by (simp add: onRead_def serving_def Let_def)
    then have "after_onRead disp run_cb script c = c\<lparr>m_in_buffer := m_in_buffer c\<rparr>" by (simp add: after_onRead_def)
    then show ?thesis by blast
  qed
qed

lemma replied_read:
  assumes c: "serving c" "server_conn i c" and rep: "replied d bs c" and fit: "fitting i i (m_in_buffer c) script"
  shows "conn_closed c (after_onRead (dispatching d) run_cb script c)
     \<or> replied d (bs @ segment script) (after_onRead (dispatching d) run_cb script c)"
proof -
  have ty: "m_conn_type c = TcpConnectionByServer" "m_remove_conn_cb c" using c(2) by (simp_all add: server_conn_def)
  obtain reqs resps where r: "parse_stream bs = Some (reqs, content (m_in_buffer c))" "list_all2 (answered d) reqs resps"
    "m_sent c @ content (m_out_buffer c) = concat (map wire resps)" using rep by (auto simp: replied_def)
  consider (idle) "script = [] \<or> hd script = WouldBlock \<or> hd script = ReadError"
    | (eof) rest where "script = Bytes [] # rest"
    | (seg) xs rest where "script = Bytes xs # rest" "xs \<noteq> []"
    by (metis neq_Nil_conv list.sel(1) sock_read.exhaust)
  then show ?thesis
  proof cases
    case idle
    have "segment script = []" unfolding segment_def using idle by (elim disjE) (auto split: list.split sock_read.split)
    then show ?thesis using read_nothing [OF c(1) ty(1) parse_stream_rest [OF r(1)] idle, of "dispatching d" run_cb] r
      by (auto simp: replied_def)
  next
    case eof
    have "0 < writeAvailable (m_in_buffer c)" using c(1) by (simp add: serving_def wf_conn_def roomy_def writeAvailable_def)
    then have "\<exists>b. read_loop (m_in_buffer c) Connected script = Some (b, Closed, False)"
      by (subst read_loop.simps) (simp add: eof Let_def)
    then show ?thesis using onRead_closed [OF _ ty(2), of script] c(1) by (auto simp: serving_def)
  next
    case seg
    then have fits: "int (length xs) < writeAvailable (m_in_buffer c)" using fit by (simp add: fitting_def)
    obtain reqs' rest' where p: "parse_stream (content (m_in_buffer c) @ xs) = Some (reqs', rest')"
      using fit seg by (auto simp: fitting_def)
    obtain resps' w' where all: "dispatch_all (dispatching d) reqs' (m_world c) = Inr (resps', w')"
      using dispatch_all_total by blast
    from server_onRead [OF _ _ ty(1) seg(2) fits p all, of 1024 run_cb rest] c(1) obtain c' where
      c': "onRead (dispatching d) run_cb script c = Some (Inr c')" "content (m_in_buffer c') = rest'"
        "content (m_out_buffer c') = content (m_out_buffer c) @ concat (map wire resps')" "m_sent c' = m_sent c"
      by (auto simp: seg serving_def)
    have "parse_stream (bs @ xs) = Some (reqs @ reqs', rest')" using parse_stream_incremental [OF r(1), of xs] p by simp
    moreover have "list_all2 (answered d) (reqs @ reqs') (resps @ resps')"
      using r(2) answered_all [OF all] by (rule list_all2_appendI)
    moreover have "m_sent c' @ content (m_out_buffer c') = concat (map wire (resps @ resps'))" using c'(3,4) r(3) by simp
    ultimately show ?thesis using c' seg by (auto simp: replied_def after_onRead_def segment_def)
  qed
qed

interpretation replying: connection_contract "dispatching d" run_cb "fitting i0"
    "\<lambda>i bs c. serving c \<and> (i = i0 \<longrightarrow> replied d bs c)"
  for d :: "('app, 'pb) dispatcher" and run_cb :: "('k, runtime \<times> 'app) runner" and i0
proof unfold_locales
  fix i bs and c :: "('k, runtime \<times> 'app) tcp_connection" and script accepts
  assume c: "serving c \<and> (i = i0 \<longrightarrow> replied d bs c)" "server_conn i c"
  then have ty: "m_conn_type c = TcpConnectionByServer" "m_remove_conn_cb c" by (simp_all add: server_conn_def)
  let ?r = "after_onRead (dispatching d) run_cb script c" and ?w = "after_onWrite run_cb accepts c"
  show "conn_closed c ?r \<or> (serving ?r \<and> (i = i0 \<longrightarrow> replied d (bs @ segment script) ?r))"
    if "fitting i0 i (m_in_buffer c) script"
    using serving_read [of c "dispatching d" run_cb script] replied_read [of c i0 d bs script run_cb] c ty that by auto
  show "serving ?w \<and> (i = i0 \<longrightarrow> replied d bs ?w)"
    using onWrite_total [of c run_cb accepts] c ty by (auto simp: after_onWrite_def replied_def)
next
  fix i and c :: "('k, runtime \<times> 'app) tcp_connection"
  assume "server_conn i c" "fresh_conn c"
  moreover have "parse_stream [] = Some ([], [])" by (rule parse_stream_Nil)
  ultimately show "serving c \<and> (i = i0 \<longrightarrow> replied d [] c)"
    by (force simp: serving_def replied_def fresh_conn_def)
qed (auto simp: serving_def replied_def)

section \<open>Runs\<close>

lemma traced_any:
  "run_allowed (machine_step disp run_cb) machine_allowed (fst s) ops
     \<Longrightarrow> run_allowed (traced_step disp run_cb) (traced_allowed (\<lambda>_ _ _. True)) s ops"
proof (induction ops arbitrary: s)
  case (Cons op ops)
  then have "traced_allowed (\<lambda>_ _ _. True) s op" by (simp add: traced_allowed_def split: option.split)
  with Cons.prems Cons.IH [of "traced_step disp run_cb s op"] show ?case by simp
qed simp

text \<open>A run in which no read returns anything records nothing and meets \<open>fitting\<close>.\<close>

definition quiet :: "'k machine_op \<Rightarrow> bool" where
  "quiet op \<longleftrightarrow> (\<forall>r a h. op = RunTask r a \<longrightarrow> ans_read (a h) = [])"

lemma traced_quiet:
  assumes "list_all quiet ops" and "run_allowed (machine_step disp run_cb) machine_allowed (fst s) ops"
  shows "run_allowed (traced_step disp run_cb) (traced_allowed (fitting i)) s ops
     \<and> run_steps (traced_step disp run_cb) s ops = (run_steps (machine_step disp run_cb) (fst s) ops, snd s)"
  using assms
proof (induction ops arbitrary: s)
  case (Cons op ops)
  have no: "script = []" if "reading (fst s) op = Some (j, script)" for j script
    using that Cons.prems(1)
    by (auto simp: reading_def quiet_def split: machine_op.splits list.splits loop_task.splits option.splits handler.splits)
  then have "traced_allowed (fitting i) s op"
    using Cons.prems(2) by (auto simp: traced_allowed_def fitting_def split: option.split)
  moreover have "snd (traced_step disp run_cb s op) = snd s"
    using no by (auto simp: traced_step_def segment_def split: option.split)
  ultimately show ?case using Cons.prems Cons.IH [of "traced_step disp run_cb s op"] by simp
qed simp

lemma connections_serve:
  assumes "server_started acceptor l io_threads loops sz w objects m0"
    and "run_allowed (machine_step disp run_cb) machine_allowed m0 ops"
    and "m_connections (srv (run_steps (machine_step disp run_cb) m0 ops)) i = Some (t, c)"
  shows "serving c"
proof -
  let ?s = "run_steps (traced_step disp run_cb) (m0, \<lambda>_. []) ops"
  have "run_allowed (traced_step disp run_cb) (traced_allowed (\<lambda>_ _ _. True)) (m0, \<lambda>_. []) ops"
    using assms(2) by (intro traced_any) simp
  from serving.contract_run(1) [OF assms(1) this, of "fst ?s" "snd ?s"]
  have "contract_kept (\<lambda>_ _ c. serving c) ?s" by simp
  with assms(3) show ?thesis by (auto simp: contract_kept_def traced_run)
qed

text \<open>The effect of a handler of a connection that stays open.\<close>

lemma handled_connection:
  assumes ok: "machine_ok n m" and allowed: "machine_allowed m (RunTask (Io t) a)"
    and b: "batches m (Io t) = Call (Some h) # ts" "handler_conn h = Some i" and c: "m_connections (srv m) i = Some (t, c)"
    and f: "run_handler disp run_cb (a h) (Io t) h (srv m) = with_connection i f (srv m)"
    and kept: "conn_kept (refreshed t (srv m) c) (f (refreshed t (srv m) c))"
  shows "let s' = srv (machine_step disp run_cb m (RunTask (Io t) a)); c' = f (refreshed t (srv m) c) in
       m_connections s' i = Some (t, c') \<and> server_world s' = m_world c' \<and> conn_ok i c' s'
     \<and> kernel_table (m_epoll_calls (io_loops s' ! t)) (m_fd (conn_event c')) = Some (m_events (conn_event c'))
     \<and> m_pending_tasks (io_loops s' ! t) = m_pending_tasks (io_loops (srv m) ! t)
     \<and> m_stop_flag (io_loops s' ! t) = m_stop_flag (io_loops (srv m) ! t)"
proof -
  let ?c = "refreshed t (srv m) c" and ?m = "machine_step disp run_cb m (RunTask (Io t) a)"
  define c' where "c' = f ?c"
  have r: "Io t \<in> threads (srv m)" using allowed by simp
  note D = tables_okD [OF machine_okD(3) [OF ok r]]
  have me: "conn_ok i c (srv m)" using D(3) [OF c] .
  have ev: "conn_event ?c = conn_event c" "conn_loop ?c = io_loops (srv m) ! t" using me by (simp_all add: refreshed_def conn_ok_def)
  have s': "srv ?m = written_back i t (nat (m_fd (conn_event c))) c' (srv m)"
    using machine_step_handler [OF b(1), of disp run_cb a] f with_connection_shape(1) [where f = f, OF c _ kept] me
    by (simp add: c'_def conn_ok_def)
  have ok': "machine_ok n ?m" by (rule server_machine.inv_step [OF ok allowed])
  have conn': "m_connections (srv ?m) i = Some (t, c')" using s' by (simp add: written_back_def)
  obtain fd where "(i, fd) \<in> owned (Io t) (srv m)" "fd \<in> m_listen_fds (get_loop (Io t) (srv m))"
    using loop_okD(7) [OF machine_okD(1) [OF ok r], of i] b by auto
  then have "m_fd (conn_event c) \<in> m_listen_fds (io_loops (srv m) ! t)" using c by (auto simp: owned_def get_loop_def)
  moreover have "m_fd (conn_event c') = m_fd (conn_event c)" "m_listen_fds (io_loops (srv m) ! t) \<subseteq> m_listen_fds (conn_loop c')"
    using kept ev by (auto simp: conn_kept_def c'_def)
  moreover have t: "t < length (io_loops (srv m))" using r by (simp add: threads_def image_iff)
  ultimately have watched: "m_fd (conn_event c') \<in> m_listen_fds (get_loop (Io t) (srv ?m))"
    unfolding s' by (auto simp: written_back_def get_loop_def)
  have r': "Io t \<in> threads (srv ?m)" using t unfolding s' by (simp add: written_back_def threads_def)
  have own': "(i, m_fd (conn_event c')) \<in> owned (Io t) (srv ?m)" using conn' by (auto simp: owned_def)
  have me': "conn_ok i c' (srv ?m)" using tables_okD(3) [OF machine_okD(3) [OF ok' r'] conn'] .
  then have "kernel_table (m_epoll_calls (io_loops (srv ?m) ! t)) (m_fd (conn_event c')) = Some (m_events (conn_event c'))"
    using loop_okD(4) [OF machine_okD(1) [OF ok' r'] own' watched] by (simp add: get_loop_def wanted_mask_def conn_ok_def)
  moreover have "server_world (srv ?m) = m_world c'" unfolding s' by (simp add: written_back_def)
  moreover have "m_pending_tasks (conn_loop c') = m_pending_tasks (io_loops (srv m) ! t)"
    "m_stop_flag (conn_loop c') = m_stop_flag (io_loops (srv m) ! t)"
    using kept ev by (auto simp: conn_kept_def c'_def ADD_TO_EPOLL_def Let_def)
  then have "m_pending_tasks (io_loops (srv ?m) ! t) = m_pending_tasks (io_loops (srv m) ! t)"
    "m_stop_flag (io_loops (srv ?m) ! t) = m_stop_flag (io_loops (srv m) ! t)" using t unfolding s' by (simp_all add: written_back_def)
  ultimately show ?thesis using conn' me' by (simp add: Let_def flip: c'_def)
qed

end
