(* ===== verification/ServerProperties.thy ===== *)
theory ServerProperties
  imports ServerContracts
begin

text \<open>
  The running server from its construction on: where handlers run, what is watched, how a round of a
  loop serves a connection, and the wakeup that a loop can miss.
\<close>

section \<open>A round\<close>

text \<open>
  C15: The steps of one thread from the swap of its queue to the result of \<open>epoll_wait\<close> are one round of
  \<open>EventLoop::loop\<close> with the handlers of the server, however many tasks the queue holds.
\<close>

theorem machine_round:
  assumes "r \<in> threads (srv m)"
  shows "let ops = Swap r # replicate (length (m_pending_tasks (get_loop r (srv m)))) (RunTask r a) @ [Waited r evs];
             m' = run_steps (machine_step disp run_cb) m ops
         in srv m' = unview r (loop_round (server_exec disp run_cb (loop_objects m) r a) (Epoll_events evs)
                       (view (loop_objects m) r (srv m)))
          \<and> batches m' r = [] \<and> \<not> draining m' r"
proof -
  let ?l = "get_loop r (srv m)" and ?exec = "server_exec disp run_cb (loop_objects m) r a"
  define ts where "ts = m_pending_tasks ?l"
  define m1 where "m1 = machine_step disp run_cb m (Swap r)"
  define v where "v = (view (loop_objects m) r (srv m))\<lparr>m_loop := ?l\<lparr>m_pending_tasks := []\<rparr>\<rparr>"
  define v' where "v' = foldl (\<lambda>v t. run_task ?exec t v) v ts"
  have m1: "batches m1 r = ts" "r \<in> threads (srv m1)" "loop_objects m1 = loop_objects m"
    "srv m1 = unview r v"
    using assms by (simp_all add: m1_def ts_def v_def)
  have valid: "valid_view (loop_objects m) r v" using assms by (simp add: v_def valid_view_view)
  have v': "valid_view (loop_objects m) r v'"
    "unview r v' = foldl (\<lambda>s t. unview r (run_task ?exec t (view (loop_objects m) r s))) (unview r v) ts"
    using run_tasks_view [OF valid, of disp run_cb a ts] by (simp_all add: Let_def v'_def)
  have "loop_round ?exec (Epoll_events evs) (view (loop_objects m) r (srv m)) = foldl handle_event v' evs"
    by (simp add: loop_round_def run_pending_def Let_def v'_def v_def ts_def)
  moreover define m2 where "m2 = m1\<lparr>batches := (batches m1)(r := []), srv := unview r v'\<rparr>"
  then have "run_steps (machine_step disp run_cb) m1 (replicate (length ts) (RunTask r a)) = m2"
    using run_batch [OF m1(1,2), of disp run_cb a] v'(2) m1(3,4) by simp
  moreover have "loop_objects m2 = loop_objects m" "srv m2 = unview r v'" "batches m2 r = []"
    using m1(3) by (simp_all add: m2_def)
  ultimately show ?thesis
    unfolding Let_def run_steps.simps run_steps_append ts_def [symmetric] m1_def [symmetric]
    using handle_events_view [OF v'(1), of evs] by simp
qed

theorem machine_round_witness:
  "srv (run_steps (machine_step (\<lambda>_ _. Inl NullPointer) (\<lambda>_ _ c. c)) (machine_new demo_server demo_objects) [Swap Main, Waited Main [(Some 6, EPOLLIN)]])
     = unview Main (loop_round (server_exec (\<lambda>_ _. Inl NullPointer) (\<lambda>_ _ c. c) demo_objects Main (demo_answers 9)) (Epoll_events [(Some 6, EPOLLIN)])
         (view demo_objects Main demo_server))"
  using machine_round [of Main "machine_new demo_server demo_objects" "demo_answers 9" "[(Some 6, EPOLLIN)]" "\<lambda>_ _. Inl NullPointer" "\<lambda>_ _ c. c"]
  by (simp add: machine_new_def threads_def get_loop_def demo_fields Let_def)

section \<open>Where handlers run, and what is watched\<close>

text \<open>
  C12: From the construction of the server on, in every interleaving of the handlers of its threads with
  any results of the system calls, the handler of a connection is only ever started while that connection
  is alive, by the thread the connection was given to, and with the connection's own event; so the raw
  \<open>this\<close> bound in the handler points to a live object when the handler begins, and the thread-local branch
  that the handlers take in \<open>addEpollEvent\<close> is right.  It says nothing about the rest of the handler: one
  that closes its connection destroys the object it runs on (\<open>closing_destroys_running_connection\<close>).
\<close>

theorem handlers_run_on_own_connections:
  assumes "server_started acceptor l io_threads loops sz w objects m0"
    and "run_allowed (machine_step disp run_cb) machine_allowed m0 ops"
    and "m = run_steps (machine_step disp run_cb) m0 ops"
    and "machine_allowed m (RunTask r a)" and "batches m r = Call (Some h) # ts" and "h = OnRead i \<or> h = OnWrite i"
  shows "\<exists>t c. r = Io t \<and> m_connections (srv m) i = Some (t, c) \<and> m_this c = i
     \<and> server_events (srv m) ! nat (m_fd (conn_event c)) = conn_event c"
proof -
  have ok: "machine_ok (nat io_threads) m" using machine_ok_reachable [OF assms(1,2)] assms(3) by simp
  have r: "r \<in> threads (srv m)" using assms(4) by simp
  obtain fd where "(i, fd) \<in> owned r (srv m)"
    using loop_okD(7) [OF machine_okD(1) [OF ok r], of i] assms(5,6) by auto
  then obtain t c where "r = Io t" "m_connections (srv m) i = Some (t, c)" by (auto simp: owned_def)
  with tables_okD(3) [OF machine_okD(3) [OF ok r]] show ?thesis by (auto simp: conn_ok_def)
qed

text \<open>The run of the witnesses: the main thread accepts a connection, its thread registers it and finds it
  readable.\<close>

definition demo_ready :: "(unit, runtime \<times> nat) server_machine" where
  "demo_ready = demo_machine demo_served ((\<lambda>_. [])(Io 0 := [Call (Some (OnRead 0))])) ((\<lambda>_. False)(Main := True, Io 0 := True))"

lemma demo_run:
  "run_allowed (machine_step d r) machine_allowed (machine_new demo_server demo_objects) (demo_accept @ demo_register)"
  "demo_ready = run_steps (machine_step d r) (machine_new demo_server demo_objects) (demo_accept @ demo_register)"
  using demo_accept_allowed demo_registers_allowed
  by (simp_all add: demo_ready_def run_allowed_append run_steps_append demo_accepts demo_registers)

lemma demo_ready_facts: "srv demo_ready = demo_served" "batches demo_ready (Io 0) = [Call (Some (OnRead 0))]"
  "machine_allowed demo_ready (RunTask (Io 0) (demo_answers (- 1)))"
  by (simp_all add: demo_ready_def demo_machine_def threads_def demo_served_def not_open demo_answers_def accepted_state_def
      demo_fields sample_acceptor_def reserved_def)

lemma demo_served_connection: "m_connections demo_served 0 = Some (0, demo_conn)"
  by (simp add: demo_served_def accepted_state_def demo_fields)

theorem handlers_run_on_own_connections_witness:
  "\<exists>t c. Io 0 = Io t \<and> m_connections demo_served 0 = Some (t, c) \<and> m_this c = 0"
  using handlers_run_on_own_connections [OF demo_started demo_run(1), of demo_ready "\<lambda>_ _. Inl NullPointer" "\<lambda>_ _ c. c"
      "Io 0" "demo_answers (- 1)" "OnRead 0" "[]" 0] demo_run(2) demo_ready_facts by auto

text \<open>
  C13: At every moment every live connection of a server is watched for reading by the loop of its thread,
  with the mask its event asks for, or the task that will register it is still in that loop's queue or batch; and no
  call of \<open>epoll_ctl\<close> by any loop was refused.
\<close>

theorem connections_stay_watched:
  assumes "server_started acceptor l io_threads loops sz w objects m0"
    and "run_allowed (machine_step disp run_cb) machine_allowed m0 ops"
    and "m = run_steps (machine_step disp run_cb) m0 ops"
  shows "(\<forall>i t c. m_connections (srv m) i = Some (t, c) \<longrightarrow>
       (let l = io_loops (srv m) ! t; fd = m_fd (conn_event c) in
          kernel_table (m_epoll_calls l) fd = Some (m_events (conn_event c)) \<and> listens IN_EVENT (conn_event c)
            \<and> AddFd (nat fd) \<notin> set (batches m (Io t) @ m_pending_tasks l)
          \<or> kernel_table (m_epoll_calls l) fd = None \<and> AddFd (nat fd) \<in> set (batches m (Io t) @ m_pending_tasks l)))
     \<and> (\<forall>r \<in> threads (srv m). all_accepted Map.empty (m_epoll_calls (get_loop r (srv m))))"
proof -
  have ok: "machine_ok (nat io_threads) m" using machine_ok_reachable [OF assms(1,2)] assms(3) by simp
  have T: "tables_ok (nat io_threads) m" using ok by (simp add: machine_ok_def)
  note D = tables_okD [OF T]
  have adds: "AddFd p \<in> set ts \<longleftrightarrow> p \<in> set (add_fds ts)" for p and ts :: "'a handler loop_task list"
    by (induction ts) (auto simp: task_add_def split: option.split loop_task.splits)
  have watched: "let l = io_loops (srv m) ! t; fd = m_fd (conn_event c) in
          kernel_table (m_epoll_calls l) fd = Some (m_events (conn_event c)) \<and> listens IN_EVENT (conn_event c)
            \<and> AddFd (nat fd) \<notin> set (batches m (Io t) @ m_pending_tasks l)
          \<or> kernel_table (m_epoll_calls l) fd = None \<and> AddFd (nat fd) \<in> set (batches m (Io t) @ m_pending_tasks l)"
    if c: "m_connections (srv m) i = Some (t, c)" for i t c
  proof -
    let ?fd = "m_fd (conn_event c)"
    note L = machine_okD(1) [OF ok conn_thread(1) [OF D(1) c]]
    have loop: "get_loop (Io t) (srv m) = io_loops (srv m) ! t" by (simp add: get_loop_def)
    have own: "(i, ?fd) \<in> owned (Io t) (srv m)" using c by (auto simp: owned_def)
    have me: "conn_ok i c (srv m)" using D(3) [OF c] .
    then have "wanted_mask (srv m) ?fd = m_events (conn_event c)" "listens IN_EVENT (conn_event c)"
      by (simp_all add: wanted_mask_def conn_ok_def)
    then show ?thesis
      using loop_okD(3) [OF L own] loop_okD(4) [OF L own] loop_okD(1) [OF L] unfolding loop Let_def adds
      by (cases "?fd \<in> m_listen_fds (io_loops (srv m) ! t)") (auto simp: in_sync_def)
  qed
  moreover have "all_accepted Map.empty (m_epoll_calls (get_loop r (srv m)))" if "r \<in> threads (srv m)" for r
    using loop_okD(1) [OF machine_okD(1) [OF ok that]] by (simp add: in_sync_def)
  ultimately show ?thesis by blast
qed

theorem connections_stay_watched_witness:
  "kernel_table (m_epoll_calls (io_loops demo_served ! 0)) 9 = Some (m_events (conn_event demo_conn))
     \<and> listens IN_EVENT (conn_event demo_conn)"
proof -
  have "m_connections (srv demo_ready) 0 = Some (0, demo_conn)" using demo_served_connection demo_ready_facts(1) by simp
  moreover have "m_pending_tasks (io_loops demo_served ! 0) = []" by (simp add: demo_served_def)
  ultimately show ?thesis
    using connections_stay_watched [OF demo_started demo_run(1), of demo_ready "\<lambda>_ _. Inl NullPointer" "\<lambda>_ _ c. c",
        THEN conjunct1, rule_format, of 0 0 demo_conn] demo_run(2) demo_ready_facts(1,2) by (simp add: Let_def)
qed

section \<open>Serving a connection\<close>

lemma read_turn:
  assumes start: "server_started acceptor l io_threads loops sz w objects m0"
    and run: "run_allowed (machine_step (dispatching d) run_cb) machine_allowed m0 ops"
    and m: "m = run_steps (machine_step (dispatching d) run_cb) m0 ops"
    and turn: "machine_allowed m (RunTask (Io t) a)" "batches m (Io t) = Call (Some (OnRead i)) # ts"
    and c: "m_connections (srv m) i = Some (t, c)"
    and "ans_read (a (OnRead i)) = Bytes bs # script" and "bs \<noteq> []" and "int (length bs) < writeAvailable (m_in_buffer c)"
    and "parse_stream (content (m_in_buffer c) @ bs) = Some (reqs, rest)" and "reqs \<noteq> []"
  shows "\<exists>c' resps. let s' = srv (machine_step (dispatching d) run_cb m (RunTask (Io t) a)) in
       m_connections s' i = Some (t, c')
     \<and> dispatch_all (dispatching d) reqs (server_world (srv m)) = Inr (resps, server_world s')
     \<and> content (m_in_buffer c') = rest \<and> content (m_out_buffer c') = content (m_out_buffer c) @ concat (map wire resps)
     \<and> listens OUT_EVENT (conn_event c') \<and> getHandler OUT_EVENT (conn_event c') = Some (OnWrite i)
     \<and> kernel_table (m_epoll_calls (io_loops s' ! t)) (m_fd (conn_event c')) = Some (m_events (conn_event c'))
     \<and> conn_ok i c' s' \<and> m_fd (conn_event c') = m_fd (conn_event c)
     \<and> m_pending_tasks (io_loops s' ! t) = m_pending_tasks (io_loops (srv m) ! t)
     \<and> m_stop_flag (io_loops s' ! t) = m_stop_flag (io_loops (srv m) ! t)"
proof -
  have ok: "machine_ok (nat io_threads) m" using machine_ok_reachable [OF start run] m by simp
  then have me: "conn_ok i c (srv m)" using tables_okD(3) [of "nat io_threads" m, OF _ c] by (simp add: machine_ok_def)
  let ?c = "refreshed t (srv m) c"
  obtain resps w' where all: "dispatch_all (dispatching d) reqs (server_world (srv m)) = Inr (resps, w')"
    using dispatch_all_total [of d reqs "server_world (srv m)"] by blast
  have pre: "wf_conn 1024 ?c" "m_state ?c = Connected" "m_conn_type ?c = TcpConnectionByServer" "m_remove_conn_cb ?c"
    "m_in_buffer ?c = m_in_buffer c" "m_out_buffer ?c = m_out_buffer c" "m_world ?c = server_world (srv m)" "m_this ?c = i"
    "conn_event ?c = conn_event c"
    using connections_serve [OF start run] c m me by (auto simp: refreshed_def serving_def wf_conn_def conn_ok_def)
  obtain c' where read: "onRead (dispatching d) run_cb (Bytes bs # script) ?c = Some (Inr c')"
    and c': "content (m_in_buffer c') = rest" "content (m_out_buffer c') = content (m_out_buffer c) @ concat (map wire resps)"
      "m_world c' = w'" "conn_event c' = listen OUT_EVENT (OnWrite i) (conn_event c)"
    using server_onRead [OF pre(1-3) \<open>bs \<noteq> []\<close>, of reqs rest "dispatching d" resps w' run_cb script] pre assms(9-11) all
    by auto
  have "conn_kept ?c c' \<or> conn_closed ?c c'" by (rule onRead_effect [OF pre(3,4) read])
  moreover have "\<not> listens IN_EVENT (fst (close_event (conn_event c)))" "listens IN_EVENT (conn_event c')"
    using me c'(4) by (simp_all add: conn_ok_def)
  ultimately have kept: "conn_kept ?c c'" using pre(9) by (auto simp: conn_closed_def)
  have after: "after_onRead (dispatching d) run_cb (ans_read (a (OnRead i))) ?c = c'" using read assms(7) by (simp add: after_onRead_def)
  from handled_connection [OF ok turn _ c, where f = "after_onRead (dispatching d) run_cb (ans_read (a (OnRead i)))"] after kept
  show ?thesis using c' all unfolding Let_def
    by (intro exI [of _ c'] exI [of _ resps]) (simp add: run_handler_def after_onRead_def [abs_def] conn_ok_def)
qed

text \<open>
  C14: In a server that runs, when the handler of a readable connection has its turn and the requests of
  the segment it reads are complete, they are dispatched in order, their encoded responses are appended to
  the output buffer of that connection, and its thread's epoll set then watches the descriptor for writing too,
  with \<open>onWrite\<close> of this connection as the handler.
\<close>

theorem loop_serves_requests:
  assumes start: "server_started acceptor l io_threads loops sz w objects m0"
    and run: "run_allowed (machine_step (dispatching d) run_cb) machine_allowed m0 ops"
    and m: "m = run_steps (machine_step (dispatching d) run_cb) m0 ops"
    and turn: "machine_allowed m (RunTask (Io t) a)" "batches m (Io t) = Call (Some (OnRead i)) # ts"
    and c: "m_connections (srv m) i = Some (t, c)"
    and "ans_read (a (OnRead i)) = Bytes bs # script" and "bs \<noteq> []" and "int (length bs) < writeAvailable (m_in_buffer c)"
    and "parse_stream (content (m_in_buffer c) @ bs) = Some (reqs, rest)" and "reqs \<noteq> []"
  shows "\<exists>c' resps. let s' = srv (machine_step (dispatching d) run_cb m (RunTask (Io t) a)) in
       m_connections s' i = Some (t, c')
     \<and> dispatch_all (dispatching d) reqs (server_world (srv m)) = Inr (resps, server_world s')
     \<and> content (m_in_buffer c') = rest \<and> content (m_out_buffer c') = content (m_out_buffer c) @ concat (map wire resps)
     \<and> listens OUT_EVENT (conn_event c') \<and> getHandler OUT_EVENT (conn_event c') = Some (OnWrite i)
     \<and> kernel_table (m_epoll_calls (io_loops s' ! t)) (m_fd (conn_event c')) = Some (m_events (conn_event c'))"
  using read_turn [OF assms] unfolding Let_def by (elim exE) blast

definition demo_request :: "unit handler \<Rightarrow> answers" where
  "demo_request h = (demo_answers (- 1) h)\<lparr>ans_read := [Bytes (wire (echo_request [8, 1]))]\<rparr>"

theorem loop_serves_requests_witness:
  "\<exists>c' resps. m_connections (srv (machine_step (dispatching echo_dispatcher) (\<lambda>_ _ c. c) demo_ready
       (RunTask (Io 0) demo_request))) 0 = Some (0, c')
     \<and> content (m_out_buffer c') = concat (map wire resps) \<and> listens OUT_EVENT (conn_event c')"
proof -
  let ?m = "echo_request [8, 1]"
  have conn: "wf_conn 1024 demo_conn" "m_state demo_conn = Connected" "m_in_buffer demo_conn = TcpBuffer_new block"
    "m_out_buffer demo_conn = TcpBuffer_new block"
    by (simp_all add: demo_conn_def setRemoveConnCb_def setState_def TcpConnection_new_def Let_def listenReadEvent_def
        conn_addEpollEvent_def wf_conn_def sample_buffer_facts wf_TcpBuffer_new)
  have "machine_allowed demo_ready (RunTask (Io 0) demo_request)"
    using demo_ready_facts(3) by (simp add: demo_request_def demo_answers_def)
  moreover have "wire ?m \<noteq> []" using echo_request_wire(1) by auto
  moreover have "int (length (wire ?m)) < writeAvailable (m_in_buffer demo_conn)"
    by (simp add: conn echo_request_wire sample_buffer_facts)
  moreover have "parse_stream (content (m_in_buffer demo_conn) @ wire ?m) = Some ([received ?m], [])"
    by (simp add: conn content_TcpBuffer_new parse_one echo_request_wire)
  moreover have "ans_read (demo_request (OnRead 0)) = [Bytes (wire ?m)]" by (simp add: demo_request_def)
  moreover have "m_connections (srv demo_ready) 0 = Some (0, demo_conn)" using demo_served_connection demo_ready_facts(1) by simp
  moreover have "content (m_out_buffer demo_conn) = []" by (simp add: conn content_TcpBuffer_new)
  ultimately show ?thesis
    using loop_serves_requests [OF demo_started demo_run(1), of demo_ready echo_dispatcher "\<lambda>_ _ c. c" 0 demo_request 0 "[]"
        demo_conn "wire ?m" "[]" "[received ?m]" "[]"] demo_run(2) demo_ready_facts(2)
    by (simp add: Let_def del: machine_step.simps machine_allowed.simps) blast
qed

section \<open>A missed wakeup\<close>

text \<open>
  C37: A wakeup can be lost.  When the main thread accepts a connection between the swap of the queue of an
  I/O thread and the wakeup handler in that batch, the handler clears the eventfd that announces the new
  task: the thread goes to \<open>epoll_wait\<close> with the registration still in its queue and nothing to wake it, so the
  new connection is not watched before some other event or the timeout of the call.
\<close>

theorem wakeup_can_be_lost:
  assumes "t < length (io_loops (srv m))" and "batches m (Io t) = [Call (Some OnWakeup)]"
    and "m_pending_tasks (io_loops (srv m) ! t) = []" and "batches m Main \<noteq> []"
    and "m1 = machine_step disp run_cb m (RunTask Main a)" and "m_pending_tasks (io_loops (srv m1) ! t) = [AddFd p]"
    and "length (io_loops (srv m1)) = length (io_loops (srv m))"
  shows "let m2 = machine_step disp run_cb m1 (RunTask (Io t) b); l = io_loops (srv m2) ! t
     in batches m2 (Io t) = [] \<and> m_pending_tasks l = [AddFd p] \<and> m_wakeups l = 0
      \<and> m_listen_fds l = m_listen_fds (io_loops (srv m1) ! t)"
proof -
  have "batches m1 (Io t) = [Call (Some OnWakeup)]" using assms(2,4,5) by (cases "batches m Main") simp_all
  with assms(1,6,7) show ?thesis
    by (simp add: Let_def run_task_def server_exec_def run_handler_def WakeupFdEvent_onRead_def get_loop_def put_loop_def)
qed

definition demo_woken :: "unit machine_op list" where
  "demo_woken = [Swap (Io 0), RunTask (Io 0) (demo_answers (- 1)), Waited (Io 0) [(Some 7, EPOLLIN)], Swap (Io 0),
     Waited Main [(Some 6, EPOLLIN)], Swap Main]"

definition demo_late :: "(unit, runtime \<times> nat) server_machine" where
  "demo_late = demo_machine demo_served ((\<lambda>_. [])(Io 0 := [Call (Some OnWakeup)], Main := [Call (Some OnAccept)]))
     ((\<lambda>_. False)(Main := True, Io 0 := True))"

lemma getHandler_wakeup: "getHandler IN_EVENT (WakeupFdEvent_new fd) = Some OnWakeup"
  by (simp add: getHandler_def WakeupFdEvent_new_def WakeupFdEvent_init_def)

lemma demo_wakes: "run_steps (machine_step d r) demo_accepted demo_woken = demo_late"
  unfolding demo_woken_def demo_machine_def accepted_state_def demo_served_def demo_accepted_def demo_late_def
  by (simp add: demo_eval getHandler_wakeup) (simp add: fun_eq_iff)

lemma demo_wakes_allowed:
  "run_allowed (machine_step d r) machine_allowed demo_accepted (demo_woken @ [RunTask Main (demo_answers 10), RunTask (Io 0) (demo_answers (- 1))])"
  unfolding demo_woken_def demo_machine_def accepted_state_def demo_accepted_def
  by (simp add: demo_eval getHandler_wakeup) (simp add: FdEvent_new_def)

lemma demo_late_accept:
  "m_pending_tasks (io_loops (srv (machine_step d r demo_late (RunTask Main (demo_answers 10)))) ! 0) = [AddFd 10]"
  "length (io_loops (srv (machine_step d r demo_late (RunTask Main (demo_answers 10))))) = 1"
  unfolding demo_late_def demo_machine_def demo_served_def accepted_state_def
  by (simp_all add: demo_eval) (simp_all add: FdEvent_new_def)

theorem wakeup_can_be_lost_witness:
  "\<exists>ops. run_allowed (machine_step (\<lambda>_ _. Inl NullPointer) (\<lambda>_ _ c. c)) machine_allowed (machine_new demo_server demo_objects) ops
     \<and> (let m = run_steps (machine_step (\<lambda>_ _. Inl NullPointer) (\<lambda>_ _ c. c)) (machine_new demo_server demo_objects) ops; l = io_loops (srv m) ! 0
        in draining m (Io 0) \<and> batches m (Io 0) = [] \<and> m_pending_tasks l = [AddFd 10] \<and> m_wakeups l = 0)"
proof -
  let ?ops = "[RunTask Main (demo_answers 10), RunTask (Io 0) (demo_answers (- 1))]"
  define m1 where "m1 = machine_step (\<lambda>_ _. Inl NullPointer) (\<lambda>_ _ c. c) demo_late (RunTask Main (demo_answers 10))"
  have late: "length (io_loops (srv demo_late)) = 1" "batches demo_late (Io 0) = [Call (Some OnWakeup)]"
    "batches demo_late Main \<noteq> []" "m_pending_tasks (io_loops (srv demo_late) ! 0) = []" "draining demo_late (Io 0)"
    by (simp_all add: demo_late_def demo_machine_def demo_served_def)
  have acc: "m_pending_tasks (io_loops (srv m1) ! 0) = [AddFd 10]" "length (io_loops (srv m1)) = 1"
    unfolding m1_def by (rule demo_late_accept)+
  have "let m2 = machine_step (\<lambda>_ _. Inl NullPointer) (\<lambda>_ _ c. c) m1 (RunTask (Io 0) (demo_answers (- 1))); l = io_loops (srv m2) ! 0
     in batches m2 (Io 0) = [] \<and> m_pending_tasks l = [AddFd 10] \<and> m_wakeups l = 0
      \<and> m_listen_fds l = m_listen_fds (io_loops (srv m1) ! 0)"
    using acc late by (intro wakeup_can_be_lost [OF _ _ _ _ m1_def]) simp_all
  moreover have "draining (machine_step (\<lambda>_ _. Inl NullPointer) (\<lambda>_ _ c. c) m (RunTask q a)) = draining m" for m :: "(unit, runtime \<times> nat) server_machine" and q a
    by (simp split: list.split)
  then have "draining (machine_step (\<lambda>_ _. Inl NullPointer) (\<lambda>_ _ c. c) m1 (RunTask (Io 0) (demo_answers (- 1)))) (Io 0)" using late(5) unfolding m1_def by metis
  moreover have "run_steps (machine_step (\<lambda>_ _. Inl NullPointer) (\<lambda>_ _ c. c)) (machine_new demo_server demo_objects) (demo_accept @ demo_woken @ ?ops)
      = machine_step (\<lambda>_ _. Inl NullPointer) (\<lambda>_ _ c. c) m1 (RunTask (Io 0) (demo_answers (- 1)))"
    unfolding run_steps_append demo_accepts demo_wakes m1_def by simp
  moreover have "run_allowed (machine_step (\<lambda>_ _. Inl NullPointer) (\<lambda>_ _ c. c)) machine_allowed (machine_new demo_server demo_objects) (demo_accept @ demo_woken @ ?ops)"
    unfolding run_allowed_append [of _ _ _ demo_accept] demo_accepts using demo_accept_allowed demo_wakes_allowed by blast
  ultimately show ?thesis by (intro exI [of _ "demo_accept @ demo_woken @ ?ops"]) (simp add: Let_def)
qed

end
