(* ===== verification/ServerReplies.thy ===== *)
theory ServerReplies
  imports ServerProperties
begin

text \<open>
  The end-to-end behaviour of the running server towards each of its clients, under every interleaving
  of the threads and whatever the other clients send.
\<close>

section \<open>The stream of responses\<close>

text \<open>
  C5: Take a server from its construction on, in any interleaving of the handlers of its threads and with
  anything sent by its clients, and a connection each of whose reads leaves a free byte of its input buffer and completes no
  malformed frame (\<open>fitting\<close>; a read that fills the buffer is lost, \<open>full_segment_is_lost\<close>, and a frame
  larger than the buffer blocks it, \<open>oversized_frame_blocks_connection\<close>); nothing is asked of the other
  connections.  At every moment that connection is open: the bytes that arrived on it parse into
  some requests and the rest that its input buffer holds; what was written to its socket together with
  what its output buffer holds is exactly the encodings of the responses to those requests, one for each
  and in their order; and as long as something is left to write, the event of the connection asks for
  writability with \<open>onWrite\<close> of this connection as its handler.
\<close>

theorem server_streams_responses:
  assumes "server_started acceptor l io_threads loops sz w objects m0"
    and "run_allowed (traced_step (dispatching d) run_cb) (traced_allowed (fitting i)) (m0, \<lambda>_. []) ops"
    and "(m, arrived) = run_steps (traced_step (dispatching d) run_cb) (m0, \<lambda>_. []) ops"
    and "m_connections (srv m) i = Some (t, c)"
  shows "\<exists>reqs resps. parse_stream (arrived i) = Some (reqs, content (m_in_buffer c)) \<and> list_all2 (answered d) reqs resps
     \<and> m_sent c @ content (m_out_buffer c) = concat (map wire resps)
     \<and> (content (m_out_buffer c) = [] \<or> listens OUT_EVENT (conn_event c) \<and> getHandler OUT_EVENT (conn_event c) = Some (OnWrite i))"
proof -
  note run = replying.contract_run [OF assms(1-3)]
  have "serving c \<and> replied d (arrived i) c" using run(1) assms(4) by (auto simp: contract_kept_def)
  moreover have "conn_ok i c (srv m)" using run(2) assms(4) tables_okD(3) [of "nat io_threads" m i t c] by (simp add: machine_ok_def)
  ultimately show ?thesis by (auto simp: replied_def serving_def conn_ok_def)
qed

section \<open>A run with one request\<close>

text \<open>The request arrives in the state \<open>demo_ready\<close>, and the thread learns that the socket is writable.\<close>

definition demo_read :: "unit machine_op list" where
  "demo_read = demo_accept @ demo_register @ [RunTask (Io 0) demo_request]"

definition demo_write :: "unit machine_op list" where
  "demo_write = [Waited (Io 0) [(Some 9, EPOLLOUT)], Swap (Io 0)]"

definition demo_runner :: "(unit, runtime \<times> nat) runner" where
  "demo_runner = (\<lambda>_ _ c. c)"

abbreviation demo_step :: "(unit, runtime \<times> nat) traced \<Rightarrow> unit machine_op \<Rightarrow> (unit, runtime \<times> nat) traced" where
  "demo_step \<equiv> traced_step (dispatching echo_dispatcher) demo_runner"

abbreviation demo_start :: "(unit, runtime \<times> nat) traced" where
  "demo_start \<equiv> (machine_new demo_server demo_objects, \<lambda>_. [])"

definition demo_answered :: "(unit, runtime \<times> nat) server_machine" where
  "demo_answered = machine_step (dispatching echo_dispatcher) demo_runner demo_ready (RunTask (Io 0) demo_request)"

lemma demo_registered:
  "run_allowed demo_step (traced_allowed (fitting 0)) demo_start (demo_accept @ demo_register)"
  "run_steps demo_step demo_start (demo_accept @ demo_register) = (demo_ready, \<lambda>_. [])"
proof -
  have "list_all quiet (demo_accept @ demo_register)"
    by (simp add: demo_accept_def demo_register_def quiet_def demo_answers_def)
  from traced_quiet [OF this, of "dispatching echo_dispatcher" demo_runner demo_start 0] demo_run
  show "run_allowed demo_step (traced_allowed (fitting 0)) demo_start (demo_accept @ demo_register)"
    "run_steps demo_step demo_start (demo_accept @ demo_register) = (demo_ready, \<lambda>_. [])" by simp_all
qed

lemma demo_conn_buffers: "wf_conn 1024 demo_conn" "m_state demo_conn = Connected" "m_in_buffer demo_conn = TcpBuffer_new block"
    "m_out_buffer demo_conn = TcpBuffer_new block"
  by (simp_all add: demo_conn_def setRemoveConnCb_def setState_def TcpConnection_new_def Let_def listenReadEvent_def
      conn_addEpollEvent_def wf_conn_def sample_buffer_facts wf_TcpBuffer_new)

lemma demo_reads:
  "run_allowed demo_step (traced_allowed (fitting 0)) demo_start demo_read"
  "run_steps demo_step demo_start demo_read = (demo_answered, (\<lambda>_. [])(0 := wire (echo_request [8, 1])))"
proof -
  let ?bs = "wire (echo_request [8, 1])"
  have rd: "reading demo_ready (RunTask (Io 0) demo_request) = Some (0, [Bytes ?bs])"
    using demo_ready_facts(2) by (simp add: reading_def demo_request_def)
  have "fitting 0 0 (m_in_buffer demo_conn) [Bytes ?bs]"
    by (simp add: fitting_def demo_conn_buffers echo_request_wire sample_buffer_facts content_TcpBuffer_new parse_one)
  moreover have "machine_allowed demo_ready (RunTask (Io 0) demo_request)"
    using demo_ready_facts(3) by (simp add: demo_request_def demo_answers_def)
  moreover have "m_connections (srv demo_ready) 0 = Some (0, demo_conn)" using demo_served_connection demo_ready_facts(1) by simp
  ultimately have "traced_allowed (fitting 0) (demo_ready, \<lambda>_. []) (RunTask (Io 0) demo_request)"
    using rd by (simp add: traced_allowed_def del: machine_allowed.simps)
  moreover have "demo_step (demo_ready, \<lambda>_. []) (RunTask (Io 0) demo_request) = (demo_answered, (\<lambda>_. [])(0 := ?bs))"
    using rd by (simp add: traced_step_def demo_answered_def segment_def del: machine_step.simps)
  ultimately show "run_allowed demo_step (traced_allowed (fitting 0)) demo_start demo_read"
    "run_steps demo_step demo_start demo_read = (demo_answered, (\<lambda>_. [])(0 := ?bs))"
    using demo_registered unfolding demo_read_def append_assoc [symmetric] by (simp_all add: run_allowed_append run_steps_append)
qed

lemma demo_answers_request:
  "\<exists>c resps. m_connections (srv demo_answered) 0 = Some (0, c) \<and> content (m_out_buffer c) = concat (map wire resps) \<and> resps \<noteq> []
     \<and> listens OUT_EVENT (conn_event c) \<and> getHandler OUT_EVENT (conn_event c) = Some (OnWrite 0)
     \<and> m_fd (conn_event c) = 9 \<and> server_events (srv demo_answered) ! 9 = conn_event c
     \<and> kernel_table (m_epoll_calls (io_loops (srv demo_answered) ! 0)) 9 = Some (m_events (conn_event c))
     \<and> m_pending_tasks (io_loops (srv demo_answered) ! 0) = [] \<and> \<not> m_stop_flag (io_loops (srv demo_answered) ! 0)"
proof -
  let ?m = "echo_request [8, 1]"
  have turn: "machine_allowed demo_ready (RunTask (Io 0) demo_request)"
    using demo_ready_facts(3) by (simp add: demo_request_def demo_answers_def)
  have c: "m_connections (srv demo_ready) 0 = Some (0, demo_conn)" using demo_served_connection demo_ready_facts(1) by simp
  have read: "ans_read (demo_request (OnRead 0)) = [Bytes (wire ?m)]" "wire ?m \<noteq> []"
    "int (length (wire ?m)) < writeAvailable (m_in_buffer demo_conn)"
    "parse_stream (content (m_in_buffer demo_conn) @ wire ?m) = Some ([received ?m], [])"
    using echo_request_wire by (auto simp: demo_request_def demo_conn_buffers sample_buffer_facts content_TcpBuffer_new parse_one)
  obtain c' resps where r: "m_connections (srv demo_answered) 0 = Some (0, c')"
      "dispatch_all (dispatching echo_dispatcher) [received ?m] (server_world (srv demo_ready)) = Inr (resps, server_world (srv demo_answered))"
      "content (m_out_buffer c') = content (m_out_buffer demo_conn) @ concat (map wire resps)"
      "listens OUT_EVENT (conn_event c')" "getHandler OUT_EVENT (conn_event c') = Some (OnWrite 0)"
      "kernel_table (m_epoll_calls (io_loops (srv demo_answered) ! 0)) (m_fd (conn_event c')) = Some (m_events (conn_event c'))"
      "conn_ok 0 c' (srv demo_answered)" "m_fd (conn_event c') = m_fd (conn_event demo_conn)"
      "m_pending_tasks (io_loops (srv demo_answered) ! 0) = m_pending_tasks (io_loops (srv demo_ready) ! 0)"
      "m_stop_flag (io_loops (srv demo_answered) ! 0) = m_stop_flag (io_loops (srv demo_ready) ! 0)"
    using read_turn [where d = echo_dispatcher and run_cb = demo_runner, OF demo_started demo_run turn demo_ready_facts(2) c read(1,2,3,4)]
    unfolding Let_def demo_answered_def [symmetric] by blast
  moreover have "resps \<noteq> []" using answered_all [OF r(2)] by auto
  moreover have "m_fd (conn_event demo_conn) = 9" by simp
  moreover have "content (m_out_buffer demo_conn) = []" by (simp add: demo_conn_buffers content_TcpBuffer_new)
  moreover have "m_pending_tasks (io_loops (srv demo_ready) ! 0) = []" "\<not> m_stop_flag (io_loops (srv demo_ready) ! 0)"
    by (simp_all add: demo_ready_facts(1) demo_served_def)
  ultimately show ?thesis by (intro exI [of _ c'] exI [of _ resps]) (auto simp: conn_ok_def)
qed

theorem server_streams_responses_witness:
  "\<exists>c resps. m_connections (srv demo_answered) 0 = Some (0, c)
     \<and> list_all2 (answered echo_dispatcher) [received (echo_request [8, 1])] resps
     \<and> m_sent c @ content (m_out_buffer c) = concat (map wire resps)"
proof -
  obtain c where c: "m_connections (srv demo_answered) 0 = Some (0, c)" using demo_answers_request by blast
  have "parse_stream (wire (echo_request [8, 1])) = Some ([received (echo_request [8, 1])], [])"
    by (simp add: parse_one echo_request_wire)
  with server_streams_responses [OF demo_started demo_reads(1) demo_reads(2) [symmetric] c] c show ?thesis by auto
qed

section \<open>Sending them\<close>

text \<open>
  C6: Nothing that is due to a client is forgotten, on a connection each of whose reads left a free byte of
  its input buffer and completed no malformed frame, as above: when its write handler has its turn and
  the socket takes all that it is given, then afterwards the responses to all complete requests that ever
  arrived on the connection have been written, and the thread's epoll set no longer asks for writability.
\<close>

theorem loop_sends_responses:
  assumes start: "server_started acceptor l io_threads loops sz w objects m0"
    and run: "run_allowed (traced_step (dispatching d) run_cb) (traced_allowed (fitting i)) (m0, \<lambda>_. []) ops"
    and m: "(m, arrived) = run_steps (traced_step (dispatching d) run_cb) (m0, \<lambda>_. []) ops"
    and turn: "machine_allowed m (RunTask (Io t) a)" "batches m (Io t) = Call (Some (OnWrite i)) # ts"
    and c: "m_connections (srv m) i = Some (t, c)"
    and takes: "ans_write (a (OnWrite i)) = [Accept k]" "length (content (m_out_buffer c)) \<le> k" "content (m_out_buffer c) \<noteq> []"
  shows "\<exists>c' reqs resps. let s' = srv (machine_step (dispatching d) run_cb m (RunTask (Io t) a)) in
       m_connections s' i = Some (t, c')
     \<and> parse_stream (arrived i) = Some (reqs, content (m_in_buffer c')) \<and> list_all2 (answered d) reqs resps
     \<and> m_sent c' = concat (map wire resps) \<and> content (m_out_buffer c') = [] \<and> \<not> listens OUT_EVENT (conn_event c')
     \<and> kernel_table (m_epoll_calls (io_loops s' ! t)) (m_fd (conn_event c')) = Some (m_events (conn_event c'))"
proof -
  have ok: "machine_ok (nat io_threads) m" and "contract_kept (\<lambda>j bs c. serving c \<and> (j = i \<longrightarrow> replied d bs c)) (m, arrived)"
    using replying.contract_run [OF start run m] by simp_all
  then have s: "serving c" "replied d (arrived i) c" using c by (auto simp: contract_kept_def)
  have me: "conn_ok i c (srv m)" using ok c tables_okD(3) [of "nat io_threads" m i t c] by (simp add: machine_ok_def)
  let ?c = "refreshed t (srv m) c"
  have pre: "serving ?c" "m_conn_type ?c = TcpConnectionByServer" "m_out_buffer ?c = m_out_buffer c" "m_sent ?c = m_sent c"
    "m_in_buffer ?c = m_in_buffer c" "conn_event ?c = conn_event c"
    using s(1) me by (auto simp: refreshed_def serving_def wf_conn_def conn_ok_def)
  define c' where "c' = after_onWrite run_cb (ans_write (a (OnWrite i))) ?c"
  obtain c1 where c1: "onWrite run_cb [Accept k] ?c = Some c1" "content (m_out_buffer c1) = []" "m_in_buffer c1 = m_in_buffer c"
    "m_sent c1 = m_sent c @ content (m_out_buffer c)" "conn_event c1 = clearEvent OUT_EVENT (conn_event c)"
    using server_onWrite_all [of 1024 ?c k run_cb] pre takes by (auto simp: serving_def)
  then have "c1 = c'" using takes(1) by (simp add: c'_def after_onWrite_def)
  with c1 have w: "onWrite run_cb [Accept k] ?c = Some c'" and c': "content (m_out_buffer c') = []" "\<not> listens OUT_EVENT (conn_event c')"
    "m_sent c' = m_sent c @ content (m_out_buffer c)" "m_in_buffer c' = m_in_buffer c"
    by simp_all
  have kept: "conn_kept ?c c'" by (rule onWrite_effect [OF pre(2) w])
  from s(2) obtain reqs resps where "parse_stream (arrived i) = Some (reqs, content (m_in_buffer c'))" "list_all2 (answered d) reqs resps"
    "m_sent c' = concat (map wire resps)" using c' by (auto simp: replied_def)
  moreover have f: "run_handler (dispatching d) run_cb (a (OnWrite i)) (Io t) (OnWrite i) (srv m)
      = with_connection i (after_onWrite run_cb (ans_write (a (OnWrite i)))) (srv m)"
    by (simp add: run_handler_def after_onWrite_def [abs_def])
  note after = handled_connection [OF ok turn _ c f, folded c'_def, OF _ kept, unfolded Let_def]
  ultimately show ?thesis using c' after unfolding Let_def by (intro exI [of _ c'] exI [of _ reqs] exI [of _ resps]) simp
qed

text \<open>A thread that waits with an empty queue runs the write handler of a writable descriptor first.\<close>

lemma writable_turn:
  assumes r: "Io t \<in> threads (srv m)" "batches m (Io t) = []" "draining m (Io t)"
    and l: "m_pending_tasks (io_loops (srv m) ! t) = []" "\<not> m_stop_flag (io_loops (srv m) ! t)"
    and e: "loop_objects m p = None" "server_events (srv m) ! p = e" "getHandler OUT_EVENT e = Some h" "listens OUT_EVENT e"
      "kernel_table (m_epoll_calls (io_loops (srv m) ! t)) (int p) = Some (m_events e)"
  shows "run_allowed (machine_step disp run_cb) machine_allowed m [Waited (Io t) [(Some p, EPOLLOUT)], Swap (Io t)]"
    and "batches (run_steps (machine_step disp run_cb) m [Waited (Io t) [(Some p, EPOLLOUT)], Swap (Io t)]) (Io t) = [Call (Some h)]"
    and "srv (run_steps (machine_step disp run_cb) m [Waited (Io t) [(Some p, EPOLLOUT)], Swap (Io t)]) = srv m"
proof -
  have out: "EPOLLOUT AND EPOLLIN = (0 :: 32 word)" "EPOLLOUT \<noteq> 0" "m_events e AND EPOLLOUT \<noteq> 0"
    using wanted_listens [of e OUT_EVENT] e(4) by (simp_all add: EPOLLIN_def EPOLLOUT_def)
  have loop: "get_loop (Io t) (srv m) = io_loops (srv m) ! t" by (simp add: get_loop_def)
  have same: "put_loop (Io t) ((io_loops (srv m) ! t)\<lparr>m_pending_tasks := []\<rparr>) (srv m) = srv m"
  proof -
    have "(io_loops (srv m) ! t)\<lparr>m_pending_tasks := []\<rparr> = io_loops (srv m) ! t" using l(1) by (cases "io_loops (srv m) ! t") simp
    then show ?thesis using get_put_loop(3) [of "Io t" "srv m"] unfolding loop by simp
  qed
  note ev = handle_events_eq [of _ "[(Some p, EPOLLOUT)]"]
  show "run_allowed (machine_step disp run_cb) machine_allowed m [Waited (Io t) [(Some p, EPOLLOUT)], Swap (Io t)]"
    "batches (run_steps (machine_step disp run_cb) m [Waited (Io t) [(Some p, EPOLLOUT)], Swap (Io t)]) (Io t) = [Call (Some h)]"
    "srv (run_steps (machine_step disp run_cb) m [Waited (Io t) [(Some p, EPOLLOUT)], Swap (Io t)]) = srv m"
    using r l e out same by (simp_all add: ev loop reported_def fd_object_def getHandler_def del: foldl_Cons)
qed

lemma open_fds_nonneg:
  assumes "machine_ok n m" and "fd \<in> open_fds m"
  shows "0 \<le> fd"
proof -
  have T: "tables_ok n m" using assms(1) by (simp add: machine_ok_def)
  show ?thesis using assms(2) tables_okD(9) [OF T] tables_okD(3) [OF T]
    by (fastforce simp: open_fds_def ran_def conn_ok_def)
qed

lemma demo_answered_rest: "Io 0 \<in> threads (srv demo_answered)" "batches demo_answered (Io 0) = []" "draining demo_answered (Io 0)"
  "loop_objects demo_answered 9 = None"
proof -
  have b: "batches demo_ready (Io 0) = [Call (Some (OnRead 0))]" by (rule demo_ready_facts(2))
  have "Io 0 \<in> threads (srv demo_ready)" using demo_ready_facts(3) by simp
  then show "Io 0 \<in> threads (srv demo_answered)"
    unfolding demo_answered_def machine_step_handler [OF b] by simp
  show "batches demo_answered (Io 0) = []" "draining demo_answered (Io 0)" "loop_objects demo_answered 9 = None"
    using b by (simp_all add: demo_answered_def) (simp_all add: demo_ready_def demo_machine_def demo_objects_def)
qed

definition demo_taking :: "nat \<Rightarrow> unit handler \<Rightarrow> answers" where
  "demo_taking k h = (demo_answers (- 1) h)\<lparr>ans_write := [Accept k]\<rparr>"

theorem loop_sends_responses_witness:
  "\<exists>k c' resps. let m = fst (run_steps demo_step demo_start (demo_read @ demo_write));
       s' = srv (machine_step (dispatching echo_dispatcher) demo_runner m (RunTask (Io 0) (demo_taking k)))
     in m_connections s' 0 = Some (0, c') \<and> list_all2 (answered echo_dispatcher) [received (echo_request [8, 1])] resps
      \<and> m_sent c' = concat (map wire resps) \<and> content (m_out_buffer c') = []"
proof -
  let ?d = "dispatching echo_dispatcher" and ?arrived = "(\<lambda>_. [])(0 := wire (echo_request [8, 1]))"
  obtain c resps where c: "m_connections (srv demo_answered) 0 = Some (0, c)" "content (m_out_buffer c) = concat (map wire resps)" "resps \<noteq> []"
      and e: "listens OUT_EVENT (conn_event c)" "getHandler OUT_EVENT (conn_event c) = Some (OnWrite 0)"
      "server_events (srv demo_answered) ! 9 = conn_event c"
      "kernel_table (m_epoll_calls (io_loops (srv demo_answered) ! 0)) 9 = Some (m_events (conn_event c))"
      "m_pending_tasks (io_loops (srv demo_answered) ! 0) = []" "\<not> m_stop_flag (io_loops (srv demo_answered) ! 0)"
    using demo_answers_request by blast
  define m where "m = run_steps (machine_step ?d demo_runner) demo_answered demo_write"
  have "kernel_table (m_epoll_calls (io_loops (srv demo_answered) ! 0)) (int 9) = Some (m_events (conn_event c))" using e(4) by simp
  from writable_turn [OF demo_answered_rest(1-3) e(5,6) demo_answered_rest(4) e(3,2,1) this, of ?d demo_runner]
  have m: "run_allowed (machine_step ?d demo_runner) machine_allowed demo_answered demo_write" "batches m (Io 0) = [Call (Some (OnWrite 0))]"
    "srv m = srv demo_answered" by (simp_all only: demo_write_def m_def)
  have "list_all quiet demo_write" by (simp add: demo_write_def quiet_def)
  from traced_quiet [OF this, of ?d demo_runner "(demo_answered, ?arrived)" 0] m(1) demo_reads
  have run: "run_allowed demo_step (traced_allowed (fitting 0)) demo_start (demo_read @ demo_write)"
    "(m, ?arrived) = run_steps demo_step demo_start (demo_read @ demo_write)"
    by (simp_all add: run_allowed_append run_steps_append m_def)
  have "machine_ok 1 m" using replying.contract_run(2) [OF demo_started run] by simp
  then have "- 1 \<notin> open_fds m" using open_fds_nonneg [of 1 m "- 1"] by auto
  then have "machine_allowed m (RunTask (Io 0) (demo_taking k))" for k
    using m(2,3) demo_answered_rest(1) by (simp add: demo_taking_def demo_answers_def reserved_def)
  moreover have "content (m_out_buffer c) \<noteq> []"
  proof -
    have "wire r \<noteq> []" for r using length_wire [of r] by (auto simp: pk_size_def)
    then show ?thesis using c(2,3) by (cases resps) auto
  qed
  moreover have "parse_stream (wire (echo_request [8, 1])) = Some ([received (echo_request [8, 1])], [])"
    by (simp add: parse_one echo_request_wire)
  ultimately show ?thesis
    using loop_sends_responses [OF demo_started run(1) run(2) _ m(2), of "demo_taking (length (content (m_out_buffer c)))" c "length (content (m_out_buffer c))"]
      c(1) m(3) run(2) [symmetric]
    unfolding Let_def by (intro exI [of _ "length (content (m_out_buffer c))"]) (auto simp: demo_taking_def simp del: machine_step.simps machine_allowed.simps)
qed

end
