(* ===== verification/ServerLifetime.thy ===== *)
theory ServerLifetime
  imports ServerStart ThreadGroup Timer
begin

text \<open>
  The life of a server: its constructor, with the loops that \<open>GetCurrentEventLoop\<close> and the constructors of
  the I/O threads make, its \<open>start\<close>, and its destructor (\<open>src/net/tcp/tcp_server.cc\<close>, \<open>src/net/eventloop.cc\<close>,
  \<open>src/net/io_thread.cc\<close>).  Loops are objects of a store, since a thread keeps the pointer to its loop in a
  thread-local variable, which can outlive the object.
\<close>

section \<open>The store of loops\<close>

text \<open>How a call ends: it returns, ends the process by \<open>exit\<close>, throws, or uses an object that is gone.\<close>

datatype 'a outcome = Returns 'a | Exits | Throws fault | Dangles

definition and_then :: "'a outcome \<Rightarrow> ('a \<Rightarrow> 'b outcome) \<Rightarrow> 'b outcome" where
  "and_then r f = (case r of Returns x \<Rightarrow> f x | Exits \<Rightarrow> Exits | Throws e \<Rightarrow> Throws e | Dangles \<Rightarrow> Dangles)"

lemma and_then_Returns [simp]: "and_then r f = Returns y \<longleftrightarrow> (\<exists>x. r = Returns x \<and> f x = Returns y)"
  "and_then (Returns x) f = f x" "and_then Exits f = Exits" "and_then Dangles f = Dangles"
  by (simp_all add: and_then_def split: outcome.split)

text \<open>\<open>t_current_loop\<close> is the thread-local pointer of each thread, \<open>descriptors\<close> what the process has open.\<close>

record 'k loop_store =
  t_current_loop :: "int \<Rightarrow> nat option"
  loop_at :: "nat \<Rightarrow> 'k handler event_loop option"
  m_epoll_fd :: "nat \<Rightarrow> int"
  next_loop :: nat
  descriptors :: "int set"

text \<open>The results of \<open>epoll_create\<close>, \<open>eventfd\<close> and \<open>timerfd_create\<close>.\<close>

type_synonym loop_fds = "int \<times> int \<times> int"

definition construct_EventLoop :: "int \<Rightarrow> loop_fds \<Rightarrow> 'k loop_store \<Rightarrow> (nat \<times> 'k handler event_loop \<times> 'k loop_store) outcome" where
  "construct_EventLoop tid fds h =
     (case fds of (epoll_fd, wakeup_fd, timer_fd) \<Rightarrow>
        if t_current_loop h tid \<noteq> None then Exits
        else if epoll_fd < 0 then Exits
        else if wakeup_fd < 0 then Exits
        else
          let p = next_loop h;
              l = EventLoop_new tid (WakeupFdEvent_new wakeup_fd) (Timer_fd_event timer_fd)
          in Returns (p, l, h\<lparr>t_current_loop := (t_current_loop h)(tid \<mapsto> p), loop_at := (loop_at h)(p \<mapsto> l),
               m_epoll_fd := (m_epoll_fd h)(p := epoll_fd), next_loop := p + 1,
               descriptors := descriptors h \<union> {epoll_fd, wakeup_fd} \<union> (if timer_fd < 0 then {} else {timer_fd})\<rparr>))"

definition current_EventLoop :: "int \<Rightarrow> loop_fds \<Rightarrow> 'k loop_store \<Rightarrow> (nat \<times> 'k loop_store) outcome" where
  "current_EventLoop tid fds h =
     (case t_current_loop h tid of
        Some p \<Rightarrow> Returns (p, h)
      | None \<Rightarrow> and_then (construct_EventLoop tid fds h) (\<lambda>(p, l, h). Returns (p, h)))"

text \<open>Using an object through a pointer.\<close>

definition the_loop :: "nat \<Rightarrow> 'k loop_store \<Rightarrow> 'k handler event_loop outcome" where
  "the_loop p h = (case loop_at h p of None \<Rightarrow> Dangles | Some l \<Rightarrow> Returns l)"

text \<open>The destructor closes the epoll descriptor and deletes the two events, whose destructors close
  nothing; it leaves the thread-local pointer as it is.\<close>

definition delete_EventLoop :: "nat \<Rightarrow> 'k loop_store \<Rightarrow> 'k loop_store outcome" where
  "delete_EventLoop p h =
     and_then (the_loop p h) (\<lambda>_. Returns (h\<lparr>loop_at := (loop_at h)(p := None), descriptors := descriptors h - {m_epoll_fd h p}\<rparr>))"

section \<open>Constructor, start and destructor of the server\<close>

text \<open>Each I/O thread constructs its loop; the constructor of \<open>IOThread\<close> waits for that.\<close>

fun construct_threads :: "(int \<times> loop_fds) list \<Rightarrow> 'k loop_store \<Rightarrow> ((nat \<times> 'k handler event_loop) list \<times> 'k loop_store) outcome" where
  "construct_threads [] h = Returns ([], h)"
| "construct_threads ((tid, fds) # ths) h =
     and_then (construct_EventLoop tid fds h) (\<lambda>(p, l, h).
     and_then (construct_threads ths h) (\<lambda>(pls, h). Returns ((p, l) # pls, h)))"

definition TcpServer_create :: "tcp_acceptor option \<Rightarrow> int \<times> loop_fds \<Rightarrow> (int \<times> loop_fds) list \<Rightarrow> 'k handler fd_event_group
    \<Rightarrow> 'w \<Rightarrow> 'k loop_store \<Rightarrow> (('k, 'w) tcp_server \<times> nat \<times> nat list \<times> 'k loop_store) outcome" where
  "TcpServer_create acceptor main ths events w h =
     (case acceptor of
        None \<Rightarrow> Exits
      | Some acceptor \<Rightarrow>
          and_then (current_EventLoop (fst main) (snd main) h) (\<lambda>(p, h).
          and_then (construct_threads ths h) (\<lambda>(pls, h).
          and_then (the_loop p h) (\<lambda>l.
            case TcpServer_init acceptor l (int (length ths)) (\<lambda>t. snd (pls ! t)) events w of
              Inl e \<Rightarrow> Throws e
            | Inr s \<Rightarrow> Returns (s, p, map fst pls, h\<lparr>loop_at := (loop_at h)(p \<mapsto> main_loop s)\<rparr>)))))"

text \<open>\<open>start\<close> releases the I/O threads before the main thread enters its loop.\<close>

definition TcpServer_start :: "thread_group \<Rightarrow> thread_group" where
  "TcpServer_start g = g\<lparr>group_pc := Idle, members := map IOThread_start (members g)\<rparr>"

text \<open>The destructor of an \<open>IOThread\<close> that returns: the thread has ended, and its thread-local pointer with
  it, and the loop is deleted.\<close>

fun destroy_threads :: "(int \<times> nat) list \<Rightarrow> 'k loop_store \<Rightarrow> 'k loop_store outcome" where
  "destroy_threads [] h = Returns h"
| "destroy_threads ((tid, p) # ths) h =
     and_then (delete_EventLoop p (h\<lparr>t_current_loop := (t_current_loop h)(tid := None)\<rparr>)) (destroy_threads ths)"

definition TcpServer_destroy :: "nat \<Rightarrow> (int \<times> nat) list \<Rightarrow> 'k loop_store \<Rightarrow> 'k loop_store outcome" where
  "TcpServer_destroy p ths h = and_then (destroy_threads ths h) (delete_EventLoop p)"

section \<open>What the constructor establishes\<close>

definition loop_objects_of :: "(int \<times> loop_fds) list \<Rightarrow> nat \<Rightarrow> 'k handler fd_event option" where
  "loop_objects_of ths = map_of (concat (map (\<lambda>(tid, epoll_fd, wakeup_fd, timer_fd).
     [(nat wakeup_fd, WakeupFdEvent_new wakeup_fd), (nat timer_fd, Timer_fd_event timer_fd)]) ths))"

definition fds_ok :: "int \<times> loop_fds \<Rightarrow> bool" where
  "fds_ok th \<longleftrightarrow> (case th of (tid, epoll_fd, wakeup_fd, timer_fd) \<Rightarrow> 0 \<le> wakeup_fd \<and> 0 \<le> timer_fd)"

lemma loop_object_new [simp]: "loop_object (WakeupFdEvent_new fd)" "loop_object (Timer_fd_event fd)"
  by (auto simp: loop_object_def getHandler_def WakeupFdEvent_new_def WakeupFdEvent_init_def Timer_fd_event_def
      FdEvent_new_def listen_def Let_def split: TriggerEvent.split)

lemma loop_objects_of_object: "loop_objects_of ths p = Some e \<Longrightarrow> loop_object e"
  by (auto simp: loop_objects_of_def dest!: map_of_SomeD)

lemma loop_objects_of_some:
  assumes "(tid, epoll_fd, wakeup_fd, timer_fd) \<in> set ths"
  shows "loop_objects_of ths (nat wakeup_fd) \<noteq> None" "loop_objects_of ths (nat timer_fd) \<noteq> None"
  unfolding loop_objects_of_def map_of_eq_None_iff using assms by force+

lemma Timer_fd_event_fd: "0 \<le> fd \<Longrightarrow> m_fd (Timer_fd_event fd) = fd"
  by (simp add: Timer_fd_event_def Let_def)

lemma loop_new_constructed:
  assumes "(tid, epoll_fd, wakeup_fd, timer_fd) \<in> set ths" and "0 \<le> wakeup_fd" and "0 \<le> timer_fd"
  shows "loop_new (loop_objects_of ths) (EventLoop_new tid (WakeupFdEvent_new wakeup_fd) (Timer_fd_event timer_fd))"
proof -
  let ?l = "EventLoop_new tid (WakeupFdEvent_new wakeup_fd :: 'b handler fd_event) (Timer_fd_event timer_fd)"
  have "m_listen_fds ?l = {wakeup_fd, timer_fd}" "m_pending_tasks ?l = []"
    using assms(3) by (auto simp: EventLoop_new_eq ADD_TO_EPOLL_def Let_def Timer_fd_event_fd)
      (simp_all add: WakeupFdEvent_new_def WakeupFdEvent_init_def FdEvent_new_def)
  then show ?thesis
    using assms(2,3) loop_objects_of_some [OF assms(1)] by (auto simp: loop_new_def intro!: in_sync_new)
      (simp_all add: Timer_fd_event_fd new_fds)
qed

definition fresh_loop :: "int \<times> loop_fds \<Rightarrow> 'k handler event_loop" where
  "fresh_loop th = (case th of (tid, epoll_fd, wakeup_fd, timer_fd) \<Rightarrow>
     EventLoop_new tid (WakeupFdEvent_new wakeup_fd) (Timer_fd_event timer_fd))"

lemma fresh_loop_tid [simp]: "m_tid (fresh_loop th) = fst th"
  by (cases th) (simp add: fresh_loop_def EventLoop_new_eq ADD_TO_EPOLL_def Let_def)

lemma construct_EventLoop_Returns:
  assumes "construct_EventLoop tid fds h = Returns (p, l, h')"
  shows "p = next_loop h" "l = fresh_loop (tid, fds)" "t_current_loop h tid = None"
    "t_current_loop h' = (t_current_loop h)(tid \<mapsto> p)" "loop_at h' = (loop_at h)(p \<mapsto> l)" "next_loop h' = Suc p"
  using assms by (auto simp: construct_EventLoop_def fresh_loop_def Let_def split: prod.splits if_splits)

lemma construct_threads_facts:
  assumes "construct_threads ths h = Returns (pls, h')"
  shows "map fst pls = [next_loop h..<next_loop h + length ths] \<and> map snd pls = map fresh_loop ths
     \<and> next_loop h' = next_loop h + length ths
     \<and> (\<forall>q. loop_at h' q = (if next_loop h \<le> q \<and> q < next_loop h + length ths then Some (snd (pls ! (q - next_loop h))) else loop_at h q))
     \<and> (\<forall>tid. tid \<notin> fst ` set ths \<longrightarrow> t_current_loop h' tid = t_current_loop h tid)"
  using assms
proof (induction ths arbitrary: h pls)
  case (Cons th ths)
  obtain tid fds where th: "th = (tid, fds)" by (cases th)
  from Cons.prems obtain p l h1 pls1 where one: "construct_EventLoop tid fds h = Returns (p, l, h1)"
    and rest: "construct_threads ths h1 = Returns (pls1, h')" and pls: "pls = (p, l) # pls1"
    by (auto simp: th)
  note O = construct_EventLoop_Returns [OF one] and R = Cons.IH [OF rest]
  have "loop_at h' q = (if next_loop h \<le> q \<and> q < next_loop h + length (th # ths) then Some (snd (pls ! (q - next_loop h))) else loop_at h q)" for q
  proof (cases "q = next_loop h")
    case True
    with O R show ?thesis by (simp add: pls)
  next
    case False
    then have "next_loop h \<le> q \<longleftrightarrow> next_loop h1 \<le> q" "q - next_loop h = (if next_loop h \<le> q then Suc (q - next_loop h1) else 0)"
      using O by auto
    with False O R show ?thesis by (simp add: pls)
  qed
  moreover have "map fst pls = [next_loop h..<next_loop h + length (th # ths)]"
    using O R by (simp add: pls upt_conv_Cons del: upt_Suc)
  ultimately show ?case using O R by (simp add: pls th)
qed auto

lemma TcpServer_create_Returns:
  assumes "TcpServer_create (Some acceptor) main ths events w h = Returns (s, p, ps, h')"
  obtains h1 pls h2 l where "current_EventLoop (fst main) (snd main) h = Returns (p, h1)"
    "construct_threads ths h1 = Returns (pls, h2)" "the_loop p h2 = Returns l" "ps = map fst pls"
    "TcpServer_init acceptor l (int (length ths)) (\<lambda>t. snd (pls ! t)) events w = Inr s"
    "h' = h2\<lparr>loop_at := (loop_at h2)(p \<mapsto> main_loop s)\<rparr>"
proof -
  from assms obtain q h1 pls h2 l where *: "current_EventLoop (fst main) (snd main) h = Returns (q, h1)"
    "construct_threads ths h1 = Returns (pls, h2)" "the_loop q h2 = Returns l"
    and made: "(case TcpServer_init acceptor l (int (length ths)) (\<lambda>t. snd (pls ! t)) events w of Inl e \<Rightarrow> Throws e
        | Inr s \<Rightarrow> Returns (s, q, map fst pls, h2\<lparr>loop_at := (loop_at h2)(q \<mapsto> main_loop s)\<rparr>)) = Returns (s, p, ps, h')"
    unfolding TcpServer_create_def by fastforce
  from made have "TcpServer_init acceptor l (int (length ths)) (\<lambda>t. snd (pls ! t)) events w = Inr s" "q = p" "ps = map fst pls"
    "h' = h2\<lparr>loop_at := (loop_at h2)(q \<mapsto> main_loop s)\<rparr>"
    by (auto split: sum.splits)
  with * that show ?thesis by blast
qed

text \<open>
  C7: The constructor of a server, run where its threads have no loop yet and with system calls that
  succeed, leaves the state that the properties of the running server start from: every loop watches its
  wakeup and timer events and nothing else but, in the main loop, the listening descriptor with \<open>onAccept\<close>
  as its handler, no queue holds a task, and no I/O thread is the main thread.
\<close>

theorem constructor_starts_server:
  fixes h :: "'k loop_store"
  assumes created: "TcpServer_create (Some acceptor) main ths (FdEventGroup_new sz) w h = Returns (s, p, ps, h')"
    and fresh: "t_current_loop h (fst main) = None" and tids: "fst main \<notin> fst ` set ths"
    and fds: "0 \<le> m_listenfd acceptor" "list_all fds_ok (main # ths)"
  shows "server_started acceptor (fresh_loop main) (int (length ths)) (\<lambda>t. fresh_loop (ths ! t)) sz w
     (loop_objects_of (main # ths)) (machine_new s (loop_objects_of (main # ths)))"
proof -
  obtain h1 pls h2 l where cur: "current_EventLoop (fst main) (snd main) h = Returns (p, h1)"
      and others: "construct_threads ths h1 = Returns (pls, h2)" and l: "the_loop p h2 = Returns l"
      and init: "TcpServer_init acceptor l (int (length ths)) (\<lambda>t. snd (pls ! t)) (FdEventGroup_new sz) w = Inr s"
    by (rule TcpServer_create_Returns [OF created])
  from cur fresh obtain l0 where main: "construct_EventLoop (fst main) (snd main) h = Returns (p, l0, h1)"
    by (auto simp: current_EventLoop_def)
  note M = construct_EventLoop_Returns [OF main] and O = construct_threads_facts [OF others]
  have "loop_at h2 p = Some (fresh_loop main)" using M O by auto
  then have l: "l = fresh_loop main" using l by (simp add: the_loop_def)
  have "map snd pls = map fresh_loop ths" using O by simp
  then have at: "length pls = length ths" "t < length ths \<Longrightarrow> snd (pls ! t) = fresh_loop (ths ! t)" for t
    by (metis length_map, metis length_map nth_map)
  have "TcpServer_init acceptor l (int (length ths)) (\<lambda>t. fresh_loop (ths ! t)) (FdEventGroup_new sz) w
      = TcpServer_init acceptor l (int (length ths)) (\<lambda>t. snd (pls ! t)) (FdEventGroup_new sz) w"
    using at by (simp add: TcpServer_init_def IOThreadGroup_new_def Let_def split: sum.split)
  moreover have new: "loop_new (loop_objects_of (main # ths)) (fresh_loop th)"
    if mem: "th \<in> set (main # ths)" for th
  proof -
    obtain tid e wf tf where th: "th = (tid, e, wf, tf)" by (cases th)
    have "fds_ok th" using mem fds(2) by (metis list_all_iff)
    then have "0 \<le> wf" "0 \<le> tf" by (simp_all add: th fds_ok_def)
    with loop_new_constructed [OF mem [unfolded th]] show ?thesis by (simp add: th fresh_loop_def)
  qed
  moreover have "fst (ths ! t) \<noteq> fst main" if t: "t < length ths" for t
  proof -
    have "ths ! t \<in> set ths" using t by simp
    then show ?thesis using tids by (metis imageI)
  qed
  ultimately show ?thesis
    unfolding server_started_def using init l fds(1) loop_objects_of_object [of "main # ths"] by (auto simp: new)
qed

definition empty_store :: "'k loop_store" where
  "empty_store = \<lparr>t_current_loop = (\<lambda>_. None), loop_at = (\<lambda>_. None), m_epoll_fd = (\<lambda>_. - 1), next_loop = 0, descriptors = {}\<rparr>"

lemma sample_creation:
  "\<exists>s h'. TcpServer_create (Some sample_acceptor) (1, 3, 4, 5) [(2, 20, 7, 8)] (FdEventGroup_new 11) w empty_store
     = Returns (s, 0, [1], h')"
  by (simp add: TcpServer_create_def current_EventLoop_def construct_EventLoop_def empty_store_def the_loop_def Let_def
      TcpServer_init_def IOThreadGroup_new_def getFdEvent_demo group11 sample_acceptor_def)

theorem constructor_starts_server_witness:
  "\<exists>m :: (unit, nat) server_machine. server_started sample_acceptor (fresh_loop (1, 3, 4, 5)) 1 (\<lambda>t. fresh_loop ([(2, 20, 7, 8)] ! t)) 11 0
     (loop_objects_of [(1, 3, 4, 5), (2, 20, 7, 8)]) m"
proof -
  obtain s :: "(unit, nat) tcp_server" and h' where
    "TcpServer_create (Some sample_acceptor) (1, 3, 4, 5) [(2, 20, 7, 8)] (FdEventGroup_new 11) 0 empty_store = Returns (s, 0, [1], h')"
    using sample_creation [of "0 :: nat"] by (elim exE)
  from constructor_starts_server [OF this] show ?thesis
    by (auto simp: empty_store_def sample_acceptor_def fds_ok_def)
qed

section \<open>Starting\<close>

lemma start_from:
  "i \<le> length (members g) \<Longrightarrow> group_step\<^sup>*\<^sup>* (g\<lparr>group_pc := Starting i\<rparr>)
     (g\<lparr>group_pc := Idle, members := take i (members g) @ map IOThread_start (drop i (members g))\<rparr>)"
proof (induction "length (members g) - i" arbitrary: i g)
  case 0
  then have "group_step (g\<lparr>group_pc := Starting i\<rparr>) (g\<lparr>group_pc := Idle\<rparr>)"
    by (intro group_step.owner) (simp add: group_owner_step_def group_start_def)
  with 0 show ?case by (simp add: r_into_rtranclp)
next
  case (Suc n)
  let ?g = "set_member i (IOThread_start (members g ! i)) g"
  have i: "i < length (members g)" using Suc.hyps(2) by simp
  then have "group_step (g\<lparr>group_pc := Starting i\<rparr>) (?g\<lparr>group_pc := Starting (Suc i)\<rparr>)"
    by (intro group_step.owner) (simp add: group_owner_step_def group_start_def)
  moreover have "group_step\<^sup>*\<^sup>* (?g\<lparr>group_pc := Starting (Suc i)\<rparr>)
     (?g\<lparr>group_pc := Idle, members := take (Suc i) (members ?g) @ map IOThread_start (drop (Suc i) (members ?g))\<rparr>)"
    using Suc.hyps i by (intro Suc.hyps(1)) simp_all
  moreover have "take (Suc i) (members ?g) @ map IOThread_start (drop (Suc i) (members ?g))
      = take i (members g) @ map IOThread_start (drop i (members g))"
    using i take_Suc_conv_app_nth [of i "(members g)[i := IOThread_start (members g ! i)]"]
    by (simp add: Cons_nth_drop_Suc [symmetric])
  ultimately show ?case by (simp add: set_member_def converse_rtranclp_into_rtranclp)
qed

lemma TcpServer_start_steps: "group_step\<^sup>*\<^sup>* (g\<lparr>group_pc := Starting 0\<rparr>) (TcpServer_start g)"
  using start_from [of 0 g] by (simp add: TcpServer_start_def)

section \<open>After the destructor\<close>

lemma destroy_threads_facts:
  assumes "list_all (\<lambda>(tid, q). loop_at h q \<noteq> None) ths" and "distinct (map snd ths)"
  shows "\<exists>h'. destroy_threads ths h = Returns h' \<and> next_loop h' = next_loop h \<and> m_epoll_fd h' = m_epoll_fd h
     \<and> loop_at h' = (\<lambda>q. if q \<in> snd ` set ths then None else loop_at h q)
     \<and> (\<forall>tid. tid \<notin> fst ` set ths \<longrightarrow> t_current_loop h' tid = t_current_loop h tid)
     \<and> descriptors h' = descriptors h - m_epoll_fd h ` snd ` set ths"
  using assms
proof (induction ths arbitrary: h)
  case (Cons th ths)
  obtain tid q where th: "th = (tid, q)" by (cases th)
  define h1 where "h1 = h\<lparr>t_current_loop := (t_current_loop h)(tid := None), loop_at := (loop_at h)(q := None),
      descriptors := descriptors h - {m_epoll_fd h q}\<rparr>"
  have "delete_EventLoop q (h\<lparr>t_current_loop := (t_current_loop h)(tid := None)\<rparr>) = Returns h1"
    using Cons.prems(1) by (auto simp: th delete_EventLoop_def the_loop_def h1_def)
  then have run: "destroy_threads (th # ths) h = destroy_threads ths h1" by (simp add: th)
  have "list_all (\<lambda>(tid, q). loop_at h1 q \<noteq> None) ths" "distinct (map snd ths)"
    using Cons.prems by (auto simp: th h1_def list_all_iff image_iff split: prod.splits)
  from Cons.IH [OF this] show ?case unfolding run
    by (auto simp: th h1_def fun_eq_iff) (metis imageI snd_conv)
qed auto

text \<open>
  The destructor deletes the loop of the main thread and leaves the thread-local pointer to it, so in that
  thread \<open>GetCurrentEventLoop\<close> returns a pointer to a dead object, no other loop can be made, and no other
  server; and of each loop only the epoll descriptor is closed, not the eventfd and the timerfd.
\<close>

theorem server_cannot_be_recreated:
  assumes created: "TcpServer_create (Some acceptor) main ths events w h = Returns (s, p, ps, h1)"
    and fresh: "t_current_loop h (fst main) = None" and tids: "fst main \<notin> fst ` set ths"
  shows "\<exists>h2. TcpServer_destroy p (zip (map fst ths) ps) h1 = Returns h2
     \<and> t_current_loop h2 (fst main) = Some p \<and> the_loop p h2 = Dangles
     \<and> descriptors h2 = descriptors h1 - m_epoll_fd h1 ` set (p # ps)
     \<and> construct_EventLoop (fst main) fds h2 = Exits
     \<and> TcpServer_create acceptor' (fst main, fds) ths' events' w' h2 \<noteq> Returns r"
proof -
  obtain h0 pls h' l where cur: "current_EventLoop (fst main) (snd main) h = Returns (p, h0)"
      and others: "construct_threads ths h0 = Returns (pls, h')" and ps: "ps = map fst pls"
      and h1: "h1 = h'\<lparr>loop_at := (loop_at h')(p \<mapsto> main_loop s)\<rparr>"
    by (rule TcpServer_create_Returns [OF created])
  from cur fresh obtain l0 where main: "construct_EventLoop (fst main) (snd main) h = Returns (p, l0, h0)"
    by (auto simp: current_EventLoop_def)
  note M = construct_EventLoop_Returns [OF main] and O = construct_threads_facts [OF others]
  have ids: "ps = [Suc p..<Suc p + length ths]" using O M by (simp add: ps)
  have zips: "map snd (zip (map fst ths) ps) = ps" "map fst (zip (map fst ths) ps) = map fst ths"
    by (simp_all add: ids del: upt_Suc)
  then have set_zip: "snd ` set (zip (map fst ths) ps) = set ps" "fst ` set (zip (map fst ths) ps) = fst ` set ths"
    by (metis set_map)+
  have "loop_at h1 q \<noteq> None" if "q \<in> set ps" for q
    using O M that by (auto simp: h1 ids)
  then have live: "list_all (\<lambda>(tid, q). loop_at h1 q \<noteq> None) (zip (map fst ths) ps)"
    by (auto simp: list_all_iff dest: set_zip_rightD)
  have dist: "distinct (map snd (zip (map fst ths) ps))" unfolding zips by (simp add: ids)
  obtain hd where d: "destroy_threads (zip (map fst ths) ps) h1 = Returns hd" "next_loop hd = next_loop h1" "m_epoll_fd hd = m_epoll_fd h1"
      "loop_at hd = (\<lambda>q. if q \<in> set ps then None else loop_at h1 q)" "t_current_loop hd (fst main) = t_current_loop h1 (fst main)"
      "descriptors hd = descriptors h1 - m_epoll_fd h1 ` set ps"
    using destroy_threads_facts [OF live dist] tids unfolding set_zip by blast
  define h2 where "h2 = hd\<lparr>loop_at := (loop_at hd)(p := None), descriptors := descriptors hd - {m_epoll_fd hd p}\<rparr>"
  have h2: "TcpServer_destroy p (zip (map fst ths) ps) h1 = Returns h2"
  proof -
    have "p \<notin> set ps" by (simp add: ids del: upt_Suc)
    then have "loop_at hd p = Some (main_loop s)" by (simp add: d h1)
    then have "delete_EventLoop p hd = Returns h2" by (simp add: delete_EventLoop_def the_loop_def h2_def)
    then show ?thesis by (simp only: TcpServer_destroy_def d(1) and_then_Returns(2))
  qed
  have cur2: "t_current_loop h2 (fst main) = Some p" using M O tids by (simp add: h2_def d h1)
  have gone: "loop_at h2 p = None" "p < next_loop h2" using M O by (simp_all add: h2_def d h1)
  have "TcpServer_create acceptor' (fst main, fds) ths' events' w' h2 \<noteq> Returns r"
  proof
    obtain s' p' ps' h3 where r: "r = (s', p', ps', h3)" by (cases r)
    assume again: "TcpServer_create acceptor' (fst main, fds) ths' events' w' h2 = Returns r"
    then obtain a' where "acceptor' = Some a'" by (auto simp: TcpServer_create_def split: option.splits)
    with again r have again: "TcpServer_create (Some a') (fst main, fds) ths' events' w' h2 = Returns (s', p', ps', h3)" by simp
    obtain k0 pls' k l' where c: "current_EventLoop (fst main) fds h2 = Returns (p', k0)"
      "construct_threads ths' k0 = Returns (pls', k)" "the_loop p' k = Returns l'"
      by (rule TcpServer_create_Returns [OF again, unfolded fst_conv snd_conv])
    from c(1) cur2 have "p' = p" "k0 = h2" by (simp_all add: current_EventLoop_def)
    with c(3) construct_threads_facts [OF c(2)] gone show False by (simp add: the_loop_def)
  qed
  with h2 cur2 gone(1) d show ?thesis
    by (auto simp: the_loop_def construct_EventLoop_def h2_def split: prod.split)
qed

end
