(* ===== verification/Spec2Isabelle.thy ===== *)
theory Spec2Isabelle
  imports CoderContract MsgIdUtil NetAddr ConnectionProperties TcpServer ChannelProperties
    LogProperties StringCoder ThreadGroup CallResponse DecodedMessages ServerReplies
    ServerLifetime
begin

text \<open>
  A verification library for rapidrpc, a small RPC framework in C++ (implementation under \<open>src/src/\<close> and
  \<open>src/include/rapidrpc/\<close>; the paths below leave out these prefixes).

  The program.  A server owns one listening socket and a group of I/O threads.  The main thread's event
  loop accepts connections and gives each to the loop of the next I/O thread.  A connection reads bytes
  into its input buffer, decodes TinyPB frames, dispatches every request to a registered protobuf
  service, encodes the responses into its output buffer and writes them when the socket is writable.  A
  client makes a call through a channel: it starts a timeout, connects, writes the request, registers a
  callback under the message id and runs its loop until the response or the timeout has come.  Around
  this stand a timer on a timerfd, an event loop on epoll, address classes, a generator of message ids,
  a configuration in XML and a logger with background threads.

  Theories and what they model, from the bottom up:

  \<^item> \<open>RpcPrelude\<close>: byte lists as memory, collections of simplification rules, and runs of a step function
    with the locale \<open>stepwise_invariant\<close>, which lifts an invariant from one step to every run.
  \<^item> \<open>TcpBuffer\<close> (\<open>net/tcp/tcp_buffer\<close>): the record \<open>tcp_buffer\<close> and one definition per method.  The
    locale \<open>byte_fifo\<close> is the contract of a byte queue; its interpretation on the buffer gives the
    refinement of a list of bytes under any sequence of operations.
  \<^item> \<open>NetBytes\<close>, \<open>TinyPBProtocol\<close>, \<open>TinyPBCoder\<close> (\<open>net/coder/tinypb_*\<close>, \<open>common/error_code.h\<close>): network
    byte order, the message with its setters, \<open>encodeMessage\<close>, \<open>encode\<close>, \<open>decode\<close> and the checksum.  The
    decoder is proved to implement \<open>parse_stream\<close>, a parser of the byte stream.
  \<^item> \<open>CoderContract\<close>: the contract of a frame codec (locale \<open>frame_codec\<close>) interpreted on the coder:
    round trip, independence of segmentation, detection of a changed byte, termination of decoding, and
    what frame lengths that are not positive do.  \<open>StringCoder\<close> (\<open>net/coder/string_coder.h\<close>) is the second
    coder, which keeps no boundaries.
  \<^item> \<open>MsgIdUtil\<close>, \<open>NetAddr\<close>, \<open>Util\<close> (\<open>common/msg_id_util\<close>, \<open>net/tcp/net_addr\<close>, \<open>common/util\<close>): ids as
    decimal counters, addresses and their texts, complete reads and writes.
  \<^item> \<open>RpcController\<close>, \<open>Dispatcher\<close> (\<open>net/rpc/rpc_controller\<close>, \<open>common/runtime\<close>, \<open>net/rpc/dispatcher\<close>): the
    table of services and \<open>dispatch\<close> with all its early returns.
  \<^item> \<open>FdEvent\<close>, \<open>Timer\<close>, \<open>EventLoop\<close> (\<open>net/fd_event*\<close>, \<open>net/wakeup_fd_event\<close>, \<open>net/timer*\<close>,
    \<open>net/eventloop\<close>): events with their handlers, the table of events, the timer as a sorted list of
    pending events over an armed timerfd, and the loop with its task queue and the calls of epoll.  A
    model of \<open>epoll_ctl\<close> answers these calls: \<open>accepted\<close> refuses a negative descriptor, adding what is
    registered, and changing or deleting what is not; \<open>kernel_run\<close> also refuses a descriptor that is not open,
    in a process that opens and closes descriptors beside the loop.
  \<^item> \<open>TcpConnection\<close>, \<open>ConnectionProperties\<close> (\<open>net/tcp/tcp_connection\<close>): reading, executing, writing and
    closing, with the invariant \<open>wf_conn\<close> of the two buffers.
  \<^item> \<open>IOThread\<close>, \<open>ThreadGroup\<close>, \<open>TcpServer\<close> (\<open>net/io_thread*\<close>, \<open>net/tcp/tcp_acceptor\<close>,
    \<open>net/tcp/tcp_server\<close>): the handshake of a thread with its owner as a step relation, the group's
    constructor, \<open>start\<close>, \<open>join\<close> and destructor over all interleavings with its members, round robin,
    accepting and removing connections.  The semaphores work in the handshake; the early returns of the
    constructor and the destruction of a semaphore in use are theorems of their own.
  \<^item> \<open>RpcChannel\<close>, \<open>ChannelProperties\<close>, \<open>CallLiveness\<close> (\<open>net/tcp/tcp_client\<close>, \<open>net/rpc/rpc_channel\<close>,
    \<open>net/rpc/rpc_closure.h\<close>): \<open>CallMethod\<close>, connecting, and the callbacks of a call; a connected call
    completes at most once, and by its timeout at the latest.  The controller argument of \<open>CallMethod\<close> may be
    the object given to \<open>Init\<close> or another one; a response that does not parse leaves the response object as
    the parser left it.
  \<^item> \<open>ClientLoop\<close>, \<open>ClientLoopProperties\<close>, \<open>BlockingCall\<close>, \<open>CallResponse\<close> (\<open>net/tcp/tcp_client\<close>, the macro
    \<open>CALL_RPC\<close> of \<open>net/rpc/rpc_channel.h\<close>): the loop of a client's thread over the handlers of a call.  A
    call blocks until its loop is stopped; the locale \<open>client_invariant\<close> lifts what the handlers keep to the
    loop.  The loop is stopped exactly when the callback has run; it runs once when the connection comes about
    and no batch has the timer ahead of the handler of \<open>connect\<close> (\<open>good_rounds\<close>; that batch completes the call
    twice), by the timeout at the latest, and with the response of the server if it fits the input buffer.
  \<^item> \<open>Config\<close>, \<open>Log\<close>, \<open>LogProperties\<close> (\<open>common/config\<close>, \<open>common/log\<close>): loading the configuration, the
    logger and its two background writers.
  \<^item> \<open>EndToEnd\<close>: the two ends of a call together.  \<open>DecodedMessages\<close>: what the decoder yields is well typed.
  \<^item> \<open>ServerLoop\<close>, \<open>ServerLoopProperties\<close>, \<open>ServerSafety\<close>, \<open>ServerStart\<close>, \<open>ServerProperties\<close>: the running server.
    The loops of the main thread and of all I/O threads work on one server; a step of \<open>machine_step\<close> swaps a
    queue, runs one whole task of a batch or handles one result of \<open>epoll_wait\<close>, with the functions of
    \<open>EventLoop\<close> on a view of the server.  \<open>loop_ok\<close> says what one loop keeps, \<open>tables_ok\<close> what the connections and the
    event objects keep; together they are an invariant of every interleaving.
  \<^item> \<open>ServerStreams\<close>, \<open>ServerContracts\<close>, \<open>ServerReplies\<close>: the bytes that arrive on each connection are recorded
    beside the running server.  The locale \<open>connection_contract\<close> states what a relation between those bytes and
    a connection must survive and lifts it to every run; its interpretations are the soundness of a live
    connection and the stream of responses that its client is owed.  The latter is for connections whose
    reads leave a free byte of the input buffer and hold no malformed frame (\<open>fitting\<close>).
  \<^item> \<open>ServerLifetime\<close> (\<open>net/tcp/tcp_server\<close>, \<open>net/eventloop\<close>): the constructor of a server over a store of loops
    with the thread-local pointers to them, which establishes the start of the running server, its \<open>start\<close> and
    its destructor.

  How the code is represented.  A class is a record and a method a function that takes and returns it;
  a method that can throw or stop the process returns a sum with the fault, so every early return is a
  branch.  Chars are \<open>8 word\<close>, \<open>int32_t\<close> values that travel on the wire are \<open>32 word\<close>; indices that the
  code keeps far below the bounds of \<open>int\<close> are unbounded integers (\<open>writeToBuffer_bounds\<close> says up to where the
  two agree for the buffer: its resizing overflows from 2^30 bytes on).  Callbacks and lambdas are values of a
  datatype (\<open>handler\<close>, \<open>rpc_closure\<close>, \<open>rpc_task\<close>) with a function that runs them.  What the operating
  system answers is an argument: the results of \<open>read\<close>, \<open>write\<close>, \<open>accept\<close>, \<open>connect\<close>, \<open>epoll_wait\<close> and the
  clock are scripts of answers or functions, so a theorem holds for every behaviour it does not exclude.
  What the program tells the kernel (calls of \<open>epoll_ctl\<close> and \<open>close\<close>, bytes written) is recorded in the
  state.  Protobuf messages and services, \<open>inet_pton\<close> and TinyXML are parameters; no law is assumed of
  them, a theorem names the results it needs of them.

  Loops.  A loop over a list is structural recursion.  The loops that need not end are partial functions
  with option results, \<open>None\<close> meaning that the loop does not return: \<open>decode_loop\<close>, \<open>read_loop\<close>,
  \<open>run_write_cbs\<close>, the retry loops of \<open>Timer\<close>, \<open>FdEvent\<close> and \<open>Util\<close>.  Where the program relies on their end it is
  proved (\<open>decode_terminates\<close>, \<open>connection_buffers_sound\<close>), where it does not end that is a theorem
  too.  No fuel is used; a script that is used up means that the system call has nothing to report, and
  the dates given to \<open>async_join\<close> bound the rounds that a stopped logger makes, for which one per batch
  suffices.

  What the theorems show.  The invariants are those of the buffers, the timer, the set of watched
  descriptors, the count of clients, the handshake, a running call and the running server, each kept by every step.  The
  main functional theorems say what each handler does on every branch; they are composed in
  \<open>server_streams_responses\<close>, which relates all that ever arrived on a connection to all that was written on
  it, and \<open>remote_call_end_to_end\<close>, from the call of the client to the handler's
  result in its response object.  The defects that modelling showed (a segment that fills the buffer is
  lost, large frames block a connection, a failed connection completes twice, application lines that are
  never logged and others) are theorems about the definitions as the code has them.

  Not modelled: the generated code under \<open>src/pb/\<close>, the tests and the configuration files; \<open>printf\<close> and
  the formatting of log messages, and the log calls inside the other components, which do not change
  their state; the global pointers and, outside \<open>ServerLifetime\<close>, the thread-local ones, which are explicit arguments
  here (their accessors are functions from the old value);
  \<open>exit\<close> after a failed system call in a constructor; the locks.  An operation of a component is one step,
  and in the running server a whole handler is, also where the code takes several locks in turn or none; what
  another thread does in the middle of one (in \<open>onAccept\<close> between the registration and the insertion, in
  \<open>FdEvent::close\<close> between \<open>close\<close> and the reset of the event) and data races outside the locks are beyond the
  model; those that were seen are listed as findings.
\<close>

end
